(* ===== verification/Prelude.thy ===== *)
theory Prelude
  imports Complex_Main "HOL-Library.Word" "HOL-Library.Char_ord"
    "HOL-Library.List_Lexorder" "HOL-Library.Product_Lexorder" "HOL-Library.Sublist"
begin

text \<open>
  What every component of the model shares: the time line, saturating machine
  arithmetic, SQL's three-valued comparisons and its \<open>UPDATE .. WHERE\<close>, the
  ordered map (\<open>BTreeMap\<close>), the byte-string operations of the Rust standard
  library, and the collections of simplification rules the component proofs use.

  \<^item> Instants (\<open>chrono::DateTime<Utc>\<close>) and durations are integers, in nanoseconds.
    The store writes instants as RFC 3339 text in UTC; that text sorts as the instants
    do, so a text column is modelled by the instant it denotes.
  \<^item> \<open>f64\<close> values are real numbers: rounding and the not-a-number values are left out.
  \<^item> Strings are byte strings (UTF-8), as \<open>str::len\<close> and \<open>str::bytes\<close> count them.
\<close>

named_theorems fleet_defs \<open>definitions of operations that component proofs unfold\<close>
named_theorems row_simps \<open>what a row update leaves alone\<close>

section \<open>Time\<close>

type_synonym instant = int
type_synonym duration = int

definition seconds :: "int \<Rightarrow> duration" where
  "seconds n = n * 1000000000"

definition minutes :: "int \<Rightarrow> duration" where
  "minutes n = seconds (60 * n)"

definition hours :: "int \<Rightarrow> duration" where
  "hours n = seconds (3600 * n)"

definition days :: "int \<Rightarrow> duration" where
  "days n = seconds (86400 * n)"

definition millis :: "int \<Rightarrow> duration" where
  "millis n = n * 1000000"

lemmas time_defs = seconds_def minutes_def hours_def days_def millis_def

text \<open>\<open>num_seconds\<close> and \<open>num_milliseconds\<close> truncate towards zero.\<close>

definition trunc_div :: "int \<Rightarrow> int \<Rightarrow> int" where
  "trunc_div a b = sgn a * sgn b * (\<bar>a\<bar> div \<bar>b\<bar>)"

definition num_seconds :: "duration \<Rightarrow> int" where
  "num_seconds d = trunc_div d 1000000000"

definition num_milliseconds :: "duration \<Rightarrow> int" where
  "num_milliseconds d = trunc_div d 1000000"

lemma trunc_div_nonneg: "0 \<le> a \<Longrightarrow> 0 < b \<Longrightarrow> trunc_div a b = a div b"
  by (cases "a = 0") (auto simp: trunc_div_def)

lemma num_milliseconds_nonneg: "0 \<le> d \<Longrightarrow> num_milliseconds d = d div 1000000"
  by (simp add: num_milliseconds_def trunc_div_nonneg)

lemma num_seconds_nonneg: "0 \<le> d \<Longrightarrow> num_seconds d = d div 1000000000"
  by (simp add: num_seconds_def trunc_div_nonneg)

lemma num_seconds_seconds [simp]: "num_seconds (seconds n) = n"
  by (cases "n = 0") (auto simp: num_seconds_def seconds_def trunc_div_def abs_mult sgn_mult
      mult_sgn_abs)

lemma num_milliseconds_seconds: "0 \<le> n \<Longrightarrow> num_milliseconds (seconds n) = n * 1000"
proof -
  assume "0 \<le> n"
  moreover have "n * 1000000000 = (n * 1000) * (1000000 :: int)" by simp
  ultimately show ?thesis
    by (simp only: num_milliseconds_nonneg seconds_def)
qed

section \<open>Machine integers and clamping\<close>

type_synonym u16 = "16 word"

abbreviation u32_max :: nat where "u32_max \<equiv> 4294967295"
abbreviation u64_max :: nat where "u64_max \<equiv> 18446744073709551615"

definition sat_add32 :: "nat \<Rightarrow> nat \<Rightarrow> nat" where
  "sat_add32 a b = min (a + b) u32_max"

definition sat_add64 :: "nat \<Rightarrow> nat \<Rightarrow> nat" where
  "sat_add64 a b = min (a + b) u64_max"

definition sat_mul64 :: "nat \<Rightarrow> nat \<Rightarrow> nat" where
  "sat_mul64 a b = min (a * b) u64_max"

lemma sat_add32_le: "sat_add32 a b \<le> u32_max"
  by (simp add: sat_add32_def)

lemma sat_add32_ge: "a \<le> u32_max \<Longrightarrow> a \<le> sat_add32 a b"
  by (simp add: sat_add32_def)

text \<open>\<open>Ord::clamp\<close> and \<open>f64::clamp\<close>; the Rust ones panic when \<open>hi < lo\<close>.\<close>

definition clamp :: "'a::linorder \<Rightarrow> 'a \<Rightarrow> 'a \<Rightarrow> 'a" where
  "clamp lo hi x = (if x < lo then lo else if hi < x then hi else x)"

lemma clamp_bounds: "lo \<le> hi \<Longrightarrow> lo \<le> clamp lo hi x \<and> clamp lo hi x \<le> hi"
  by (auto simp: clamp_def)

lemma clamp_ge [intro]: "lo \<le> hi \<Longrightarrow> lo \<le> clamp lo hi x"
  and clamp_le [intro]: "lo \<le> hi \<Longrightarrow> clamp lo hi x \<le> hi"
  using clamp_bounds by blast+

lemma clamp_id: "lo \<le> x \<Longrightarrow> x \<le> hi \<Longrightarrow> clamp lo hi x = x"
  by (auto simp: clamp_def)

lemma clamp_mono: "lo \<le> hi \<Longrightarrow> x \<le> y \<Longrightarrow> clamp lo hi x \<le> clamp lo hi y"
  by (auto simp: clamp_def)

text \<open>\<open>f64::round\<close>: half away from zero.\<close>

definition rust_round :: "real \<Rightarrow> int" where
  "rust_round x = (if 0 \<le> x then \<lfloor>x + 1 / 2\<rfloor> else - \<lfloor>1 / 2 - x\<rfloor>)"

section \<open>Options as SQL values\<close>

text \<open>
  A column that may be NULL is an option. A comparison with NULL is not true, so a
  row whose column is NULL is not selected by it.
\<close>

fun null_or_le :: "instant option \<Rightarrow> instant \<Rightarrow> bool" where
  "null_or_le None t = True"
| "null_or_le (Some a) t = (a \<le> t)"

fun sql_le :: "instant option \<Rightarrow> instant \<Rightarrow> bool" where
  "sql_le None t = False"
| "sql_le (Some a) t = (a \<le> t)"

fun sql_gt :: "instant option \<Rightarrow> instant \<Rightarrow> bool" where
  "sql_gt None t = False"
| "sql_gt (Some a) t = (t < a)"

fun coalesce :: "'a option \<Rightarrow> 'a \<Rightarrow> 'a" where
  "coalesce None d = d"
| "coalesce (Some a) d = a"

fun coalesce2 :: "'a option \<Rightarrow> 'a option \<Rightarrow> 'a option" where
  "coalesce2 None d = d"
| "coalesce2 (Some a) d = Some a"

lemma null_or_le_not_gt: "null_or_le a t \<longleftrightarrow> \<not> sql_gt a t"
  by (cases a) auto

lemma coalesce2_eq_None [simp]: "coalesce2 a b = None \<longleftrightarrow> a = None \<and> b = None"
  by (cases a) auto

section \<open>Tables\<close>

definition update_where :: "('r \<Rightarrow> bool) \<Rightarrow> ('r \<Rightarrow> 'r) \<Rightarrow> 'r list \<Rightarrow> 'r list" where
  "update_where p f rs = map (\<lambda>r. if p r then f r else r) rs"

definition rows_affected :: "('r \<Rightarrow> bool) \<Rightarrow> 'r list \<Rightarrow> nat" where
  "rows_affected p rs = length (filter p rs)"

lemma length_update_where [simp]: "length (update_where p f rs) = length rs"
  by (simp add: update_where_def)

lemma update_where_Nil [simp]: "update_where p f [] = []"
  by (simp add: update_where_def)

lemma update_where_Cons [simp]:
  "update_where p f (r # rs) = (if p r then f r else r) # update_where p f rs"
  by (simp add: update_where_def)

lemma set_update_where: "set (update_where p f rs) = (\<lambda>r. if p r then f r else r) ` set rs"
  by (simp add: update_where_def)

lemma map_update_where: "(\<And>r. p r \<Longrightarrow> g (f r) = g r) \<Longrightarrow> map g (update_where p f rs) = map g rs"
  by (induction rs) auto

lemma update_where_none: "(\<And>r. r \<in> set rs \<Longrightarrow> \<not> p r) \<Longrightarrow> update_where p f rs = rs"
  by (induction rs) auto

lemma update_where_inv:
  assumes "\<And>r. r \<in> set rs \<Longrightarrow> P r" and "\<And>r. P r \<Longrightarrow> p r \<Longrightarrow> P (f r)"
    and "r \<in> set (update_where p f rs)"
  shows "P r"
  using assms by (auto simp: set_update_where split: if_splits)

lemma rows_affected_zero: "rows_affected p rs = 0 \<longleftrightarrow> (\<forall>r \<in> set rs. \<not> p r)"
  by (simp add: rows_affected_def filter_empty_conv)

section \<open>Errors\<close>

text \<open>\<open>anyhow::Result\<close>: \<open>Inl\<close> is the error, by its message. \<open>bind_e\<close> is the question mark
  operator.\<close>

definition bind_e :: "'e + 'a \<Rightarrow> ('a \<Rightarrow> 'e + 'b) \<Rightarrow> 'e + 'b" where
  "bind_e x f = (case x of Inl e \<Rightarrow> Inl e | Inr a \<Rightarrow> f a)"

lemma bind_e_simps [simp]: "bind_e (Inl e) f = Inl e" "bind_e (Inr a) f = f a"
  by (simp_all add: bind_e_def)

lemma bind_e_Inr: "bind_e x f = Inr b \<longleftrightarrow> (\<exists>a. x = Inr a \<and> f a = Inr b)"
  by (cases x) auto

definition ok_or :: "'e \<Rightarrow> 'a option \<Rightarrow> 'e + 'a" where
  "ok_or e x = (case x of None \<Rightarrow> Inl e | Some a \<Rightarrow> Inr a)"

lemma ok_or_Inr [simp]: "ok_or e x = Inr a \<longleftrightarrow> x = Some a"
  by (cases x) (auto simp: ok_or_def)

fun ensure :: "bool \<Rightarrow> string \<Rightarrow> string + unit" where
  "ensure True msg = Inr ()"
| "ensure False msg = Inl msg"

text \<open>A sequence of \<open>ensure!\<close> statements: the first that fails is the result.\<close>

fun ensure_all :: "(bool \<times> string) list \<Rightarrow> string + unit" where
  "ensure_all [] = Inr ()"
| "ensure_all ((b, msg) # es) = (case ensure b msg of Inl e \<Rightarrow> Inl e | Inr _ \<Rightarrow> ensure_all es)"

lemma ensure_all_Inr: "ensure_all es = Inr u \<longleftrightarrow> (\<forall>(b, msg) \<in> set es. b)"
proof (induction es)
  case (Cons e es)
  then show ?case by (cases e; cases "fst e") auto
qed simp

lemma ensure_all_Inl: "ensure_all es = Inl m \<Longrightarrow> (False, m) \<in> set es"
proof (induction es)
  case (Cons e es)
  then show ?case by (cases e; cases "fst e") auto
qed simp

lemma ensure_Inr [simp]: "ensure b msg = Inr u \<longleftrightarrow> b"
  by (cases b) auto

end
