(* ===== verification/Ordered_Map.thy ===== *)
theory Ordered_Map
  imports Prelude
begin

text \<open>
  The ordered map of the Rust standard library (\<open>BTreeMap\<close>, also what
  \<open>serde_json\<close> objects are by default): its contract as a locale, and sorted
  association lists that satisfy it. Parsing collects query parameters and JSON
  objects into such maps, and the probe collects its reports into one.
\<close>

section \<open>The contract\<close>

locale ordered_map =
  fixes empty :: "'m"
    and insert :: "'k::linorder \<Rightarrow> 'v \<Rightarrow> 'm \<Rightarrow> 'm"
    and lookup :: "'m \<Rightarrow> 'k \<Rightarrow> 'v option"
    and entries :: "'m \<Rightarrow> ('k \<times> 'v) list"
    and ok :: "'m \<Rightarrow> bool"
  assumes ok_empty: "ok empty"
    and lookup_empty: "lookup empty = (\<lambda>_. None)"
    and ok_insert: "ok m \<Longrightarrow> ok (insert k v m)"
    and lookup_insert: "ok m \<Longrightarrow> lookup (insert k v m) = (lookup m)(k \<mapsto> v)"
    and entries_sorted: "ok m \<Longrightarrow> sorted_wrt (<) (map fst (entries m))"
    and entries_lookup: "ok m \<Longrightarrow> map_of (entries m) = lookup m"
begin

lemma ok_collect: "ok m \<Longrightarrow> ok (fold (\<lambda>(k, v). insert k v) kvs m)"
  by (induction kvs arbitrary: m) (auto intro: ok_insert)

lemma lookup_collect:
  "ok m \<Longrightarrow> lookup (fold (\<lambda>(k, v). insert k v) kvs m) = lookup m ++ map_of (rev kvs)"
proof (induction kvs arbitrary: m)
  case (Cons kv kvs)
  obtain k v where kv: "kv = (k, v)" by (cases kv)
  from Cons.prems have "ok (insert k v m)" by (rule ok_insert)
  with Cons show ?case
    by (auto simp: kv lookup_insert fun_eq_iff map_add_def split: option.splits)
qed simp

lemma lookup_collect_empty:
  "lookup (fold (\<lambda>(k, v). insert k v) kvs empty) = map_of (rev kvs)"
  by (simp add: lookup_collect ok_empty lookup_empty)

lemma entries_distinct: "ok m \<Longrightarrow> distinct (map fst (entries m))"
  using entries_sorted strict_sorted_iff by blast

lemma set_entries: "ok m \<Longrightarrow> set (entries m) = {(k, v). lookup m k = Some v}"
  using entries_distinct entries_lookup by (auto simp flip: entries_lookup
      intro: map_of_is_SomeI dest: map_of_SomeD)

text \<open>Two maps with the same lookups list the same entries, whatever built them.\<close>

lemma entries_unique:
  assumes "ok m" and "ok m'" and "lookup m = lookup m'"
  shows "entries m = entries m'"
proof (rule map_sorted_distinct_set_unique [where f = fst])
  show "inj_on fst (set (entries m) \<union> set (entries m'))"
    using assms by (auto simp: set_entries inj_on_def)
  show "sorted (map fst (entries m))" "distinct (map fst (entries m))"
    "sorted (map fst (entries m'))" "distinct (map fst (entries m'))"
    using assms entries_sorted strict_sorted_iff by blast+
  show "set (entries m) = set (entries m')"
    using assms by (simp add: set_entries)
qed

lemma collect_perm:
  assumes "distinct (map fst kvs)" and "set kvs = set kvs'" and "distinct (map fst kvs')"
  shows "entries (fold (\<lambda>(k, v). insert k v) kvs empty)
       = entries (fold (\<lambda>(k, v). insert k v) kvs' empty)"
proof (rule entries_unique)
  have "map_of (rev kvs) = map_of (rev kvs')"
    using assms by (subst map_of_inject_set) (auto simp: rev_map [symmetric])
  then show "lookup (fold (\<lambda>(k, v). insert k v) kvs empty)
      = lookup (fold (\<lambda>(k, v). insert k v) kvs' empty)"
    by (simp add: lookup_collect_empty)
qed (auto intro: ok_collect ok_empty)

lemma keys_collect:
  "fst ` set (entries (fold (\<lambda>(k, v). insert k v) kvs empty)) = fst ` set kvs"
proof -
  let ?m = "fold (\<lambda>(k, v). insert k v) kvs empty"
  have "fst ` set (entries ?m) = dom (map_of (entries ?m))" by (simp add: dom_map_of_conv_image_fst)
  also have "\<dots> = dom (map_of (rev kvs))"
    by (simp add: entries_lookup ok_collect ok_empty lookup_collect_empty)
  finally show ?thesis by (simp add: dom_map_of_conv_image_fst)
qed

end

section \<open>Sorted association lists\<close>

fun bt_insert :: "'k::linorder \<Rightarrow> 'v \<Rightarrow> ('k \<times> 'v) list \<Rightarrow> ('k \<times> 'v) list" where
  "bt_insert k v [] = [(k, v)]"
| "bt_insert k v ((k', v') # m) =
     (if k < k' then (k, v) # (k', v') # m
      else if k = k' then (k, v) # m
      else (k', v') # bt_insert k v m)"

definition bt_ok :: "('k::linorder \<times> 'v) list \<Rightarrow> bool" where
  "bt_ok m = sorted_wrt (<) (map fst m)"

definition bt_collect :: "('k::linorder \<times> 'v) list \<Rightarrow> ('k \<times> 'v) list" where
  "bt_collect kvs = fold (\<lambda>(k, v). bt_insert k v) kvs []"

lemma fst_bt_insert: "fst ` set (bt_insert k v m) = Set.insert k (fst ` set m)"
  by (induction k v m rule: bt_insert.induct) auto

lemma bt_ok_insert: "bt_ok m \<Longrightarrow> bt_ok (bt_insert k v m)"
proof (induction k v m rule: bt_insert.induct)
  case (2 k v k' v' m)
  then have IH: "k' < k \<Longrightarrow> bt_ok (bt_insert k v m)" by (auto simp: bt_ok_def)
  show ?case
  proof (cases "k' < k")
    case True
    have "\<forall>x \<in> fst ` set (bt_insert k v m). k' < x"
      using 2 True by (auto simp: fst_bt_insert bt_ok_def)
    with True IH show ?thesis by (auto simp: bt_ok_def)
  qed (use 2 in \<open>auto simp: bt_ok_def\<close>)
qed (simp add: bt_ok_def)

lemma map_of_bt_insert: "bt_ok m \<Longrightarrow> map_of (bt_insert k v m) = (map_of m)(k \<mapsto> v)"
  by (induction k v m rule: bt_insert.induct) (auto simp: bt_ok_def fun_eq_iff)

interpretation btree: ordered_map "[]" bt_insert map_of "\<lambda>m. m" bt_ok
  by unfold_locales (auto simp: bt_ok_insert map_of_bt_insert, auto simp: bt_ok_def)

lemma bt_collect_ok: "bt_ok (bt_collect kvs)"
  unfolding bt_collect_def by (rule btree.ok_collect [OF btree.ok_empty])

lemma map_of_bt_collect: "map_of (bt_collect kvs) = map_of (rev kvs)"
  unfolding bt_collect_def by (rule btree.lookup_collect_empty)

lemma keys_bt_collect: "fst ` set (bt_collect kvs) = fst ` set kvs"
  unfolding bt_collect_def by (rule btree.keys_collect)

lemma bt_collect_perm:
  "distinct (map fst kvs) \<Longrightarrow> set kvs = set kvs' \<Longrightarrow> distinct (map fst kvs') \<Longrightarrow>
    bt_collect kvs = bt_collect kvs'"
  unfolding bt_collect_def by (rule btree.collect_perm)

lemma distinct_bt_collect: "distinct (map fst (bt_collect kvs))"
  using btree.entries_distinct [OF bt_collect_ok] .

end
