(* ===== verification/Rust_Str.thy ===== *)
theory Rust_Str
  imports Ordered_Map
begin

text \<open>
  The operations of the Rust standard library on text that the program uses
  (\<open>str::trim\<close>, \<open>split\<close>, \<open>split_once\<close>, \<open>lines\<close>, ASCII case mapping, integer and IP
  address parsing, \<open>String::from_utf8\<close>), on byte strings.
\<close>

section \<open>Character classes and case\<close>

abbreviation code :: "char \<Rightarrow> nat" where "code c \<equiv> of_char c"

definition is_digit :: "char \<Rightarrow> bool" where
  "is_digit c = (48 \<le> code c \<and> code c \<le> 57)"

definition is_alnum :: "char \<Rightarrow> bool" where
  "is_alnum c = (is_digit c \<or> 65 \<le> code c \<and> code c \<le> 90 \<or> 97 \<le> code c \<and> code c \<le> 122)"

definition is_hexdigit :: "char \<Rightarrow> bool" where
  "is_hexdigit c = (is_digit c \<or> 65 \<le> code c \<and> code c \<le> 70 \<or> 97 \<le> code c \<and> code c \<le> 102)"

definition is_graphic :: "char \<Rightarrow> bool" where
  "is_graphic c = (33 \<le> code c \<and> code c \<le> 126)"

definition lower_char :: "char \<Rightarrow> char" where
  "lower_char c = (if 65 \<le> code c \<and> code c \<le> 90 then char_of (code c + 32) else c)"

definition to_lower :: "string \<Rightarrow> string" where
  "to_lower s = map lower_char s"

definition eq_ignore_case :: "string \<Rightarrow> string \<Rightarrow> bool" where
  "eq_ignore_case a b = (to_lower a = to_lower b)"

lemma code_lower_char:
  "code (lower_char c) = (if 65 \<le> code c \<and> code c \<le> 90 then code c + 32 else code c)"
  by (auto simp: lower_char_def of_char_of)

lemma lower_char_idem [simp]: "lower_char (lower_char c) = lower_char c"
  by (auto simp: lower_char_def of_char_of)

lemma to_lower_idem [simp]: "to_lower (to_lower s) = to_lower s"
  by (simp add: to_lower_def)

lemma length_to_lower [simp]: "length (to_lower s) = length s"
  by (simp add: to_lower_def)

lemma to_lower_eq_Nil [simp]: "to_lower s = [] \<longleftrightarrow> s = []"
  by (simp add: to_lower_def)

section \<open>Searching and splitting\<close>

fun strip_prefix_opt :: "string \<Rightarrow> string \<Rightarrow> string option" where
  "strip_prefix_opt [] s = Some s"
| "strip_prefix_opt (p # ps) [] = None"
| "strip_prefix_opt (p # ps) (c # cs) = (if p = c then strip_prefix_opt ps cs else None)"

definition starts_with :: "string \<Rightarrow> string \<Rightarrow> bool" where
  "starts_with s p = (strip_prefix_opt p s \<noteq> None)"

fun split_once :: "string \<Rightarrow> string \<Rightarrow> (string \<times> string) option" where
  "split_once pat [] = (if pat = [] then Some ([], []) else None)"
| "split_once pat (c # cs) =
     (case strip_prefix_opt pat (c # cs) of
        Some r \<Rightarrow> Some ([], r)
      | None \<Rightarrow> map_option (\<lambda>(a, b). (c # a, b)) (split_once pat cs))"

definition rsplit_once :: "char \<Rightarrow> string \<Rightarrow> (string \<times> string) option" where
  "rsplit_once ch s = map_option (\<lambda>(a, b). (rev b, rev a)) (split_once [ch] (rev s))"

definition contains :: "string \<Rightarrow> string \<Rightarrow> bool" where
  "contains s pat = (split_once pat s \<noteq> None)"

fun split_char :: "char \<Rightarrow> string \<Rightarrow> string list" where
  "split_char ch [] = [[]]"
| "split_char ch (c # cs) =
     (if c = ch then [] # split_char ch cs
      else (case split_char ch cs of [] \<Rightarrow> [[c]] | w # ws \<Rightarrow> (c # w) # ws))"

text \<open>The part before the first \<open>ch\<close>: \<open>split(ch).next()\<close>.\<close>

definition before_char :: "char \<Rightarrow> string \<Rightarrow> string" where
  "before_char ch s = takeWhile (\<lambda>c. c \<noteq> ch) s"

lemma strip_prefix_opt_Some: "strip_prefix_opt p s = Some r \<longleftrightarrow> s = p @ r"
  by (induction p s rule: strip_prefix_opt.induct) auto

lemma strip_prefix_opt_append [simp]: "strip_prefix_opt p (p @ r) = Some r"
  by (simp add: strip_prefix_opt_Some)

lemma starts_with_iff: "starts_with s p \<longleftrightarrow> prefix p s"
  by (auto simp: starts_with_def prefix_def strip_prefix_opt_Some)

lemma split_once_Some: "split_once pat s = Some (a, b) \<Longrightarrow> s = a @ pat @ b"
proof (induction pat s arbitrary: a rule: split_once.induct)
  case (2 pat c cs)
  then show ?case
    by (auto split: option.splits simp: strip_prefix_opt_Some)
qed (auto split: if_splits)

lemma split_once_None: "split_once pat s = None \<longleftrightarrow> \<not> sublist pat s"
proof (induction pat s rule: split_once.induct)
  case (2 pat c cs)
  show ?case
  proof (cases "strip_prefix_opt pat (c # cs)")
    case None
    then have "\<not> prefix pat (c # cs)" by (auto simp: prefix_def strip_prefix_opt_Some [symmetric])
    with None 2 show ?thesis by (auto simp: sublist_Cons_right)
  next
    case (Some r)
    then have "prefix pat (c # cs)" by (auto simp: strip_prefix_opt_Some)
    with Some show ?thesis by (auto simp: sublist_Cons_right)
  qed
qed auto

lemma contains_iff: "contains s pat \<longleftrightarrow> sublist pat s"
  using split_once_None by (auto simp: contains_def)

lemma split_char_not_Nil [simp]: "split_char ch s \<noteq> []"
  by (induction ch s rule: split_char.induct) (auto split: list.splits)

lemma hd_split_char: "hd (split_char ch s) = before_char ch s"
  by (induction ch s rule: split_char.induct) (auto simp: before_char_def split: list.splits)

lemma split_char_no_sep: "w \<in> set (split_char ch s) \<Longrightarrow> ch \<notin> set w"
  by (induction ch s arbitrary: w rule: split_char.induct) (force split: list.splits if_splits)+

section \<open>Trimming and lines\<close>

text \<open>The UTF-8 encodings of the code points with the \<open>White_Space\<close> property.\<close>

definition ws_encodings :: "string list" where
  "ws_encodings =
     [[CHR '' ''], [CHR 0x09], [CHR 0x0A], [CHR 0x0B], [CHR 0x0C], [CHR 0x0D],
      [CHR 0xC2, CHR 0x85], [CHR 0xC2, CHR 0xA0], [CHR 0xE1, CHR 0x9A, CHR 0x80],
      [CHR 0xE2, CHR 0x80, CHR 0x80], [CHR 0xE2, CHR 0x80, CHR 0x81],
      [CHR 0xE2, CHR 0x80, CHR 0x82], [CHR 0xE2, CHR 0x80, CHR 0x83],
      [CHR 0xE2, CHR 0x80, CHR 0x84], [CHR 0xE2, CHR 0x80, CHR 0x85],
      [CHR 0xE2, CHR 0x80, CHR 0x86], [CHR 0xE2, CHR 0x80, CHR 0x87],
      [CHR 0xE2, CHR 0x80, CHR 0x88], [CHR 0xE2, CHR 0x80, CHR 0x89],
      [CHR 0xE2, CHR 0x80, CHR 0x8A], [CHR 0xE2, CHR 0x80, CHR 0xA8],
      [CHR 0xE2, CHR 0x80, CHR 0xA9], [CHR 0xE2, CHR 0x80, CHR 0xAF],
      [CHR 0xE2, CHR 0x81, CHR 0x9F], [CHR 0xE3, CHR 0x80, CHR 0x80]]"

fun first_strip :: "string list \<Rightarrow> string \<Rightarrow> string option" where
  "first_strip [] s = None"
| "first_strip (w # ws) s =
     (case strip_prefix_opt w s of Some r \<Rightarrow> Some r | None \<Rightarrow> first_strip ws s)"

text \<open>The length of the string bounds the number of characters stripped.\<close>

fun strip_all :: "nat \<Rightarrow> string list \<Rightarrow> string \<Rightarrow> string" where
  "strip_all 0 ws s = s"
| "strip_all (Suc n) ws s =
     (case first_strip ws s of None \<Rightarrow> s | Some r \<Rightarrow> strip_all n ws r)"

definition trim_start :: "string \<Rightarrow> string" where
  "trim_start s = strip_all (length s) ws_encodings s"

definition trim_end :: "string \<Rightarrow> string" where
  "trim_end s = rev (strip_all (length s) (map rev ws_encodings) (rev s))"

definition trim :: "string \<Rightarrow> string" where
  "trim s = trim_end (trim_start s)"

definition trim_end_char :: "char \<Rightarrow> string \<Rightarrow> string" where
  "trim_end_char ch s = rev (dropWhile (\<lambda>c. c = ch) (rev s))"

definition trim_brackets :: "string \<Rightarrow> string" where
  "trim_brackets s =
     rev (dropWhile (\<lambda>c. c \<in> {CHR ''['', CHR '']''})
       (rev (dropWhile (\<lambda>c. c \<in> {CHR ''['', CHR '']''}) s)))"

definition strip_cr :: "string \<Rightarrow> string" where
  "strip_cr s = (if s \<noteq> [] \<and> last s = CHR 0x0D then butlast s else s)"

text \<open>
  \<open>str::lines\<close>: a line ends at a line feed, a carriage return just before it goes too,
  and a last line without a line feed counts when it is not empty.
\<close>

definition str_lines :: "string \<Rightarrow> string list" where
  "str_lines s =
     (let ps = split_char (CHR 0x0A) s
      in map strip_cr (butlast ps) @ (if last ps = [] then [] else [last ps]))"

lemma first_strip_shorter:
  "first_strip ws s = Some r \<Longrightarrow> [] \<notin> set ws \<Longrightarrow> length r < length s"
  by (induction ws) (auto split: option.splits simp: strip_prefix_opt_Some)

lemma strip_all_suffix: "suffix (strip_all n ws s) s"
proof (induction n ws s rule: strip_all.induct)
  case (2 n ws s)
  have "first_strip ws s = Some r \<Longrightarrow> suffix r s" for r
    by (induction ws) (auto split: option.splits simp: strip_prefix_opt_Some suffix_def)
  with 2 show ?case by (auto split: option.splits intro: suffix_order.trans)
qed auto

lemma strip_all_done:
  "length s \<le> n \<Longrightarrow> [] \<notin> set ws \<Longrightarrow> first_strip ws (strip_all n ws s) = None"
proof (induction n ws s rule: strip_all.induct)
  case (1 ws s)
  then have "s = []" by simp
  with 1 show ?case by (induction ws) (auto split: option.splits simp: strip_prefix_opt_Some)
next
  case (2 n ws s)
  show ?case
  proof (cases "first_strip ws s")
    case (Some r)
    with 2 have "length r \<le> n" using first_strip_shorter by fastforce
    with 2 Some show ?thesis by simp
  qed simp
qed

lemma trim_sublist: "sublist (trim s) s"
proof -
  have "prefix (trim_end t) t" for t
    unfolding trim_end_def using strip_all_suffix [of "length t" "map rev ws_encodings" "rev t"]
    by (metis rev_rev_ident suffix_to_prefix)
  moreover have "suffix (trim_start s) s"
    unfolding trim_start_def by (rule strip_all_suffix)
  ultimately show ?thesis
    unfolding trim_def by (meson prefix_imp_sublist suffix_imp_sublist sublist_order.order_trans)
qed

section \<open>Numbers, addresses, UTF-8\<close>

definition digits_value :: "string \<Rightarrow> nat" where
  "digits_value s = foldl (\<lambda>n c. 10 * n + (code c - 48)) 0 s"

text \<open>\<open>str::parse::<u16>\<close>: an optional plus sign, then decimal digits, no overflow.\<close>

definition parse_u16 :: "string \<Rightarrow> nat option" where
  "parse_u16 s =
     (let ds = (case s of c # cs \<Rightarrow> if c = CHR ''+'' then cs else s | [] \<Rightarrow> [])
      in if ds \<noteq> [] \<and> list_all is_digit ds \<and> digits_value ds \<le> 65535
         then Some (digits_value ds) else None)"

text \<open>
  \<open>IpAddr::from_str\<close>, as a recogniser: each reader returns the unread rest. An IPv4
  octet is at most three digits, at most 255, with no leading zero; an IPv6 group is at
  most four hexadecimal digits, \<open>::\<close> stands for at least one group of zeroes, and an
  IPv4 address may take the place of the last two groups.
\<close>

definition read_octet :: "string \<Rightarrow> string option" where
  "read_octet s =
     (let ds = takeWhile is_digit s
      in if ds \<noteq> [] \<and> length ds \<le> 3 \<and> digits_value ds \<le> 255
            \<and> \<not> (hd ds = CHR ''0'' \<and> 1 < length ds)
         then Some (drop (length ds) s) else None)"

fun read_octets :: "nat \<Rightarrow> string \<Rightarrow> string option" where
  "read_octets 0 s = Some s"
| "read_octets (Suc n) s =
     (case strip_prefix_opt ''.'' s of
        None \<Rightarrow> None
      | Some r \<Rightarrow> (case read_octet r of None \<Rightarrow> None | Some q \<Rightarrow> read_octets n q))"

definition read_ipv4 :: "string \<Rightarrow> string option" where
  "read_ipv4 s = (case read_octet s of None \<Rightarrow> None | Some r \<Rightarrow> read_octets 3 r)"

definition read_group :: "string \<Rightarrow> string option" where
  "read_group s =
     (let ds = takeWhile is_hexdigit s
      in if ds \<noteq> [] \<and> length ds \<le> 4 then Some (drop (length ds) s) else None)"

definition after_colon :: "nat \<Rightarrow> string \<Rightarrow> string option" where
  "after_colon i s = (if i = 0 then Some s else strip_prefix_opt '':'' s)"

text \<open>
  \<open>read_groups left i s\<close> reads at most \<open>left\<close> more groups after \<open>i\<close> were read; it
  returns how many were read in all, whether the last two came from an IPv4 address,
  and the rest.
\<close>

fun read_groups :: "nat \<Rightarrow> nat \<Rightarrow> string \<Rightarrow> nat \<times> bool \<times> string" where
  "read_groups 0 i s = (i, False, s)"
| "read_groups (Suc left) i s =
     (case (if 0 < left then Option.bind (after_colon i s) read_ipv4 else None) of
        Some r \<Rightarrow> (i + 2, True, r)
      | None \<Rightarrow>
         (case Option.bind (after_colon i s) read_group of
            Some r \<Rightarrow> read_groups left (Suc i) r
          | None \<Rightarrow> (i, False, s)))"

definition read_ipv6 :: "string \<Rightarrow> string option" where
  "read_ipv6 s =
     (case read_groups 8 0 s of (n, v4, r) \<Rightarrow>
        if n = 8 then Some r
        else if v4 then None
        else (case strip_prefix_opt ''::'' r of
                None \<Rightarrow> None
              | Some q \<Rightarrow> Some (snd (snd (read_groups (8 - (n + 1)) 0 q)))))"

definition ip_ok :: "string \<Rightarrow> bool" where
  "ip_ok s =
     (case read_ipv4 s of
        Some r \<Rightarrow> r = []
      | None \<Rightarrow> read_ipv6 s = Some [])"

definition byte_in :: "nat \<Rightarrow> nat \<Rightarrow> char \<Rightarrow> bool" where
  "byte_in lo hi c = (lo \<le> code c \<and> code c \<le> hi)"

abbreviation cont :: "char \<Rightarrow> bool" where "cont \<equiv> byte_in 128 191"

text \<open>\<open>String::from_utf8\<close> succeeds on well-formed UTF-8 only.\<close>

fun utf8_ok :: "string \<Rightarrow> bool" where
  "utf8_ok [] = True"
| "utf8_ok (a # s) =
     (if code a < 128 then utf8_ok s
      else if byte_in 194 223 a then (case s of b # t \<Rightarrow> cont b \<and> utf8_ok t | _ \<Rightarrow> False)
      else if byte_in 224 239 a then
        (case s of b # c # t \<Rightarrow>
           (if code a = 224 then byte_in 160 191 b else if code a = 237 then byte_in 128 159 b
            else cont b) \<and> cont c \<and> utf8_ok t
         | _ \<Rightarrow> False)
      else if byte_in 240 244 a then
        (case s of b # c # d # t \<Rightarrow>
           (if code a = 240 then byte_in 144 191 b else if code a = 244 then byte_in 128 143 b
            else cont b) \<and> cont c \<and> cont d \<and> utf8_ok t
         | _ \<Rightarrow> False)
      else False)"

definition from_utf8 :: "string \<Rightarrow> string option" where
  "from_utf8 s = (if utf8_ok s then Some s else None)"

text \<open>
  \<open>String::from_utf8_lossy\<close>: every maximal piece that does not begin a well-formed sequence is
  replaced by the replacement character.
\<close>

definition replacement :: string where "replacement = [CHR 0xEF, CHR 0xBF, CHR 0xBD]"

text \<open>The second bytes a lead byte of three or four bytes allows.\<close>

definition second_ok :: "char \<Rightarrow> char \<Rightarrow> bool" where
  "second_ok a b =
     (if code a = 224 then byte_in 160 191 b else if code a = 237 then byte_in 128 159 b
      else if code a = 240 then byte_in 144 191 b else if code a = 244 then byte_in 128 143 b
      else cont b)"

fun utf8_lossy :: "string \<Rightarrow> string" where
  "utf8_lossy [] = []"
| "utf8_lossy (a # s) =
     (if code a < 128 then a # utf8_lossy s
      else if byte_in 194 223 a then
        (case s of b # t \<Rightarrow> if cont b then a # b # utf8_lossy t else replacement @ utf8_lossy s
         | [] \<Rightarrow> replacement)
      else if byte_in 224 239 a then
        (case s of b # t \<Rightarrow>
           if second_ok a b then
             (case t of c # u \<Rightarrow> if cont c then a # b # c # utf8_lossy u else replacement @ utf8_lossy t
              | [] \<Rightarrow> replacement)
           else replacement @ utf8_lossy s
         | [] \<Rightarrow> replacement)
      else if byte_in 240 244 a then
        (case s of b # t \<Rightarrow>
           if second_ok a b then
             (case t of c # u \<Rightarrow>
                if cont c then
                  (case u of d # v \<Rightarrow>
                     if cont d then a # b # c # d # utf8_lossy v else replacement @ utf8_lossy u
                   | [] \<Rightarrow> replacement)
                else replacement @ utf8_lossy t
              | [] \<Rightarrow> replacement)
           else replacement @ utf8_lossy s
         | [] \<Rightarrow> replacement)
      else replacement @ utf8_lossy s)"

lemma utf8_replacement [simp]: "utf8_ok (replacement @ s) = utf8_ok s" "utf8_ok replacement"
  by (simp_all add: replacement_def byte_in_def)

text \<open>Well-formed sequences, one lead byte at a time.\<close>

lemma utf8_ok_lead:
  "code a < 128 \<Longrightarrow> utf8_ok (a # s) = utf8_ok s"
  "byte_in 194 223 a \<Longrightarrow> utf8_ok (a # b # t) \<longleftrightarrow> cont b \<and> utf8_ok t"
  "byte_in 224 239 a \<Longrightarrow> utf8_ok (a # b # c # t) \<longleftrightarrow> second_ok a b \<and> cont c \<and> utf8_ok t"
  "byte_in 240 244 a \<Longrightarrow> utf8_ok (a # b # c # d # t) \<longleftrightarrow> second_ok a b \<and> cont c \<and> cont d \<and> utf8_ok t"
  by (simp_all add: byte_in_def second_ok_def)

lemma utf8_ok_short:
  "utf8_ok (a # s) \<Longrightarrow> code a < 128 \<or> byte_in 194 223 a \<or> byte_in 224 239 a \<or> byte_in 240 244 a"
  "utf8_ok (a # s) \<Longrightarrow> byte_in 194 223 a \<Longrightarrow> \<exists>b t. s = b # t"
  "utf8_ok (a # s) \<Longrightarrow> byte_in 224 239 a \<Longrightarrow> \<exists>b c t. s = b # c # t"
  "utf8_ok (a # s) \<Longrightarrow> byte_in 240 244 a \<Longrightarrow> \<exists>b c d t. s = b # c # d # t"
  by (auto simp: byte_in_def split: list.splits if_splits)

lemma lead_disjoint:
  "byte_in 194 223 a \<Longrightarrow> \<not> code a < 128" "byte_in 224 239 a \<Longrightarrow> \<not> code a < 128"
  "byte_in 240 244 a \<Longrightarrow> \<not> code a < 128" "byte_in 224 239 a \<Longrightarrow> \<not> byte_in 194 223 a"
  "byte_in 240 244 a \<Longrightarrow> \<not> byte_in 194 223 a" "byte_in 240 244 a \<Longrightarrow> \<not> byte_in 224 239 a"
  by (simp_all add: byte_in_def)

text \<open>The result is always well formed, and a well-formed text is kept.\<close>

lemma utf8_lossy_ok: "utf8_ok (utf8_lossy s)"
proof (induction s rule: utf8_lossy.induct)
  case (2 a s)
  note IH = 2
  show ?case
    using IH by (simp del: utf8_ok.simps add: utf8_ok_lead split: list.split)
qed simp

lemma utf8_lossy_id: "utf8_ok s \<Longrightarrow> utf8_lossy s = s"
proof (induction s rule: length_induct)
  case (1 s)
  show ?case
  proof (cases s)
    case (Cons a r)
    consider "code a < 128" | "byte_in 194 223 a" | "byte_in 224 239 a" | "byte_in 240 244 a"
      using utf8_ok_short(1) 1(2) Cons by blast
    then show ?thesis
    proof cases
      case 1
      then show ?thesis using "1.IH" "1.prems" Cons by (simp del: utf8_ok.simps add: utf8_ok_lead)
    next
      case 2
      then obtain b t where r: "r = b # t" using utf8_ok_short(2) "1.prems" Cons by blast
      then show ?thesis
        using "1.IH" "1.prems" Cons 2 lead_disjoint by (simp del: utf8_ok.simps add: utf8_ok_lead)
    next
      case 3
      then obtain b c t where r: "r = b # c # t" using utf8_ok_short(3) "1.prems" Cons by blast
      then show ?thesis
        using "1.IH" "1.prems" Cons 3 lead_disjoint by (simp del: utf8_ok.simps add: utf8_ok_lead)
    next
      case 4
      then obtain b c d t where r: "r = b # c # d # t" using utf8_ok_short(4) "1.prems" Cons by blast
      then show ?thesis
        using "1.IH" "1.prems" Cons 4 lead_disjoint by (simp del: utf8_ok.simps add: utf8_ok_lead)
    qed
  qed simp
qed

text \<open>\<open>chars().take(n)\<close>: a character is a byte with the continuation bytes after it.\<close>

fun take_chars :: "nat \<Rightarrow> string \<Rightarrow> string" where
  "take_chars (Suc n) (c # s) = c # takeWhile cont s @ take_chars n (dropWhile cont s)"
| "take_chars _ _ = []"

definition char_count :: "string \<Rightarrow> nat" where
  "char_count s = length (filter (\<lambda>c. \<not> cont c) s)"

lemma take_chars_count: "char_count (take_chars n s) \<le> n"
proof (induction n s rule: take_chars.induct)
  case (1 n c s)
  have "filter (\<lambda>c. \<not> cont c) (takeWhile cont s) = []" by (auto simp: filter_empty_conv dest: set_takeWhileD)
  with 1 show ?case by (simp add: char_count_def)
qed (simp_all add: char_count_def)

text \<open>\<open>split_whitespace().next()\<close>.\<close>

fun until_space :: "string \<Rightarrow> string" where
  "until_space [] = []"
| "until_space (c # s) = (if first_strip ws_encodings (c # s) \<noteq> None then [] else c # until_space s)"

definition first_word :: "string \<Rightarrow> string option" where
  "first_word s = (let w = until_space (trim_start s) in if w = [] then None else Some w)"

lemma parse_u16_bound: "parse_u16 s = Some n \<Longrightarrow> n \<le> 65535"
  by (auto simp: parse_u16_def Let_def split: if_splits)

section \<open>Printing numbers\<close>

text \<open>\<open>Display\<close> of an unsigned integer.\<close>

fun show_nat :: "nat \<Rightarrow> string" where
  "show_nat n = (if n < 10 then [char_of (48 + n)] else show_nat (n div 10) @ [char_of (48 + n mod 10)])"

declare show_nat.simps [simp del]

lemma digit_value_of: "n < 10 \<Longrightarrow> (of_char (char_of (48 + n) :: char) :: nat) - 48 = n"
  by simp

lemma digits_value_show_nat: "digits_value (show_nat n) = n"
proof (induction n rule: show_nat.induct)
  case (1 n)
  show ?case
  proof (cases "n < 10")
    case False
    with 1 have "digits_value (show_nat (n div 10)) = n div 10" by simp
    with False show ?thesis
      by (subst show_nat.simps) (simp add: digits_value_def)
  qed (simp add: show_nat.simps [of n] digits_value_def)
qed

lemma show_nat_inject [simp]: "show_nat m = show_nat n \<longleftrightarrow> m = n"
  by (metis digits_value_show_nat)

end
