(* ===== verification/Domain.thy ===== *)
theory Domain
  imports Rust_Str
begin

text \<open>
  The domain vocabulary (\<open>src/src/domain\<close>): failure classes, lifecycle states, test
  stages and their database names; the weight and half life of one piece of evidence,
  its decay, the health score, the publication lease and the retry delay.
\<close>

section \<open>Failure classes (domain/failure.rs)\<close>

datatype FailureClass =
  InvalidConfig | XrayStartFailed | DnsFailure | TcpTimeout | ConnectionRefused
| TlsTimeout | RelayTimeout | HttpFailure | DownloadTimeout | DownloadTooSlow
| LocalOverload | EndpointFailure | Success

fun class_str :: "FailureClass \<Rightarrow> string" where
  "class_str InvalidConfig = ''INVALID_CONFIG''"
| "class_str XrayStartFailed = ''XRAY_START_FAILED''"
| "class_str DnsFailure = ''DNS_FAILURE''"
| "class_str TcpTimeout = ''TCP_TIMEOUT''"
| "class_str ConnectionRefused = ''CONNECTION_REFUSED''"
| "class_str TlsTimeout = ''TLS_TIMEOUT''"
| "class_str RelayTimeout = ''RELAY_TIMEOUT''"
| "class_str HttpFailure = ''HTTP_FAILURE''"
| "class_str DownloadTimeout = ''DOWNLOAD_TIMEOUT''"
| "class_str DownloadTooSlow = ''DOWNLOAD_TOO_SLOW''"
| "class_str LocalOverload = ''LOCAL_OVERLOAD''"
| "class_str EndpointFailure = ''ENDPOINT_FAILURE''"
| "class_str Success = ''SUCCESS''"

fun inconclusive :: "FailureClass \<Rightarrow> bool" where
  "inconclusive LocalOverload = True"
| "inconclusive EndpointFailure = True"
| "inconclusive _ = False"

fun hard_failure :: "FailureClass \<Rightarrow> bool" where
  "hard_failure InvalidConfig = True"
| "hard_failure XrayStartFailed = True"
| "hard_failure ConnectionRefused = True"
| "hard_failure DownloadTooSlow = True"
| "hard_failure _ = False"

definition class_of_str :: "string \<Rightarrow> string + FailureClass" where
  "class_of_str v =
     (if v = ''INVALID_CONFIG'' then Inr InvalidConfig
      else if v = ''XRAY_START_FAILED'' then Inr XrayStartFailed
      else if v = ''DNS_FAILURE'' then Inr DnsFailure
      else if v = ''TCP_TIMEOUT'' then Inr TcpTimeout
      else if v = ''CONNECTION_REFUSED'' then Inr ConnectionRefused
      else if v = ''TLS_TIMEOUT'' then Inr TlsTimeout
      else if v = ''RELAY_TIMEOUT'' then Inr RelayTimeout
      else if v = ''HTTP_FAILURE'' then Inr HttpFailure
      else if v = ''DOWNLOAD_TIMEOUT'' then Inr DownloadTimeout
      else if v = ''DOWNLOAD_TOO_SLOW'' then Inr DownloadTooSlow
      else if v = ''LOCAL_OVERLOAD'' then Inr LocalOverload
      else if v = ''ENDPOINT_FAILURE'' then Inr EndpointFailure
      else if v = ''SUCCESS'' then Inr Success
      else Inl ''unknown failure class'')"

lemma class_of_class_str [simp]: "class_of_str (class_str c) = Inr c"
  by (cases c) (simp_all add: class_of_str_def)

lemma class_str_inj [simp]: "class_str c = class_str d \<longleftrightarrow> c = d"
  by (metis class_of_class_str sum.inject(2))

section \<open>Lifecycle states (domain/proxy.rs)\<close>

datatype LifecycleState =
  Candidate | Testing | Active | Probation | Dormant | Invalid | Retired | WaitingForPort

text \<open>The states are finitely many and listed, so that what is to hold of all of them computes.\<close>

instantiation LifecycleState :: enum
begin

definition enum_LifecycleState :: "LifecycleState list" where
  "enum_LifecycleState =
     [Candidate, Testing, Active, Probation, Dormant, Invalid, Retired, WaitingForPort]"

definition enum_all_LifecycleState :: "(LifecycleState \<Rightarrow> bool) \<Rightarrow> bool" where
  "enum_all_LifecycleState P = list_all P enum_class.enum"

definition enum_ex_LifecycleState :: "(LifecycleState \<Rightarrow> bool) \<Rightarrow> bool" where
  "enum_ex_LifecycleState P = list_ex P enum_class.enum"

lemma all_states_listed: "s \<in> set (enum_class.enum :: LifecycleState list)"
  by (cases s) (simp_all add: enum_LifecycleState_def)

instance
proof
  fix P :: "LifecycleState \<Rightarrow> bool"
  show "UNIV = set (enum_class.enum :: LifecycleState list)" using all_states_listed by blast
  show "distinct (enum_class.enum :: LifecycleState list)" by (simp add: enum_LifecycleState_def)
  show "enum_class.enum_all P = Ball UNIV P"
    using all_states_listed by (auto simp: enum_all_LifecycleState_def list_all_iff)
  show "enum_class.enum_ex P = Bex UNIV P"
    using all_states_listed by (auto simp: enum_ex_LifecycleState_def list_ex_iff)
qed

end

fun state_str :: "LifecycleState \<Rightarrow> string" where
  "state_str Candidate = ''CANDIDATE''"
| "state_str Testing = ''TESTING''"
| "state_str Active = ''ACTIVE''"
| "state_str Probation = ''PROBATION''"
| "state_str Dormant = ''DORMANT''"
| "state_str Invalid = ''INVALID''"
| "state_str Retired = ''RETIRED''"
| "state_str WaitingForPort = ''WAITING_FOR_PORT''"

definition publishable_state :: "LifecycleState \<Rightarrow> bool" where
  "publishable_state s \<longleftrightarrow> \<not> (s = Invalid \<or> s = Retired)"

definition state_of_str :: "string \<Rightarrow> string + LifecycleState" where
  "state_of_str v =
     (if v = ''CANDIDATE'' then Inr Candidate
      else if v = ''TESTING'' then Inr Testing
      else if v = ''ACTIVE'' then Inr Active
      else if v = ''PROBATION'' then Inr Probation
      else if v = ''DORMANT'' \<or> v = ''DEAD'' then Inr Dormant
      else if v = ''INVALID'' then Inr Invalid
      else if v = ''RETIRED'' \<or> v = ''REMOVED'' then Inr Retired
      else if v = ''WAITING_FOR_PORT'' then Inr WaitingForPort
      else Inl ''unknown lifecycle state'')"

lemma state_of_state_str [simp]: "state_of_str (state_str s) = Inr s"
  by (cases s) (simp_all add: state_of_str_def)

lemma state_str_inj [simp]: "state_str s = state_str t \<longleftrightarrow> s = t"
  by (metis state_of_state_str sum.inject(2))

text \<open>
  What a database name stands for: the names \<open>as_str\<close> writes, and two names of the
  previous program (\<open>DEAD\<close>, \<open>REMOVED\<close>) that are read but never written.
\<close>

lemma state_of_str_Inr:
  "state_of_str v = Inr s \<longleftrightarrow>
     v = state_str s \<or> v = ''DEAD'' \<and> s = Dormant \<or> v = ''REMOVED'' \<and> s = Retired"
  by (cases s) (auto simp: state_of_str_def)

section \<open>Evidence (domain/evidence.rs)\<close>

datatype TestStage = Static | DnsTcp | Relay | Http | Download

fun stage_str :: "TestStage \<Rightarrow> string" where
  "stage_str Static = ''STATIC''"
| "stage_str DnsTcp = ''DNS_TCP''"
| "stage_str Relay = ''RELAY''"
| "stage_str Http = ''HTTP''"
| "stage_str Download = ''DOWNLOAD''"

lemma stage_str_inj [simp]: "stage_str a = stage_str b \<longleftrightarrow> a = b"
  by (cases a; cases b) simp_all

record EvidenceDelta =
  ed_alpha :: real
  ed_beta :: real
  ed_half_life :: duration

definition mk_delta :: "real \<Rightarrow> real \<Rightarrow> int \<Rightarrow> EvidenceDelta" where
  "mk_delta a b h = \<lparr>ed_alpha = a, ed_beta = b, ed_half_life = hours h\<rparr>"

text \<open>The match arms in their order.\<close>

definition delta :: "TestStage \<Rightarrow> FailureClass \<Rightarrow> bool \<Rightarrow> EvidenceDelta" where
  "delta stage class fast =
     (if class = LocalOverload \<or> class = EndpointFailure then mk_delta 0 0 2
      else if class = InvalidConfig then mk_delta 0 8 12
      else if stage = Download \<and> class = Success \<and> fast then mk_delta 8 0 24
      else if stage = Download \<and> class = Success \<and> \<not> fast then mk_delta 5 0 24
      else if stage = Http \<and> class = Success then mk_delta 3 0 6
      else if stage = Relay \<and> class = Success then mk_delta 1 0 6
      else if class = TlsTimeout then mk_delta 0 (1 / 2) 2
      else if class \<in> {TcpTimeout, DnsFailure, RelayTimeout, DownloadTimeout} then mk_delta 0 1 2
      else if class = ConnectionRefused then mk_delta 0 2 12
      else if stage = Download \<and> class = DownloadTooSlow then mk_delta 0 3 12
      else if class = XrayStartFailed \<or> class = HttpFailure then mk_delta 0 1 12
      else mk_delta 0 0 2)"

definition decay :: "real \<Rightarrow> duration \<Rightarrow> duration \<Rightarrow> real" where
  "decay v elapsed half_life =
     (if v \<le> 0 \<or> elapsed \<le> 0 then max v 0
      else v * (1 / 2) powr
        (real_of_int (num_milliseconds elapsed) / real_of_int (max (num_milliseconds half_life) 1)))"

definition health :: "real \<Rightarrow> real \<Rightarrow> real" where
  "health alpha beta =
     (let total = alpha + beta
      in if total \<le> 0 then 1 / 2 else clamp 0 1 (alpha / total))"

definition lease_until :: "TestStage \<Rightarrow> bool \<Rightarrow> instant \<Rightarrow> instant" where
  "lease_until stage fast now =
     now + (case stage of
              Download \<Rightarrow> if fast then hours 12 else hours 6
            | Http \<Rightarrow> hours 2
            | Relay \<Rightarrow> minutes 30
            | _ \<Rightarrow> 0)"

text \<open>
  The retry delay is drawn uniformly from \<open>0..=ceiling\<close> seconds. The ceiling is a
  function of the inputs; the draw is the argument \<open>draw\<close>, the random number
  generator's choice for a given ceiling.
\<close>

definition jitter_base_cap :: "nat \<Rightarrow> bool \<Rightarrow> bool \<Rightarrow> nat \<times> nat" where
  "jitter_base_cap failure_streak had_real_success dormant =
     (if dormant then
        (let c = (if failure_streak = 0 then 6 * 60 * 60
                  else if failure_streak = 1 then 12 * 60 * 60 else 24 * 60 * 60)
         in (c, c))
      else if had_real_success then (5 * 60, 6 * 60 * 60)
      else (30 * 60, 24 * 60 * 60))"

definition jitter_ceiling :: "nat \<Rightarrow> bool \<Rightarrow> bool \<Rightarrow> FailureClass \<Rightarrow> nat" where
  "jitter_ceiling failure_streak had_real_success dormant class =
     (case jitter_base_cap failure_streak had_real_success dormant of
        (base, cap) \<Rightarrow>
          let shift = min (sat_add32 failure_streak (if class = ConnectionRefused then 1 else 0)) 20
          in min (sat_mul64 base (2 ^ shift)) cap)"

definition full_jitter_delay ::
  "(nat \<Rightarrow> nat) \<Rightarrow> nat \<Rightarrow> bool \<Rightarrow> bool \<Rightarrow> FailureClass \<Rightarrow> duration" where
  "full_jitter_delay draw failure_streak had_real_success dormant class =
     seconds (int (draw (jitter_ceiling failure_streak had_real_success dormant class)))"

text \<open>What the generator promises: a number in the inclusive range.\<close>

definition draw_ok :: "(nat \<Rightarrow> nat) \<Rightarrow> bool" where
  "draw_ok draw \<longleftrightarrow> (\<forall>c. draw c \<le> c)"

subsection \<open>Facts about evidence\<close>

lemma delta_nonneg: "0 \<le> ed_alpha (delta st c f)" "0 \<le> ed_beta (delta st c f)"
  by (auto simp: delta_def mk_delta_def)

lemma delta_bounds: "ed_alpha (delta st c f) \<le> 8" "ed_beta (delta st c f) \<le> 8"
  by (auto simp: delta_def mk_delta_def)

lemma delta_half_life: "hours 2 \<le> ed_half_life (delta st c f)"
  by (auto simp: delta_def mk_delta_def time_defs)

lemma delta_inconclusive:
  "inconclusive c \<Longrightarrow> ed_alpha (delta st c f) = 0 \<and> ed_beta (delta st c f) = 0"
  by (cases c) (auto simp: delta_def mk_delta_def)

text \<open>No observation is evidence for both sides.\<close>

lemma delta_one_sided: "ed_alpha (delta st c f) = 0 \<or> ed_beta (delta st c f) = 0"
  by (auto simp: delta_def mk_delta_def)

lemma decay_nonneg: "0 \<le> decay v e h"
  by (auto simp: decay_def)

lemma decay_le: "0 \<le> v \<Longrightarrow> decay v e h \<le> v"
proof -
  assume v: "0 \<le> v"
  have "(1 / 2 :: real) powr r \<le> 1" if "0 \<le> r" for r
    using powr_mono' [of 0 r "1 / 2"] that by simp
  moreover have "0 < e \<Longrightarrow>
      0 \<le> real_of_int (num_milliseconds e) / real_of_int (max (num_milliseconds h) 1)"
    by (simp add: num_milliseconds_nonneg)
  ultimately show ?thesis
    using v by (auto simp: decay_def mult_left_le)
qed

lemma num_milliseconds_mono: "0 \<le> a \<Longrightarrow> a \<le> b \<Longrightarrow> num_milliseconds a \<le> num_milliseconds b"
  by (simp add: num_milliseconds_nonneg zdiv_mono1)

lemma decay_antimono:
  assumes "e \<le> e'" and "0 \<le> v"
  shows "decay v e' h \<le> decay v e h"
proof (cases "v \<le> 0 \<or> e \<le> 0")
  case True
  with assms show ?thesis using decay_le [of v e' h] by (auto simp: decay_def [of v e h])
next
  case False
  let ?r = "\<lambda>e. real_of_int (num_milliseconds e) / real_of_int (max (num_milliseconds h) 1)"
  have "?r e \<le> ?r e'"
    using False assms num_milliseconds_mono [of e e'] by (auto intro!: divide_right_mono)
  then have "(1 / 2 :: real) powr ?r e' \<le> (1 / 2) powr ?r e"
    using powr_mono' [of "?r e" "?r e'" "1 / 2"] by simp
  with False assms show ?thesis by (auto simp: decay_def intro!: mult_left_mono)
qed

lemma health_bounds: "0 \<le> health a b \<and> health a b \<le> 1"
  using clamp_bounds [of 0 1 "a / (a + b)"] by (auto simp: health_def Let_def)

lemma health_pos: "0 \<le> a \<Longrightarrow> 0 \<le> b \<Longrightarrow> 0 < a + b \<Longrightarrow> health a b = a / (a + b)"
  by (auto simp: health_def Let_def intro!: clamp_id)

lemma jitter_ceiling_le_cap: "jitter_ceiling s r d c \<le> snd (jitter_base_cap s r d)"
  by (auto simp: jitter_ceiling_def Let_def split: prod.splits)

lemma jitter_cap: "snd (jitter_base_cap s r d) \<le> 86400"
  by (auto simp: jitter_base_cap_def Let_def)

end
