(* ===== verification/Health.thy ===== *)
theory Health
  imports Domain
begin

text \<open>
  The health manager (\<open>src/src/health/mod.rs\<close>): one observation, with the evidence
  already summed, decides the next lifecycle state, the counters, the publication
  lease and the time of the next test.
\<close>

record HealthDecision =
  hd_lifecycle :: LifecycleState
  hd_score :: real
  hd_failure_streak :: nat
  hd_independent_failures :: nat
  hd_lease_until :: "instant option"
  hd_next_test_at :: instant

record HealthInput =
  hi_prior_lifecycle :: LifecycleState
  hi_prior_lease_until :: "instant option"
  hi_activated_at :: "instant option"
  hi_alpha :: real
  hi_beta :: real
  hi_failure_streak :: nat
  hi_independent_failures :: nat
  hi_new_independent_failure :: bool
  hi_had_real_download :: bool
  hi_stage :: TestStage
  hi_class :: FailureClass
  hi_fast_download :: bool
  hi_now :: instant
  hi_active_relay_interval :: duration
  hi_active_download_interval :: duration
  hi_active_min_residence :: duration

text \<open>The intermediate values of \<open>decide\<close>, one definition for each \<open>let\<close>.\<close>

definition next_failure_streak :: "HealthInput \<Rightarrow> nat" where
  "next_failure_streak i =
     (if hi_class i = Success then 0
      else if inconclusive (hi_class i) then hi_failure_streak i
      else sat_add32 (hi_failure_streak i) 1)"

definition next_independent_failures :: "HealthInput \<Rightarrow> nat" where
  "next_independent_failures i =
     (if hi_class i = Success then 0
      else if inconclusive (hi_class i) then hi_independent_failures i
      else if hi_new_independent_failure i then sat_add32 (hi_independent_failures i) 1
      else hi_independent_failures i)"

definition active_resident :: "HealthInput \<Rightarrow> bool" where
  "active_resident i =
     (case hi_activated_at i of None \<Rightarrow> False | Some t \<Rightarrow> hi_active_min_residence i \<le> hi_now i - t)"

definition decide_lifecycle :: "HealthInput \<Rightarrow> LifecycleState" where
  "decide_lifecycle i =
     (let succeeded = (hi_class i = Success);
          score = health (hi_alpha i) (hi_beta i);
          real_download = (succeeded \<and> hi_stage i = Download)
      in if hi_class i = InvalidConfig \<or> hi_prior_lifecycle i = Invalid then Invalid
         else if hi_prior_lifecycle i = Retired then Retired
         else if real_download then Active
         else (case hi_prior_lifecycle i of
                 Active \<Rightarrow>
                   if \<not> active_resident i then Active
                   else if score < 35 / 100 \<and> 2 \<le> next_independent_failures i then Probation
                   else Active
               | Probation \<Rightarrow>
                   if 70 / 100 \<le> score then Active
                   else if score < 15 / 100 \<and> 3 \<le> next_failure_streak i then Dormant
                   else Probation
               | Dormant \<Rightarrow> if 70 / 100 \<le> score \<and> succeeded then Probation else Dormant
               | Retired \<Rightarrow> Retired
               | Invalid \<Rightarrow> Invalid
               | WaitingForPort \<Rightarrow> WaitingForPort
               | Testing \<Rightarrow> Testing
               | Candidate \<Rightarrow> Candidate))"

definition decide_lease :: "HealthInput \<Rightarrow> instant option" where
  "decide_lease i =
     (let candidate_lease =
            (if hi_class i = Success then Some (lease_until (hi_stage i) (hi_fast_download i) (hi_now i))
             else None)
      in case (hi_prior_lease_until i, candidate_lease) of
           (Some current, Some candidate) \<Rightarrow> Some (max current candidate)
         | (current, candidate) \<Rightarrow> coalesce2 current candidate)"

definition decide_next_test :: "(nat \<Rightarrow> nat) \<Rightarrow> HealthInput \<Rightarrow> instant" where
  "decide_next_test draw i =
     (let lifecycle = decide_lifecycle i
      in if hi_class i = Success then
           (case lifecycle of
              Active \<Rightarrow> if hi_stage i = Download then hi_now i + hi_active_download_interval i
                        else hi_now i + hi_active_relay_interval i
            | Probation \<Rightarrow> hi_now i + minutes 15
            | Dormant \<Rightarrow> hi_now i + hours 6
            | _ \<Rightarrow> hi_now i + minutes 5)
         else if inconclusive (hi_class i) then hi_now i + minutes 2
         else hi_now i + full_jitter_delay draw (next_failure_streak i) (hi_had_real_download i)
                        (lifecycle = Dormant) (hi_class i))"

definition decide :: "(nat \<Rightarrow> nat) \<Rightarrow> HealthInput \<Rightarrow> HealthDecision" where
  "decide draw i =
     \<lparr>hd_lifecycle = decide_lifecycle i,
      hd_score = health (hi_alpha i) (hi_beta i),
      hd_failure_streak = next_failure_streak i,
      hd_independent_failures = next_independent_failures i,
      hd_lease_until = decide_lease i,
      hd_next_test_at = decide_next_test draw i\<rparr>"

definition event_contribution :: "TestStage \<Rightarrow> FailureClass \<Rightarrow> bool \<Rightarrow> EvidenceDelta" where
  "event_contribution st c f = delta st c f"

lemmas decide_parts = decide_def decide_lifecycle_def Let_def

section \<open>Lemmas\<close>

lemma decide_fields [simp]:
  "hd_lifecycle (decide d i) = decide_lifecycle i"
  "hd_score (decide d i) = health (hi_alpha i) (hi_beta i)"
  "hd_failure_streak (decide d i) = next_failure_streak i"
  "hd_independent_failures (decide d i) = next_independent_failures i"
  "hd_lease_until (decide d i) = decide_lease i"
  "hd_next_test_at (decide d i) = decide_next_test d i"
  by (simp_all add: decide_def)

lemma decide_lifecycle_Invalid:
  "decide_lifecycle i = Invalid \<longleftrightarrow> hi_class i = InvalidConfig \<or> hi_prior_lifecycle i = Invalid"
  by (auto simp: decide_lifecycle_def Let_def split: LifecycleState.splits)

lemma decide_lifecycle_Retired:
  "decide_lifecycle i = Retired \<longleftrightarrow> hi_class i \<noteq> InvalidConfig \<and> hi_prior_lifecycle i = Retired"
  by (auto simp: decide_lifecycle_def Let_def split: LifecycleState.splits)

lemma decide_lease_prior: "hi_prior_lease_until i = Some t \<Longrightarrow> \<exists>u. decide_lease i = Some u \<and> t \<le> u"
  by (auto simp: decide_lease_def Let_def)

lemma decide_lease_not_success: "hi_class i \<noteq> Success \<Longrightarrow> decide_lease i = hi_prior_lease_until i"
  by (cases "hi_prior_lease_until i") (auto simp: decide_lease_def Let_def)

lemma next_failure_streak_le: "hi_failure_streak i \<le> u32_max \<Longrightarrow> next_failure_streak i \<le> u32_max"
  by (auto simp: next_failure_streak_def sat_add32_def)

section \<open>The lifecycle as a transition relation\<close>

text \<open>
  The transitions the policy allows (the hysteresis section of \<open>docs/ALGORITHM.md\<close>),
  stated without scores or counters. \<open>lifecycle_step b s t\<close>: a test result may move a
  proxy from \<open>s\<close> to \<open>t\<close>, where \<open>b\<close> says that it was a successful real download.
\<close>

inductive lifecycle_step :: "bool \<Rightarrow> LifecycleState \<Rightarrow> LifecycleState \<Rightarrow> bool" where
  stay: "b \<longrightarrow> s \<in> {Active, Invalid, Retired} \<Longrightarrow> lifecycle_step b s s"
| invalidate: "lifecycle_step False s Invalid"
| activate: "s \<notin> {Invalid, Retired} \<Longrightarrow> lifecycle_step True s Active"
| recover: "lifecycle_step False Probation Active"
| demote: "lifecycle_step False Active Probation"
| sleep: "lifecycle_step False Probation Dormant"
| wake: "lifecycle_step False Dormant Probation"

inductive_cases step_from_Active: "lifecycle_step b Active t"
inductive_cases step_from_Invalid: "lifecycle_step b Invalid t"
inductive_simps step_to_Active: "lifecycle_step b s Active"
inductive_simps step_to_Dormant: "lifecycle_step b s Dormant"

definition real_download_success :: "HealthInput \<Rightarrow> bool" where
  "real_download_success i \<longleftrightarrow> hi_class i = Success \<and> hi_stage i = Download"

lemma decide_lifecycle_step:
  "lifecycle_step (real_download_success i) (hi_prior_lifecycle i) (decide_lifecycle i)"
  by (cases "hi_prior_lifecycle i")
     (auto simp: decide_lifecycle_def Let_def real_download_success_def
           intro: lifecycle_step.intros)

text \<open>
  A proxy's history: each observation is decided from the state the last one left, with
  whatever evidence, counters and clock the store supplies.
\<close>

fun run_lifecycle :: "LifecycleState \<Rightarrow> HealthInput list \<Rightarrow> LifecycleState" where
  "run_lifecycle s [] = s"
| "run_lifecycle s (i # is) =
     run_lifecycle (decide_lifecycle (i\<lparr>hi_prior_lifecycle := s\<rparr>)) is"

lemma run_step:
  "lifecycle_step (real_download_success i) s (decide_lifecycle (i\<lparr>hi_prior_lifecycle := s\<rparr>))"
  using decide_lifecycle_step [of "i\<lparr>hi_prior_lifecycle := s\<rparr>"] by (simp add: real_download_success_def)

lemma run_Invalid: "run_lifecycle Invalid is = Invalid"
  by (induction "is") (auto simp: decide_lifecycle_def Let_def)

lemma run_Retired:
  "run_lifecycle Retired is \<in> {Retired, Invalid}"
proof (induction "is")
  case (Cons i "is")
  then show ?case
    using run_Invalid by (auto simp: decide_lifecycle_def Let_def)
qed simp

section \<open>Properties\<close>


text \<open>C18. Hysteresis: a decision takes a proxy out of ACTIVE only when its configuration is
  invalid, or when it has been ACTIVE for the minimum residence time, its score is below
  0.35 and at least two independent failures are counted. In particular one failure after
  a success never does.\<close>

theorem active_demotion_needs_evidence:
  assumes "hi_prior_lifecycle i = Active" and "hd_lifecycle (decide draw i) \<noteq> Active"
  shows "hd_lifecycle (decide draw i) = Invalid \<and> hi_class i = InvalidConfig \<or>
    hd_lifecycle (decide draw i) = Probation \<and>
    (\<exists>t. hi_activated_at i = Some t \<and> hi_active_min_residence i \<le> hi_now i - t) \<and>
    hd_score (decide draw i) < 35 / 100 \<and>
    (2 \<le> hi_independent_failures i \<or>
     hi_independent_failures i = 1 \<and> hi_new_independent_failure i)"
  using assms
  by (auto simp: decide_lifecycle_def Let_def active_resident_def next_independent_failures_def
        sat_add32_def split: if_splits option.splits)

definition sample_input :: "LifecycleState \<Rightarrow> TestStage \<Rightarrow> FailureClass \<Rightarrow> HealthInput" where
  "sample_input s st c =
     \<lparr>hi_prior_lifecycle = s, hi_prior_lease_until = Some (hours 4), hi_activated_at = Some 0,
      hi_alpha = 1, hi_beta = 9, hi_failure_streak = 1, hi_independent_failures = 1,
      hi_new_independent_failure = True, hi_had_real_download = True, hi_stage = st,
      hi_class = c, hi_fast_download = True, hi_now = hours 1,
      hi_active_relay_interval = seconds 10, hi_active_download_interval = minutes 5,
      hi_active_min_residence = minutes 30\<rparr>"

theorem active_demotion_needs_evidence_witness:
  "hd_lifecycle (decide (\<lambda>c. c) (sample_input Active Relay TcpTimeout)) = Probation \<and>
   hd_score (decide (\<lambda>c. c) (sample_input Active Relay TcpTimeout)) < 35 / 100"
proof -
  let ?i = "sample_input Active Relay TcpTimeout"
  have "hi_prior_lifecycle ?i = Active" by (simp add: sample_input_def)
  moreover have p: "hd_lifecycle (decide (\<lambda>c. c) ?i) = Probation"
    by (simp add: sample_input_def decide_lifecycle_def Let_def active_resident_def time_defs
        health_def clamp_def next_independent_failures_def sat_add32_def)
  ultimately show ?thesis
    using active_demotion_needs_evidence [of ?i "\<lambda>c. c"] by simp
qed

text \<open>Terminal states: once a proxy is INVALID no sequence of test results changes it, and
  once it is RETIRED no sequence of test results does anything but find it INVALID; a late
  result of a test in flight cannot bring a retired identity back.\<close>

theorem terminal_states_absorb:
  "run_lifecycle Invalid is = Invalid \<and> run_lifecycle Retired is \<in> {Retired, Invalid}"
  using run_Invalid run_Retired by blast

text \<open>Publication lease: a decision never shortens or revokes the lease a proxy has; it
  extends it only for a success, to at most twelve hours from now, and a success always
  leaves one that reaches at least the stage's term.\<close>

theorem lease_never_shortened:
  "(\<forall>t. hi_prior_lease_until i = Some t \<longrightarrow>
      (\<exists>u. hd_lease_until (decide draw i) = Some u \<and> t \<le> u \<and> (u = t \<or> u \<le> hi_now i + hours 12))) \<and>
   (hi_class i \<noteq> Success \<longrightarrow> hd_lease_until (decide draw i) = hi_prior_lease_until i) \<and>
   (hi_class i = Success \<longrightarrow> (\<exists>u. hd_lease_until (decide draw i) = Some u \<and>
      lease_until (hi_stage i) (hi_fast_download i) (hi_now i) \<le> u))"
  by (cases "hi_prior_lease_until i"; cases "hi_stage i")
     (auto simp: decide_lease_def Let_def lease_until_def time_defs max_def)

theorem lease_never_shortened_witness:
  "\<exists>u. hd_lease_until (decide (\<lambda>c. c) (sample_input Active Relay TcpTimeout)) = Some u \<and> hours 4 \<le> u"
  using lease_never_shortened [of "sample_input Active Relay TcpTimeout" "\<lambda>c. c"]
  by (auto simp: sample_input_def)

text \<open>Inconclusive observations (local overload, endpoint failure) leave the failure
  counters and the lease as they are and retry in two minutes, but they do not leave the
  lifecycle alone: an ACTIVE proxy is demoted by one exactly when it is resident, scores
  below 0.35 and already has two independent failures counted.\<close>

theorem inconclusive_decision:
  assumes "inconclusive (hi_class i)" and "hi_prior_lifecycle i = Active"
  shows "hd_failure_streak (decide draw i) = hi_failure_streak i \<and>
    hd_independent_failures (decide draw i) = hi_independent_failures i \<and>
    hd_lease_until (decide draw i) = hi_prior_lease_until i \<and>
    hd_next_test_at (decide draw i) = hi_now i + minutes 2 \<and>
    (hd_lifecycle (decide draw i) = Probation \<longleftrightarrow>
       active_resident i \<and> health (hi_alpha i) (hi_beta i) < 35 / 100 \<and>
       2 \<le> hi_independent_failures i)"
proof -
  have c: "hi_class i \<noteq> Success" "hi_class i \<noteq> InvalidConfig" using assms by auto
  with assms show ?thesis
    by (auto simp: next_failure_streak_def next_independent_failures_def decide_lease_not_success
        decide_next_test_def decide_lifecycle_def Let_def)
qed

theorem inconclusive_decision_witness:
  "hd_lifecycle (decide (\<lambda>c. c)
     ((sample_input Active Http EndpointFailure)\<lparr>hi_independent_failures := 2\<rparr>)) = Probation"
  using inconclusive_decision
    [of "(sample_input Active Http EndpointFailure)\<lparr>hi_independent_failures := 2\<rparr>" "\<lambda>c. c"]
  by (simp add: sample_input_def active_resident_def time_defs health_def clamp_def)

text \<open>Retry delay: after a failure the next test is drawn between now and at most a day
  later, and at most six hours later for a proxy that is not DORMANT and has had a real
  download.\<close>

theorem retry_delay_bounds:
  assumes "draw_ok draw" and "hi_class i \<noteq> Success" and "\<not> inconclusive (hi_class i)"
  shows "hi_now i \<le> hd_next_test_at (decide draw i) \<and>
    hd_next_test_at (decide draw i) \<le> hi_now i + hours 24 \<and>
    (hi_had_real_download i \<and> hd_lifecycle (decide draw i) \<noteq> Dormant \<longrightarrow>
       hd_next_test_at (decide draw i) \<le> hi_now i + hours 6)"
proof -
  let ?c = "jitter_ceiling (next_failure_streak i) (hi_had_real_download i)
              (decide_lifecycle i = Dormant) (hi_class i)"
  have d: "draw ?c \<le> ?c" using assms by (simp add: draw_ok_def)
  have le: "?c \<le> snd (jitter_base_cap (next_failure_streak i) (hi_had_real_download i)
      (decide_lifecycle i = Dormant))"
    by (rule jitter_ceiling_le_cap)
  then have day: "draw ?c \<le> 86400"
    using d jitter_cap [of "next_failure_streak i" "hi_had_real_download i"
      "decide_lifecycle i = Dormant"] by linarith
  have six: "hi_had_real_download i \<and> decide_lifecycle i \<noteq> Dormant \<Longrightarrow> draw ?c \<le> 21600"
    using d le by (simp add: jitter_base_cap_def)
  have eq: "decide_next_test draw i = hi_now i + int (draw ?c) * 1000000000"
    using assms by (simp add: decide_next_test_def full_jitter_delay_def seconds_def)
  show ?thesis
    using day six by (auto simp: eq hours_def seconds_def)
qed

theorem retry_delay_bounds_witness:
  "hd_next_test_at (decide (\<lambda>c. c) (sample_input Active Relay TcpTimeout)) \<le> hours 25"
  using retry_delay_bounds [of "\<lambda>c. c" "sample_input Active Relay TcpTimeout"]
  by (auto simp: draw_ok_def sample_input_def time_defs)

text \<open>Dormant recovery: a failure that puts or keeps a proxy in DORMANT always draws its
  retry from twelve or twenty-four hours, twenty-four when the failure is what made it
  dormant. The six hour tier of the retry delay is never used, since the streak it is
  given already counts the failure.\<close>

theorem dormant_retry_tiers:
  assumes "hi_class i \<noteq> Success" and "\<not> inconclusive (hi_class i)"
    and "hd_lifecycle (decide draw i) = Dormant"
  shows "hd_next_test_at (decide draw i) =
    hi_now i + seconds (int (draw
      (if hi_prior_lifecycle i = Dormant \<and> hi_failure_streak i = 0 then 12 * 3600 else 24 * 3600)))"
proof -
  let ?t = "if hi_prior_lifecycle i = Dormant \<and> hi_failure_streak i = 0 then 43200 else 86400 :: nat"
  have s: "next_failure_streak i = sat_add32 (hi_failure_streak i) 1"
    using assms by (simp add: next_failure_streak_def)
  have "2 \<le> hi_failure_streak i" if "hi_prior_lifecycle i \<noteq> Dormant"
    using assms that s
    by (cases "hi_prior_lifecycle i") (auto simp: decide_lifecycle_def Let_def sat_add32_def split: if_splits)
  then have tier: "jitter_base_cap (next_failure_streak i) r True = (?t, ?t)" for r
    by (cases "hi_prior_lifecycle i = Dormant")
       (auto simp: s jitter_base_cap_def Let_def sat_add32_def min_def)
  have "min (sat_mul64 b (2 ^ k)) b = b" if "b \<le> 86400" for b k :: nat
  proof -
    have "b \<le> b * 2 ^ k" by simp
    with that show ?thesis by (auto simp: sat_mul64_def)
  qed
  then have "jitter_ceiling (next_failure_streak i) r True c = ?t" for r c
    unfolding jitter_ceiling_def tier by (simp add: Let_def)
  then show ?thesis
    using assms by (simp add: decide_next_test_def full_jitter_delay_def)
qed

theorem dormant_retry_tiers_witness:
  "hd_next_test_at (decide (\<lambda>c. c)
     ((sample_input Probation Relay TcpTimeout)\<lparr>hi_failure_streak := 2\<rparr>)) = hours 1 + seconds 86400"
proof -
  let ?i = "(sample_input Probation Relay TcpTimeout)\<lparr>hi_failure_streak := 2\<rparr>"
  have "hd_lifecycle (decide (\<lambda>c. c) ?i) = Dormant"
    by (simp add: sample_input_def decide_lifecycle_def Let_def health_def clamp_def
        next_failure_streak_def sat_add32_def)
  then show ?thesis
    using dormant_retry_tiers [of ?i "\<lambda>c. c"] by (simp add: sample_input_def)
qed

text \<open>Evidence: the score is a probability, evidence of weight \<open>v\<close> is worth exactly half
  after its half life, never more than it was and never less than nothing, and no later
  look at it finds it heavier.\<close>

theorem evidence_decays:
  assumes "0 \<le> v" and "1 \<le> num_milliseconds h"
  shows "decay v h h = v / 2 \<and> (\<forall>e. 0 \<le> decay v e h \<and> decay v e h \<le> v) \<and>
    (\<forall>e e'. e \<le> e' \<longrightarrow> decay v e' h \<le> decay v e h) \<and>
    0 \<le> health a b \<and> health a b \<le> 1"
proof -
  have "0 < h"
  proof (rule ccontr)
    assume "\<not> 0 < h"
    then have "num_milliseconds h \<le> 0"
      by (auto simp: num_milliseconds_def trunc_div_def mult_le_0_iff sgn_if)
    with assms show False by simp
  qed
  then have "decay v h h = v / 2"
    using assms by (auto simp: decay_def max_def)
  then show ?thesis
    using assms decay_nonneg decay_le decay_antimono health_bounds by blast
qed

theorem evidence_decays_witness: "decay 8 (hours 24) (hours 24) = 4"
  using evidence_decays [of 8 "hours 24" 1 1]
  by (simp add: hours_def num_milliseconds_def seconds_def trunc_div_def)

end
