(* ===== verification/Json.thy ===== *)
theory Json
  imports Rust_Str
begin

text \<open>
  JSON values as the program handles them (\<open>serde_json::Value\<close>): objects are ordered
  maps. Reading and printing JSON text is library code; a database column that holds
  JSON text is modelled by the value the text stands for, or by the text itself when it
  does not parse.
\<close>

datatype json =
  JNull
| JBool bool
| JInt int
| JReal real
| JStr string
| JArr "json list"
| JObj "(string \<times> json) list"

text \<open>\<open>json!({..})\<close>: the keys are inserted one after the other.\<close>

definition json_obj :: "(string \<times> json) list \<Rightarrow> json" where
  "json_obj kvs = JObj (bt_collect kvs)"

fun json_insert :: "string \<Rightarrow> json \<Rightarrow> json \<Rightarrow> json" where
  "json_insert k v (JObj m) = JObj (bt_insert k v m)"
| "json_insert k v j = j"

fun json_get :: "string \<Rightarrow> json \<Rightarrow> json option" where
  "json_get k (JObj m) = map_of m k"
| "json_get k _ = None"

fun json_str :: "json \<Rightarrow> string option" where
  "json_str (JStr s) = Some s"
| "json_str _ = None"

fun json_int :: "json \<Rightarrow> int option" where
  "json_int (JInt n) = Some n"
| "json_int _ = None"

definition json_opt :: "('a \<Rightarrow> json) \<Rightarrow> 'a option \<Rightarrow> json" where
  "json_opt f x = (case x of None \<Rightarrow> JNull | Some a \<Rightarrow> f a)"

datatype json_text = Json json | Garbled string

fun json_or :: "json \<Rightarrow> json_text \<Rightarrow> json" where
  "json_or d (Json j) = j"
| "json_or d (Garbled s) = d"

text \<open>\<open>from_str(..).unwrap_or(json!({"raw": value}))\<close>\<close>

fun json_or_raw :: "json_text \<Rightarrow> json" where
  "json_or_raw (Json j) = j"
| "json_or_raw (Garbled s) = json_obj [(''raw'', JStr s)]"

lemma json_get_obj: "json_get k (json_obj kvs) = map_of (rev kvs) k"
  by (simp add: json_obj_def map_of_bt_collect)

lemma json_get_insert:
  "bt_ok m \<Longrightarrow> json_get k (json_insert k' v (JObj m)) = (if k = k' then Some v else json_get k (JObj m))"
  by (simp add: map_of_bt_insert)

end
