(* ===== verification/Parser.thy ===== *)
theory Parser
  imports Json
begin

text \<open>
  Subscription parsing (\<open>src/src/parser/mod.rs\<close>): lines of a subscription, share links of
  the supported protocols, their validation, the canonical form and the identity hash,
  and the Xray outbound a parsed proxy is run with.

  URL parsing, base64, JSON text, SHA-256, form decoding and UUID parsing are library
  code: they are the fields of a record every function takes.
\<close>

section \<open>The library functions used\<close>

record url =
  u_scheme :: string
  u_host :: "string option"
  u_port :: "u16 option"
  u_username :: string
  u_password :: "string option"
  u_path :: string
  u_query_pairs :: "(string \<times> string) list"
  u_fragment :: "string option"

record libs =
  l_url_parse :: "string \<Rightarrow> string + url"
  l_b64_standard :: "string \<Rightarrow> string option"
  l_b64_url_no_pad :: "string \<Rightarrow> string option"
  l_json_members :: "string \<Rightarrow> (string \<times> json) list option"
  l_json_bytes :: "json \<Rightarrow> string"
  l_sha256_hex :: "string \<Rightarrow> string"
  l_form_first_key :: "string \<Rightarrow> string option"
  l_uuid_ok :: "string \<Rightarrow> bool"
  l_utf8_error :: "string \<Rightarrow> string"

section \<open>Data\<close>

record ParsedProxy =
  pp_source :: string
  pp_raw_config :: string
  pp_protocol :: string
  pp_address :: string
  pp_port :: u16
  pp_remark :: string
  pp_normalized_config :: json
  pp_config_hash :: string

record ParseReport =
  rep_accepted :: "ParsedProxy list"
  rep_rejected :: "string list"

type_synonym parts = "string \<times> string \<times> u16 \<times> string \<times> json"

section \<open>Decoding\<close>

fun json_u64 :: "json \<Rightarrow> nat option" where
  "json_u64 (JInt n) = (if 0 \<le> n \<and> n \<le> int u64_max then Some (nat n) else None)"
| "json_u64 _ = None"

definition number_or_string_u16 :: "json \<Rightarrow> u16 option" where
  "number_or_string_u16 v =
     (case (case json_u64 v of Some n \<Rightarrow> if n \<le> 65535 then Some (of_nat n) else None | None \<Rightarrow> None) of
        Some p \<Rightarrow> Some p
      | None \<Rightarrow> Option.bind (json_str v) (\<lambda>s. map_option of_nat (parse_u16 s)))"

definition decode_b64 :: "libs \<Rightarrow> string \<Rightarrow> string option" where
  "decode_b64 L s =
     (case l_b64_standard L s of
        Some b \<Rightarrow> Some b
      | None \<Rightarrow> l_b64_url_no_pad L (trim_end_char (CHR ''='') s))"

definition percent_decode :: "libs \<Rightarrow> string \<Rightarrow> string" where
  "percent_decode L v = coalesce (l_form_first_key L v) v"

definition redact :: "string \<Rightarrow> string" where
  "redact raw =
     (case split_once ''://'' raw of
        Some (scheme, _) \<Rightarrow> scheme @ ''://<redacted>''
      | None \<Rightarrow> ''<invalid-line>'')"

definition utf8_string :: "libs \<Rightarrow> string \<Rightarrow> string + string" where
  "utf8_string L b = ok_or (l_utf8_error L b) (from_utf8 b)"

definition subscription_lines :: "libs \<Rightarrow> string \<Rightarrow> string list" where
  "subscription_lines L payload =
     (let trimmed = trim payload;
          decoded = (if contains trimmed ''://'' then None
                     else Option.bind (decode_b64 L trimmed) from_utf8)
      in filter (\<lambda>l. l \<noteq> [] \<and> \<not> starts_with l ''#'')
           (map trim (str_lines (coalesce decoded trimmed))))"

definition remark_keys :: "string list" where
  "remark_keys = [''remark'', ''remarks'', ''ps'', ''name'']"

definition case_insensitive_keys :: "string list" where
  "case_insensitive_keys =
     [''sni'', ''host'', ''security'', ''type'', ''net'', ''fp'', ''flow'', ''headertype'']"

definition canonical_pair :: "string \<times> string \<Rightarrow> (string \<times> string) option" where
  "canonical_pair kv =
     (let key = to_lower (fst kv)
      in if key \<in> set remark_keys then None
         else Some (key, if key \<in> set case_insensitive_keys then to_lower (snd kv) else snd kv))"

definition canonical_query :: "url \<Rightarrow> (string \<times> string) list" where
  "canonical_query u = bt_collect (List.map_filter canonical_pair (u_query_pairs u))"

definition params_json :: "(string \<times> string) list \<Rightarrow> json" where
  "params_json m = JObj (map (\<lambda>(k, v). (k, JStr v)) m)"

section \<open>Validation\<close>

definition validate_user_id :: "libs \<Rightarrow> string \<Rightarrow> string + unit" where
  "validate_user_id L v =
     bind_e (ensure (trim v \<noteq> []) ''proxy user id is empty'')
       (\<lambda>_. if \<not> l_uuid_ok L v
            then ensure (length v < 30) ''custom proxy user id must be shorter than 30 bytes''
            else Inr ())"

definition host_char :: "char \<Rightarrow> bool" where
  "host_char c = (is_alnum c \<or> c \<in> set ''.-_'')"

definition validate_address :: "string \<Rightarrow> string + unit" where
  "validate_address a =
     (if ip_ok a then Inr ()
      else bind_e (ensure (length a \<le> 253) ''proxy hostname is too long'')
        (\<lambda>_. ensure (list_all host_char a) ''proxy hostname is invalid''))"

fun validate_all :: "string list \<Rightarrow> string + unit" where
  "validate_all [] = Inr ()"
| "validate_all (a # as) = bind_e (validate_address a) (\<lambda>_. validate_all as)"

definition hostnames_ok :: "json option \<Rightarrow> string + unit" where
  "hostnames_ok v =
     (case Option.bind v json_str of
        None \<Rightarrow> Inr ()
      | Some s \<Rightarrow> validate_all (filter (\<lambda>h. h \<noteq> []) (split_char (CHR '','') s)))"

definition alpn_ok :: "string \<Rightarrow> bool" where
  "alpn_ok s =
     list_all (\<lambda>t. t \<noteq> [] \<and> length t \<le> 255 \<and> list_all (\<lambda>b. is_graphic b \<and> b \<noteq> CHR '','') t)
       (split_char (CHR '','') s)"

definition reality_key_ok :: "string \<Rightarrow> bool" where
  "reality_key_ok k = (32 \<le> length k \<and> list_all (\<lambda>b. is_alnum b \<or> b \<in> set ''-_'') k)"

definition short_id_ok :: "string \<Rightarrow> bool" where
  "short_id_ok s = (length s \<le> 16 \<and> even (length s) \<and> list_all is_hexdigit s)"

fun json_object :: "json \<Rightarrow> (string \<times> json) list option" where
  "json_object (JObj m) = Some m"
| "json_object _ = None"

definition validate_transport_parameters :: "json \<Rightarrow> string + unit" where
  "validate_transport_parameters config =
     (case Option.bind (json_get ''params'' config) json_object of
        None \<Rightarrow> Inr ()
      | Some m \<Rightarrow>
          bind_e (hostnames_ok (map_of m ''sni'')) (\<lambda>_.
          bind_e (hostnames_ok (map_of m ''host'')) (\<lambda>_.
          bind_e (case Option.bind (map_of m ''alpn'') json_str of
                    None \<Rightarrow> Inr ()
                  | Some a \<Rightarrow> ensure (alpn_ok a) ''ALPN contains an invalid token'') (\<lambda>_.
          let security = coalesce (Option.bind (map_of m ''security'') json_str) ''none''
          in if eq_ignore_case security ''reality'' then
               (let key = coalesce (Option.bind (coalesce2 (map_of m ''pbk'') (map_of m ''password''))
                                      json_str) []
                in bind_e (ensure (reality_key_ok key) ''REALITY public key is invalid'') (\<lambda>_.
                   case Option.bind (map_of m ''sid'') json_str of
                     None \<Rightarrow> Inr ()
                   | Some sid \<Rightarrow> ensure (short_id_ok sid) ''REALITY short id is invalid''))
             else Inr ()))))"

section \<open>Share links\<close>

definition url_address :: "url \<Rightarrow> string" where
  "url_address u = to_lower (trim_brackets (coalesce (u_host u) []))"

definition parse_url_proxy :: "libs \<Rightarrow> string \<Rightarrow> string + parts" where
  "parse_url_proxy L raw =
     bind_e (l_url_parse L raw) (\<lambda>u.
     let protocol = to_lower (u_scheme u) in
     bind_e (ensure (protocol \<in> set [''vless'', ''trojan'', ''socks'', ''socks5''])
              ''unsupported URL proxy scheme'') (\<lambda>_.
     let address = url_address u in
     bind_e (ok_or ''proxy URL has no port'' (u_port u)) (\<lambda>port.
     let remark = coalesce (u_fragment u) [];
         user = (if u_username u = [] then [] else percent_decode L (u_username u));
         password = percent_decode L (coalesce (u_password u) []) in
     bind_e (if protocol \<in> set [''vless'', ''trojan'']
             then ensure (user \<noteq> []) ''proxy URL has no credential'' else Inr ()) (\<lambda>_.
     bind_e (if protocol = ''vless'' then validate_user_id L user else Inr ()) (\<lambda>_.
     Inr (protocol, address, port, remark,
          json_obj [(''protocol'', JStr protocol), (''address'', JStr address),
                    (''port'', JInt (uint port)), (''user'', JStr user),
                    (''password'', JStr password), (''path'', JStr (u_path u)),
                    (''params'', params_json (canonical_query u))]))))))"

definition parse_vmess :: "libs \<Rightarrow> string \<Rightarrow> string + parts" where
  "parse_vmess L raw =
     bind_e (ok_or ''invalid vmess URL'' (strip_prefix_opt ''vmess://'' raw)) (\<lambda>rest.
     bind_e (ok_or ''vmess payload is not base64'' (decode_b64 L (before_char (CHR ''#'') rest))) (\<lambda>decoded.
     bind_e (ok_or ''vmess payload is not JSON'' (map_option bt_collect (l_json_members L decoded))) (\<lambda>payload.
     let address = to_lower (trim (coalesce (Option.bind (map_of payload ''add'') json_str) [])) in
     bind_e (ok_or ''vmess payload has invalid port''
              (Option.bind (map_of payload ''port'') number_or_string_u16)) (\<lambda>port.
     bind_e (validate_user_id L (coalesce (Option.bind (map_of payload ''id'') json_str) [])) (\<lambda>_.
     let remark = coalesce (Option.bind (map_of payload ''ps'') json_str) [];
         kept = filter (\<lambda>(k, _). k \<notin> set [''ps'', ''remarks'', ''remark'']) payload;
         fixed = bt_insert ''port'' (JInt (uint port)) (bt_insert ''add'' (JStr address) kept)
     in Inr (''vmess'', address, port, remark,
             json_obj [(''protocol'', JStr ''vmess''), (''payload'', JObj fixed)]))))))"

definition ss_ciphers :: "string list" where
  "ss_ciphers =
     [''aes-128-gcm'', ''aes-256-gcm'', ''chacha20-poly1305'', ''chacha20-ietf-poly1305'',
      ''xchacha20-poly1305'', ''xchacha20-ietf-poly1305'', ''2022-blake3-aes-128-gcm'',
      ''2022-blake3-aes-256-gcm'', ''2022-blake3-chacha20-poly1305'']"

definition parse_shadowsocks :: "libs \<Rightarrow> string \<Rightarrow> string + parts" where
  "parse_shadowsocks L raw =
     bind_e (ok_or ''invalid ss URL'' (strip_prefix_opt ''ss://'' raw)) (\<lambda>no_fragment.
     let (body, remark) = (case split_once ''#'' no_fragment of
                             Some (b, r) \<Rightarrow> (b, percent_decode L r)
                           | None \<Rightarrow> (no_fragment, []));
         body_without_query = before_char (CHR ''?'') body in
     bind_e (if contains body_without_query ''@'' then Inr body_without_query
             else bind_e (ok_or ''shadowsocks payload is not base64'' (decode_b64 L body_without_query))
                    (utf8_string L)) (\<lambda>decoded.
     bind_e (ok_or ''shadowsocks URL has no server separator'' (rsplit_once (CHR ''@'') decoded))
       (\<lambda>(credential_raw, server).
     bind_e (if contains credential_raw '':'' then Inr (percent_decode L credential_raw)
             else bind_e (ok_or ''shadowsocks user info is not base64'' (decode_b64 L credential_raw))
                    (utf8_string L)) (\<lambda>credential.
     bind_e (l_url_parse L (''ss://placeholder@'' @ server)) (\<lambda>u.
     let address = url_address u in
     bind_e (ok_or ''shadowsocks URL has no port'' (u_port u)) (\<lambda>port.
     bind_e (ok_or ''shadowsocks URL has invalid credential'' (split_once '':'' credential))
       (\<lambda>(cipher, password).
     bind_e (ensure (to_lower cipher \<in> set ss_ciphers) ''unsupported shadowsocks cipher'') (\<lambda>_.
     bind_e (ensure (password \<noteq> []) ''shadowsocks password is empty'') (\<lambda>_.
     Inr (''ss'', address, port, remark,
          json_obj [(''protocol'', JStr ''ss''), (''address'', JStr address),
                    (''port'', JInt (uint port)), (''method'', JStr (to_lower cipher)),
                    (''password'', JStr password),
                    (''params'', params_json (canonical_query u))]))))))))))"

definition share_parts :: "libs \<Rightarrow> string \<Rightarrow> string + parts" where
  "share_parts L raw =
     (if starts_with raw ''vmess://'' then parse_vmess L raw
      else if starts_with raw ''ss://'' then parse_shadowsocks L raw
      else parse_url_proxy L raw)"

definition supported_protocols :: "string list" where
  "supported_protocols = [''vmess'', ''vless'', ''trojan'', ''ss'', ''socks'', ''socks5'']"

definition parse_share_url :: "libs \<Rightarrow> string \<Rightarrow> string \<Rightarrow> string + ParsedProxy" where
  "parse_share_url L raw0 source =
     (let raw = trim raw0 in
      bind_e (share_parts L raw) (\<lambda>(protocol, address, port, remark, normalized).
      bind_e (ensure (protocol \<in> set supported_protocols) (''unsupported protocol '' @ protocol)) (\<lambda>_.
      bind_e (ensure (address \<noteq> []) ''proxy address is empty'') (\<lambda>_.
      bind_e (validate_address address) (\<lambda>_.
      bind_e (ensure (0 < port) ''proxy port is invalid'') (\<lambda>_.
      bind_e (validate_transport_parameters normalized) (\<lambda>_.
      Inr \<lparr>pp_source = source, pp_raw_config = raw, pp_protocol = protocol,
           pp_address = address, pp_port = port, pp_remark = remark,
           pp_normalized_config = normalized,
           pp_config_hash = l_sha256_hex L (l_json_bytes L normalized)\<rparr>)))))))"

fun parse_lines :: "libs \<Rightarrow> string \<Rightarrow> string list \<Rightarrow> string set \<Rightarrow> ParseReport" where
  "parse_lines L source [] seen = \<lparr>rep_accepted = [], rep_rejected = []\<rparr>"
| "parse_lines L source (l # ls) seen =
     (case parse_share_url L l source of
        Inl e \<Rightarrow>
          (let r = parse_lines L source ls seen
           in r\<lparr>rep_rejected := (e @ '': '' @ redact l) # rep_rejected r\<rparr>)
      | Inr p \<Rightarrow>
          if pp_config_hash p \<in> seen then parse_lines L source ls seen
          else (let r = parse_lines L source ls (insert (pp_config_hash p) seen)
                in r\<lparr>rep_accepted := p # rep_accepted r\<rparr>))"

definition parse_subscription :: "libs \<Rightarrow> string \<Rightarrow> string \<Rightarrow> ParseReport" where
  "parse_subscription L payload source = parse_lines L source (subscription_lines L payload) {}"

section \<open>Xray outbounds\<close>

type_synonym param_map = "(string \<times> string) list"

definition params :: "json \<Rightarrow> param_map" where
  "params v =
     (case Option.bind (json_get ''params'' v) json_object of
        None \<Rightarrow> []
      | Some items \<Rightarrow>
          bt_collect (List.map_filter (\<lambda>(k, j). map_option (\<lambda>s. (to_lower k, s)) (json_str j)) items))"

definition value_string :: "json \<Rightarrow> string \<Rightarrow> string" where
  "value_string v k = coalesce (Option.bind (json_get k v) json_str) []"

definition param :: "param_map \<Rightarrow> string \<Rightarrow> string option" where
  "param m k = map_of m (to_lower k)"

definition nonempty_opt :: "string option \<Rightarrow> string option" where
  "nonempty_opt v = (case v of Some s \<Rightarrow> if s \<noteq> [] then Some s else None | None \<Rightarrow> None)"

definition transport_name :: "string \<Rightarrow> string option" where
  "transport_name n =
     (let v = to_lower n
      in if v = ''ws'' \<or> v = ''websocket'' then Some ''ws''
         else if v = ''tcp'' \<or> v = ''raw'' then Some ''tcp''
         else if v = ''kcp'' \<or> v = ''mkcp'' then Some ''kcp''
         else if v \<in> set [''grpc'', ''httpupgrade'', ''splithttp'', ''xhttp'', ''quic''] then Some v
         else None)"

definition tls_settings :: "param_map \<Rightarrow> string \<Rightarrow> json" where
  "tls_settings m server =
     (let add = (\<lambda>k v j. case v of None \<Rightarrow> j | Some x \<Rightarrow> json_insert k x j)
      in add ''alpn'' (map_option (\<lambda>v. JArr (map JStr (filter (\<lambda>q. q \<noteq> [])
                 (map trim (split_char (CHR '','') v))))) (nonempty_opt (param m ''alpn'')))
         (add ''fingerprint'' (map_option JStr (nonempty_opt (param m ''fp'')))
         (add ''verifyPeerCertByName''
            (map_option JStr (nonempty_opt (coalesce2 (param m ''vcn'') (param m ''verifypeercertbyname''))))
         (add ''pinnedPeerCertSha256''
            (map_option JStr (nonempty_opt (coalesce2 (param m ''pcs'') (param m ''pinnedpeercertsha256''))))
         (json_obj [(''serverName'', JStr (coalesce (param m ''sni'') server))])))))"

definition reality_settings :: "param_map \<Rightarrow> string \<Rightarrow> json" where
  "reality_settings m server =
     json_obj [(''serverName'', JStr (coalesce (param m ''sni'') server)),
       (''fingerprint'', JStr (coalesce (param m ''fp'') ''chrome'')),
       (''publicKey'', JStr (coalesce (coalesce2 (param m ''pbk'') (param m ''password'')) [])),
       (''shortId'', JStr (coalesce (param m ''sid'') [])),
       (''spiderX'', JStr (coalesce (param m ''spx'') []))]"

definition transport_settings :: "string \<Rightarrow> param_map \<Rightarrow> string \<Rightarrow> (string \<times> json) option" where
  "transport_settings network m server =
     (let path = JStr (coalesce (param m ''path'') ''/'');
          host = JStr (coalesce (param m ''host'') server);
          both = json_obj [(''host'', host), (''path'', path)]
      in if network = ''ws'' then Some (''wsSettings'', json_obj [(''path'', path), (''host'', host)])
         else if network = ''grpc'' then
           Some (''grpcSettings'', json_obj [(''serviceName'', JStr (coalesce (param m ''servicename'') []))])
         else if network = ''httpupgrade'' then Some (''httpupgradeSettings'', both)
         else if network = ''splithttp'' then Some (''splithttpSettings'', both)
         else if network = ''xhttp'' then Some (''xhttpSettings'', both)
         else if network = ''kcp'' then
           Some (''kcpSettings'', json_obj [(''header'',
             json_obj [(''type'', JStr (coalesce (param m ''headertype'') ''none''))])])
         else None)"

definition stream_settings :: "string \<Rightarrow> string \<Rightarrow> param_map \<Rightarrow> string \<Rightarrow> string + json" where
  "stream_settings network0 security0 m server =
     bind_e (ok_or (''unsupported transport network '' @ to_lower network0) (transport_name network0)) (\<lambda>network.
     let security = to_lower security0 in
     bind_e (ensure (security \<in> set ['''', ''none'', ''tls'', ''reality''])
              (''unsupported transport security '' @ security)) (\<lambda>_.
     bind_e (if security = ''reality'' then
               bind_e (ensure (network \<in> set [''tcp'', ''grpc'', ''splithttp'', ''xhttp''])
                        (''REALITY is incompatible with transport '' @ network)) (\<lambda>_.
               ensure (coalesce (coalesce2 (param m ''pbk'') (param m ''password'')) [] \<noteq> [])
                 ''REALITY public key is required'')
             else Inr ()) (\<lambda>_.
     let s0 = json_obj [(''network'', JStr network)];
         s1 = (if security = ''tls'' then
                 json_insert ''tlsSettings'' (tls_settings m server)
                   (json_insert ''security'' (JStr ''tls'') s0)
               else if security = ''reality'' then
                 json_insert ''realitySettings'' (reality_settings m server)
                   (json_insert ''security'' (JStr ''reality'') s0)
               else s0)
     in Inr (case transport_settings network m server of
               None \<Rightarrow> s1
             | Some (k, v) \<Rightarrow> json_insert k v s1))))"

text \<open>The keys of a vmess payload that become transport parameters.\<close>

definition vmess_keys :: "string list" where
  "vmess_keys =
     [''sni'', ''host'', ''path'', ''serviceName'', ''fp'', ''alpn'', ''pcs'', ''vcn'', ''pbk'',
      ''sid'', ''spx'', ''headerType'']"

definition mux_off :: "string \<times> json" where
  "mux_off = (''mux'', json_obj [(''enabled'', JBool False)])"

definition endpoint_fields :: "ParsedProxy \<Rightarrow> (string \<times> json) list" where
  "endpoint_fields p = [(''address'', JStr (pp_address p)), (''port'', JInt (uint (pp_port p)))]"

definition outbound_json :: "string \<Rightarrow> string \<Rightarrow> json \<Rightarrow> (string \<times> json) list \<Rightarrow> json" where
  "outbound_json protocol grp endpoint rest =
     json_obj ([(''tag'', JStr ''proxy''), (''protocol'', JStr protocol),
                (''settings'', json_obj [(grp, JArr [endpoint])])] @ rest)"

definition xray_vmess :: "libs \<Rightarrow> ParsedProxy \<Rightarrow> string + json" where
  "xray_vmess L p =
     bind_e (ok_or ''invalid vmess normalized config''
       (Option.bind (json_get ''payload'' (pp_normalized_config p)) json_object)) (\<lambda>payload.
     let field = (\<lambda>k. Option.bind (map_of payload k) json_str);
         uid = coalesce (field ''id'') [] in
     bind_e (validate_user_id L uid) (\<lambda>_.
     let network = coalesce (field ''net'') ''tcp'';
         security = coalesce (field ''tls'') ''none'';
         m = bt_collect (List.map_filter (\<lambda>k. map_option (\<lambda>s. (to_lower k, s)) (field k)) vmess_keys);
         alter_id = coalesce (Option.bind (map_of payload ''aid'') number_or_string_u16) 0;
         cipher = coalesce (field ''scy'') ''auto'' in
     bind_e (stream_settings network security m (pp_address p)) (\<lambda>stream.
     Inr (outbound_json ''vmess'' ''vnext''
            (json_obj (endpoint_fields p @
               [(''users'', JArr [json_obj [(''id'', JStr uid), (''alterId'', JInt (uint alter_id)),
                                  (''security'', JStr cipher), (''level'', JInt 0)]])]))
            [(''streamSettings'', stream), mux_off]))))"

definition xray_vless :: "libs \<Rightarrow> ParsedProxy \<Rightarrow> string + json" where
  "xray_vless L p =
     (let user = value_string (pp_normalized_config p) ''user'' in
      bind_e (validate_user_id L user) (\<lambda>_.
      let m = params (pp_normalized_config p) in
      bind_e (stream_settings (coalesce (param m ''type'') ''tcp'') (coalesce (param m ''security'') ''none'')
                m (pp_address p)) (\<lambda>stream.
      Inr (outbound_json ''vless'' ''vnext''
             (json_obj (endpoint_fields p @
                [(''users'', JArr [json_obj [(''id'', JStr user),
                    (''encryption'', JStr (coalesce (param m ''encryption'') ''none'')),
                    (''flow'', JStr (coalesce (param m ''flow'') [])), (''level'', JInt 0)]])]))
             [(''streamSettings'', stream), mux_off]))))"

definition xray_trojan :: "ParsedProxy \<Rightarrow> string + json" where
  "xray_trojan p =
     (let password = value_string (pp_normalized_config p) ''user'' in
      bind_e (ensure (password \<noteq> []) ''trojan password is empty'') (\<lambda>_.
      let m = params (pp_normalized_config p) in
      bind_e (stream_settings (coalesce (param m ''type'') ''tcp'') (coalesce (param m ''security'') ''tls'')
                m (pp_address p)) (\<lambda>stream.
      Inr (outbound_json ''trojan'' ''servers''
             (json_obj (endpoint_fields p @ [(''password'', JStr password), (''level'', JInt 0)]))
             [(''streamSettings'', stream), mux_off]))))"

definition xray_outbound :: "libs \<Rightarrow> ParsedProxy \<Rightarrow> string + json" where
  "xray_outbound L p =
     (let protocol = pp_protocol p; c = pp_normalized_config p
      in if protocol = ''vless'' then xray_vless L p
         else if protocol = ''trojan'' then xray_trojan p
         else if protocol = ''ss'' then
           Inr (outbound_json ''shadowsocks'' ''servers''
             (json_obj (endpoint_fields p @
                [(''method'', JStr (value_string c ''method'')),
                 (''password'', JStr (value_string c ''password'')), (''level'', JInt 0)])) [])
         else if protocol \<in> set [''socks'', ''socks5''] then
           (let user = value_string c ''user''; password = value_string c ''password'';
                users = (if user = [] \<and> password = [] then []
                         else [json_obj [(''user'', JStr user), (''pass'', JStr password)]])
            in Inr (outbound_json ''socks'' ''servers''
                 (json_obj (endpoint_fields p @ [(''users'', JArr users)])) []))
         else if protocol = ''vmess'' then xray_vmess L p
         else Inl (''unsupported protocol '' @ protocol))"

section \<open>Lemmas\<close>

lemma ensure_Inl [simp]: "ensure b msg = Inl e \<longleftrightarrow> \<not> b \<and> e = msg"
  by (cases b) auto

lemma bind_ensure [simp]: "bind_e (ensure b msg) f = Inr r \<longleftrightarrow> b \<and> f () = Inr r"
  by (cases b) auto

lemma parse_share_url_Inr:
  "parse_share_url L raw0 source = Inr p \<longleftrightarrow>
     (\<exists>protocol address port remark normalized.
        share_parts L (trim raw0) = Inr (protocol, address, port, remark, normalized) \<and>
        protocol \<in> set supported_protocols \<and> address \<noteq> [] \<and> validate_address address = Inr () \<and>
        0 < port \<and> validate_transport_parameters normalized = Inr () \<and>
        p = \<lparr>pp_source = source, pp_raw_config = trim raw0, pp_protocol = protocol,
             pp_address = address, pp_port = port, pp_remark = remark,
             pp_normalized_config = normalized,
             pp_config_hash = l_sha256_hex L (l_json_bytes L normalized)\<rparr>)"
  by (auto simp: parse_share_url_def Let_def bind_e_Inr split: prod.splits)

lemma validate_address_Inr:
  "validate_address a = Inr u \<longleftrightarrow> ip_ok a \<or> length a \<le> 253 \<and> list_all host_char a"
  by (auto simp: validate_address_def)

lemma rep_simps:
  "parse_share_url L l source = Inl e \<Longrightarrow>
     rep_accepted (parse_lines L source (l # ls) seen) = rep_accepted (parse_lines L source ls seen)"
  "parse_share_url L l source = Inr p \<Longrightarrow> pp_config_hash p \<in> seen \<Longrightarrow>
     rep_accepted (parse_lines L source (l # ls) seen) = rep_accepted (parse_lines L source ls seen)"
  "parse_share_url L l source = Inr p \<Longrightarrow> pp_config_hash p \<notin> seen \<Longrightarrow>
     rep_accepted (parse_lines L source (l # ls) seen)
       = p # rep_accepted (parse_lines L source ls (insert (pp_config_hash p) seen))"
  by (simp_all add: Let_def)

definition line_hashes :: "libs \<Rightarrow> string \<Rightarrow> string list \<Rightarrow> string set" where
  "line_hashes L source ls =
     {h. \<exists>l \<in> set ls. \<exists>p. parse_share_url L l source = Inr p \<and> h = pp_config_hash p}"

lemma line_hashes_Cons:
  "line_hashes L source (l # ls) =
     (case parse_share_url L l source of Inl _ \<Rightarrow> {} | Inr p \<Rightarrow> {pp_config_hash p}) \<union> line_hashes L source ls"
  by (cases "parse_share_url L l source") (auto simp: line_hashes_def)

lemma parse_lines_hashes:
  "distinct (map pp_config_hash (rep_accepted (parse_lines L source ls seen))) \<and>
   pp_config_hash ` set (rep_accepted (parse_lines L source ls seen)) = line_hashes L source ls - seen"
proof (induction ls arbitrary: seen)
  case (Cons l ls)
  show ?case
  proof (cases "parse_share_url L l source")
    case (Inl e)
    then show ?thesis
      using Cons [of seen] by (simp add: rep_simps(1) line_hashes_Cons del: parse_lines.simps)
  next
    case (Inr p)
    show ?thesis
    proof (cases "pp_config_hash p \<in> seen")
      case True
      with Inr Cons [of seen] show ?thesis
        by (simp add: rep_simps(2) line_hashes_Cons del: parse_lines.simps)
    next
      case False
      with Inr Cons [of "insert (pp_config_hash p) seen"] show ?thesis
        by (simp add: rep_simps(3) line_hashes_Cons del: parse_lines.simps) blast
    qed
  qed
qed (simp add: line_hashes_def)

lemma parse_lines_from:
  "p \<in> set (rep_accepted (parse_lines L source ls seen)) \<Longrightarrow>
     \<exists>l \<in> set ls. parse_share_url L l source = Inr p"
proof (induction ls arbitrary: seen)
  case (Cons l ls)
  show ?case
  proof (cases "parse_share_url L l source")
    case (Inl e)
    with Cons show ?thesis by (simp add: rep_simps(1) del: parse_lines.simps)
  next
    case (Inr q)
    then have "p = q \<or> (\<exists>seen'. p \<in> set (rep_accepted (parse_lines L source ls seen')))"
      using Cons.prems rep_simps(2) [OF Inr] rep_simps(3) [OF Inr]
      by (cases "pp_config_hash q \<in> seen") auto
    with Inr Cons.IH show ?thesis by auto
  qed
qed simp

lemma parse_lines_rejected:
  "rep_rejected (parse_lines L source ls seen) =
     List.map_filter (\<lambda>l. case parse_share_url L l source of
        Inl e \<Rightarrow> Some (e @ '': '' @ redact l) | Inr _ \<Rightarrow> None) ls"
proof (induction ls arbitrary: seen)
  case (Cons l ls)
  then show ?case
    by (cases "parse_share_url L l source") (simp_all add: Let_def)
qed simp

lemma split_once_scheme:
  "CHR '':'' \<notin> set s \<Longrightarrow> split_once ''://'' (s @ ''://'' @ t) = Some (s, t)"
  by (induction s) auto

lemma redact_scheme:
  "CHR '':'' \<notin> set s \<Longrightarrow> redact (s @ ''://'' @ t) = s @ ''://<redacted>''"
  unfolding redact_def by (subst split_once_scheme) simp_all

definition outbound_shape :: "ParsedProxy \<Rightarrow> json \<Rightarrow> bool" where
  "outbound_shape p j \<longleftrightarrow> (\<exists>protocol grp rest rest' st.
     j = outbound_json protocol grp (json_obj (endpoint_fields p @ rest)) rest' \<and>
     fst ` set rest \<inter> {''address'', ''port''} = {} \<and>
     set rest' \<subseteq> {(''streamSettings'', st), mux_off})"

lemma outbound_shapeI:
  "fst ` set rest \<inter> {''address'', ''port''} = {} \<Longrightarrow> set rest' \<subseteq> {(''streamSettings'', st), mux_off} \<Longrightarrow>
     outbound_shape p (outbound_json protocol grp (json_obj (endpoint_fields p @ rest)) rest')"
  unfolding outbound_shape_def by blast

lemma xray_outbound_shape: "xray_outbound L p = Inr j \<Longrightarrow> outbound_shape p j"
  by (auto simp: xray_outbound_def xray_vless_def xray_trojan_def xray_vmess_def Let_def bind_e_Inr
      intro!: outbound_shapeI split: if_splits)

lemma canonical_query_perm:
  assumes "distinct (map fst (List.map_filter canonical_pair qs))"
    and "distinct (map fst (List.map_filter canonical_pair (u_query_pairs u)))"
    and "set (List.map_filter canonical_pair qs) = set (List.map_filter canonical_pair (u_query_pairs u))"
  shows "canonical_query (u\<lparr>u_fragment := f, u_query_pairs := qs\<rparr>) = canonical_query u"
  using bt_collect_perm [OF assms(1,3,2)] by (simp add: canonical_query_def)

lemma parse_url_proxy_cong:
  assumes "l_url_parse L a = Inr u" and "l_url_parse L b = Inr (u\<lparr>u_fragment := f, u_query_pairs := qs\<rparr>)"
    and "canonical_query (u\<lparr>u_fragment := f, u_query_pairs := qs\<rparr>) = canonical_query u"
    and "parse_url_proxy L a = Inr (protocol, address, port, remark, normalized)"
  shows "parse_url_proxy L b = Inr (protocol, address, port, coalesce f [], normalized)"
  using assms by (auto simp: parse_url_proxy_def Let_def bind_e_Inr url_address_def)

lemma outbound_json_gets:
  assumes "j = outbound_json protocol grp endpoint rest"
    and "set rest \<subseteq> {(''streamSettings'', st), mux_off}"
  shows "json_get ''tag'' j = Some (JStr ''proxy'')" "json_get ''protocol'' j = Some (JStr protocol)"
    "json_get ''settings'' j = Some (JObj [(grp, JArr [endpoint])])"
    "json_get ''mux'' j \<in> {None, Some (snd mux_off)}"
proof -
  have r: "map_of (rev rest) k \<in> {None, Some st, Some (snd mux_off)}" for k
    using assms(2) by (cases "map_of (rev rest) k") (auto dest!: map_of_SomeD simp: mux_off_def)
  have n: "map_of (rev rest) k = None" if "k \<notin> {''streamSettings'', ''mux''}" for k
    using assms(2) that by (auto simp: map_of_eq_None_iff mux_off_def)
  have m: "map_of (rev rest) ''mux'' \<in> {None, Some (snd mux_off)}"
    using assms(2) by (cases "map_of (rev rest) ''mux''") (auto dest!: map_of_SomeD simp: mux_off_def)
  have "json_obj [(grp, x)] = JObj [(grp, x)]" for x
    by (simp add: json_obj_def bt_collect_def)
  then show "json_get ''tag'' j = Some (JStr ''proxy'')" "json_get ''protocol'' j = Some (JStr protocol)"
    "json_get ''settings'' j = Some (JObj [(grp, JArr [endpoint])])"
    "json_get ''mux'' j \<in> {None, Some (snd mux_off)}"
    using m by (auto simp: assms(1) outbound_json_def json_get_obj n map_add_def split: option.splits)
qed

lemma endpoint_gets:
  "json_get ''address'' (json_obj (endpoint_fields p @ rest)) = Some (JStr (pp_address p))"
  "json_get ''port'' (json_obj (endpoint_fields p @ rest)) = Some (JInt (uint (pp_port p)))"
  if "fst ` set rest \<inter> {''address'', ''port''} = {}"
proof -
  have "map_of (rev rest) ''address'' = None" "map_of (rev rest) ''port'' = None"
    using that by (auto simp: map_of_eq_None_iff)
  then show "json_get ''address'' (json_obj (endpoint_fields p @ rest)) = Some (JStr (pp_address p))"
    "json_get ''port'' (json_obj (endpoint_fields p @ rest)) = Some (JInt (uint (pp_port p)))"
    by (simp_all add: json_get_obj endpoint_fields_def map_add_def)
qed

section \<open>Properties\<close>


definition sample_url :: "string \<Rightarrow> url" where
  "sample_url fragment =
     \<lparr>u_scheme = ''vless'', u_host = Some ''Example.com'', u_port = Some 443,
      u_username = ''user-1'', u_password = None, u_path = [],
      u_query_pairs = [(''security'', ''tls''), (''SNI'', ''a.example'')],
      u_fragment = Some fragment\<rparr>"

text \<open>A library for the examples: every link is the sample URL, with the link as its
  fragment and a remark parameter when the link is longer than nine bytes.\<close>

definition sample_libs :: libs where
  "sample_libs =
     \<lparr>l_url_parse = (\<lambda>s. Inr (if length s \<le> 9 then sample_url s
         else (sample_url s)\<lparr>u_query_pairs :=
           [(''sni'', ''A.example''), (''Remark'', s), (''Security'', ''TLS'')]\<rparr>)),
      l_b64_standard = (\<lambda>_. None), l_b64_url_no_pad = (\<lambda>_. None), l_json_members = (\<lambda>_. None),
      l_json_bytes = (\<lambda>j. if json_get ''params'' j = None then ''x'' else ''y''),
      l_sha256_hex = (\<lambda>s. s), l_form_first_key = (\<lambda>s. Some s),
      l_uuid_ok = (\<lambda>_. False), l_utf8_error = (\<lambda>_. ''invalid utf-8'')\<rparr>"


text \<open>C36. Identity ignores remarks: two share links of a URL protocol that differ only in the
  fragment, in remark-like query parameters, in the order of the parameters or in the
  case of their names (and of the values of host-like ones) are accepted or rejected
  together and are one proxy, with one hash.\<close>

theorem identity_ignores_remarks:
  assumes "l_url_parse L (trim a) = Inr u"
    and "l_url_parse L (trim b) = Inr (u\<lparr>u_fragment := f, u_query_pairs := qs\<rparr>)"
    and "\<not> starts_with (trim a) ''vmess://''" and "\<not> starts_with (trim a) ''ss://''"
    and "\<not> starts_with (trim b) ''vmess://''" and "\<not> starts_with (trim b) ''ss://''"
    and "set (List.map_filter canonical_pair qs) = set (List.map_filter canonical_pair (u_query_pairs u))"
    and "distinct (map fst (List.map_filter canonical_pair qs))"
    and "distinct (map fst (List.map_filter canonical_pair (u_query_pairs u)))"
    and "parse_share_url L a s = Inr p"
  shows "\<exists>q. parse_share_url L b s' = Inr q \<and> pp_config_hash q = pp_config_hash p \<and>
    pp_normalized_config q = pp_normalized_config p \<and> pp_address q = pp_address p \<and>
    pp_port q = pp_port p \<and> pp_protocol q = pp_protocol p"
proof -
  obtain protocol address port remark normalized
    where *: "parse_url_proxy L (trim a) = Inr (protocol, address, port, remark, normalized)"
      "protocol \<in> set supported_protocols" "address \<noteq> []" "validate_address address = Inr ()"
      "0 < port" "validate_transport_parameters normalized = Inr ()"
      "p = \<lparr>pp_source = s, pp_raw_config = trim a, pp_protocol = protocol, pp_address = address,
        pp_port = port, pp_remark = remark, pp_normalized_config = normalized,
        pp_config_hash = l_sha256_hex L (l_json_bytes L normalized)\<rparr>"
    using assms(3,4,10) by (auto simp: parse_share_url_Inr share_parts_def)
  have "parse_url_proxy L (trim b) = Inr (protocol, address, port, coalesce f [], normalized)"
    using parse_url_proxy_cong [OF assms(1,2) canonical_query_perm *(1)] assms(7-9) by blast
  with * assms(5,6) show ?thesis
    by (auto simp: parse_share_url_Inr share_parts_def)
qed

theorem identity_ignores_remarks_witness:
  "\<exists>p q. parse_share_url sample_libs ''vless://a'' ''feed'' = Inr p \<and>
     parse_share_url sample_libs ''vless://a#remark'' ''other'' = Inr q \<and>
     pp_config_hash q = pp_config_hash p"
proof -
  let ?qs = "[(''sni'', ''A.example''), (''Remark'', ''vless://a#remark''), (''Security'', ''TLS'')]"
  have u: "l_url_parse sample_libs (trim ''vless://a'') = Inr (sample_url ''vless://a'')"
    "l_url_parse sample_libs (trim ''vless://a#remark'') =
       Inr ((sample_url ''vless://a'')\<lparr>u_fragment := Some ''vless://a#remark'', u_query_pairs := ?qs\<rparr>)"
    "\<not> starts_with (trim ''vless://a'') ''vmess://''" "\<not> starts_with (trim ''vless://a'') ''ss://''"
    "\<not> starts_with (trim ''vless://a#remark'') ''vmess://''"
    "\<not> starts_with (trim ''vless://a#remark'') ''ss://''"
    by code_simp+
  have q: "List.map_filter canonical_pair ?qs = [(''sni'', ''a.example''), (''security'', ''tls'')]"
    "List.map_filter canonical_pair (u_query_pairs (sample_url ''vless://a''))
       = [(''security'', ''tls''), (''sni'', ''a.example'')]"
    by code_simp+
  have d: "set (List.map_filter canonical_pair ?qs) =
      set (List.map_filter canonical_pair (u_query_pairs (sample_url ''vless://a'')))"
    "distinct (map fst (List.map_filter canonical_pair ?qs))"
    "distinct (map fst (List.map_filter canonical_pair (u_query_pairs (sample_url ''vless://a''))))"
    unfolding q by auto
  have "\<not> isl (parse_share_url sample_libs ''vless://a'' ''feed'')"
    by code_simp
  then obtain p where p: "parse_share_url sample_libs ''vless://a'' ''feed'' = Inr p"
    by (cases "parse_share_url sample_libs ''vless://a'' ''feed''") auto
  show ?thesis
    using identity_ignores_remarks [OF u(1) u(2) u(3) u(4) u(5) u(6) d(1) d(2) d(3) p, of "''other''"] p
    by blast
qed

text \<open>Accounting of a subscription: every line is accounted for. The accepted proxies have
  distinct hashes, exactly the hashes of the lines that parse; the rejected entries are
  the failing lines in order, each reduced to its error and its scheme, so an entry says
  nothing of what follows the scheme; and no line is counted twice.\<close>

theorem subscription_accounting:
  "distinct (map pp_config_hash (rep_accepted (parse_subscription L payload source))) \<and>
   pp_config_hash ` set (rep_accepted (parse_subscription L payload source)) =
     {h. \<exists>l \<in> set (subscription_lines L payload). \<exists>p. parse_share_url L l source = Inr p \<and> h = pp_config_hash p} \<and>
   (\<forall>p \<in> set (rep_accepted (parse_subscription L payload source)). pp_source p = source) \<and>
   rep_rejected (parse_subscription L payload source) =
     List.map_filter (\<lambda>l. case parse_share_url L l source of
       Inl e \<Rightarrow> Some (e @ '': '' @ redact l) | Inr _ \<Rightarrow> None) (subscription_lines L payload) \<and>
   (\<forall>scheme secret. CHR '':'' \<notin> set scheme \<longrightarrow>
      redact (scheme @ ''://'' @ secret) = scheme @ ''://<redacted>'')"
proof (intro conjI)
  let ?ls = "subscription_lines L payload"
  show "distinct (map pp_config_hash (rep_accepted (parse_subscription L payload source)))"
    "pp_config_hash ` set (rep_accepted (parse_subscription L payload source)) =
      {h. \<exists>l \<in> set ?ls. \<exists>p. parse_share_url L l source = Inr p \<and> h = pp_config_hash p}"
    using parse_lines_hashes [of L source ?ls "{}"]
    by (simp_all only: parse_subscription_def line_hashes_def Diff_empty)
  show "\<forall>p \<in> set (rep_accepted (parse_subscription L payload source)). pp_source p = source"
    by (auto simp: parse_subscription_def parse_share_url_Inr dest!: parse_lines_from)
  show "rep_rejected (parse_subscription L payload source) =
      List.map_filter (\<lambda>l. case parse_share_url L l source of
       Inl e \<Rightarrow> Some (e @ '': '' @ redact l) | Inr _ \<Rightarrow> None) ?ls"
    unfolding parse_subscription_def by (rule parse_lines_rejected)
  show "\<forall>scheme secret. CHR '':'' \<notin> set scheme \<longrightarrow>
      redact (scheme @ ''://'' @ secret) = scheme @ ''://<redacted>''"
    using redact_scheme by blast
qed

theorem subscription_accounting_witness:
  "redact ''trojan://secret@host:443'' = ''trojan://<redacted>''"
proof -
  define scheme secret :: string where "scheme = ''trojan''" and "secret = ''secret@host:443''"
  have "CHR '':'' \<notin> set scheme" by (simp add: scheme_def)
  then have "redact (scheme @ ''://'' @ secret) = scheme @ ''://<redacted>''"
    using subscription_accounting [of sample_libs "[]" "[]"] by blast
  then show ?thesis by (simp add: scheme_def secret_def)
qed

text \<open>The outbound a proxy is run with: whatever the protocol, it is tagged as the proxy
  outbound, has exactly one server, that server is the parsed address and port, and
  multiplexing is never on.\<close>

theorem outbound_endpoint:
  assumes "xray_outbound L p = Inr j"
  shows "json_get ''tag'' j = Some (JStr ''proxy'') \<and>
    (\<exists>grp server. json_get ''settings'' j = Some (JObj [(grp, JArr [server])]) \<and>
       json_get ''address'' server = Some (JStr (pp_address p)) \<and>
       json_get ''port'' server = Some (JInt (uint (pp_port p)))) \<and>
    json_get ''mux'' j \<in> {None, Some (JObj [(''enabled'', JBool False)])}"
proof -
  obtain protocol grp rest rest' st where j: "j = outbound_json protocol grp (json_obj (endpoint_fields p @ rest)) rest'"
    "fst ` set rest \<inter> {''address'', ''port''} = {}" "set rest' \<subseteq> {(''streamSettings'', st), mux_off}"
    using xray_outbound_shape [OF assms] by (auto simp: outbound_shape_def)
  have "snd mux_off = JObj [(''enabled'', JBool False)]"
    by (simp add: mux_off_def json_obj_def bt_collect_def)
  with outbound_json_gets [OF j(1,3)] endpoint_gets [OF j(2), of p] show ?thesis
    by simp
qed

definition sample_proxy :: ParsedProxy where
  "sample_proxy =
     \<lparr>pp_source = ''feed'', pp_raw_config = ''trojan://pw@h:443'', pp_protocol = ''trojan'',
      pp_address = ''h'', pp_port = 443, pp_remark = [],
      pp_normalized_config = json_obj [(''user'', JStr ''pw'')], pp_config_hash = ''h1''\<rparr>"

theorem outbound_endpoint_witness:
  "\<exists>j. xray_outbound sample_libs sample_proxy = Inr j \<and> json_get ''tag'' j = Some (JStr ''proxy'')"
proof -
  have "\<not> isl (xray_outbound sample_libs sample_proxy)" by code_simp
  then obtain j where "xray_outbound sample_libs sample_proxy = Inr j"
    by (cases "xray_outbound sample_libs sample_proxy") auto
  then show ?thesis using outbound_endpoint by blast
qed

end
