(* ===== verification/Config.thy ===== *)
theory Config
  imports Domain
begin

text \<open>
  The configuration (\<open>src/src/config.rs\<close>): its sections as records with the default
  values of their \<open>Default\<close> instances, the environment overrides, the validation, and
  the walk that reports unknown keys of the YAML document. Reading the file and
  deserialising YAML into the records are library code; the walk takes the YAML value
  the library delivers.
\<close>

section \<open>Sections\<close>

record ServiceConfig =
  svc_name :: string
  svc_environment :: string

definition default_service :: ServiceConfig where
  "default_service = \<lparr>svc_name = ''config-orchestrator'', svc_environment = ''production''\<rparr>"

record PublishingConfig =
  pub_enabled :: bool
  pub_git_remote :: string
  pub_git_branch :: string
  pub_debounce_seconds :: real
  pub_reconcile_interval_seconds :: nat
  pub_retained_snapshots :: "nat option"
  pub_author_name :: string
  pub_author_email :: string

definition default_publishing :: PublishingConfig where
  "default_publishing =
     \<lparr>pub_enabled = False, pub_git_remote = '''', pub_git_branch = ''main'',
      pub_debounce_seconds = 2, pub_reconcile_interval_seconds = 60,
      pub_retained_snapshots = None, pub_author_name = ''Proxy Fleet'',
      pub_author_email = ''proxy-fleet@users.noreply.github.com''\<rparr>"

record SubscriptionSource =
  ss_name :: string
  ss_url :: string

record SubscriptionConfig =
  sub_refresh_interval_seconds :: nat
  sub_prune_missing_after_cycles :: nat
  sub_urls :: "SubscriptionSource list"

definition default_subscriptions :: SubscriptionConfig where
  "default_subscriptions =
     \<lparr>sub_refresh_interval_seconds = 0, sub_prune_missing_after_cycles = 0, sub_urls = []\<rparr>"

definition complete_generations_before_retire :: "SubscriptionConfig \<Rightarrow> nat" where
  "complete_generations_before_retire c = max (sub_prune_missing_after_cycles c) 3"

record PortRange =
  pr_start :: u16
  pr_end :: u16

definition port_range_valid :: "PortRange \<Rightarrow> bool" where
  "port_range_valid r \<longleftrightarrow> 0 < pr_start r \<and> pr_start r \<le> pr_end r"

record PortsConfig =
  ports_main :: PortRange
  ports_test :: PortRange

definition default_ports :: PortsConfig where
  "default_ports =
     \<lparr>ports_main = \<lparr>pr_start = 30000, pr_end = 31999\<rparr>,
      ports_test = \<lparr>pr_start = 32000, pr_end = 39999\<rparr>\<rparr>"

record DatabaseConfig =
  dbc_kind :: string
  dbc_path :: string

definition default_database :: DatabaseConfig where
  "default_database = \<lparr>dbc_kind = ''sqlite'', dbc_path = ''./data/app.db''\<rparr>"

record HealthConfig =
  hc_active_min_residence_seconds :: nat
  hc_active_pool_relay_check_interval_seconds :: nat
  hc_active_pool_download_check_interval_seconds :: nat
  hc_active_relay_failure_threshold :: nat
  hc_probation_recheck_interval_seconds :: nat
  hc_probation_failure_threshold :: nat
  hc_probation_success_threshold :: nat
  hc_candidate_recheck_interval_seconds :: nat
  hc_candidate_max_failures :: nat
  hc_candidate_retry_backoff_seconds :: "nat list"
  hc_candidate_batch_size :: nat
  hc_candidate_cycle_limit :: nat
  hc_candidate_batch_concurrency :: nat
  hc_candidate_parallel_batches :: nat
  hc_candidate_batch_timeout_seconds :: nat
  hc_xray_concurrency_min :: nat
  hc_xray_concurrency_max :: nat
  hc_max_active_runtimes :: nat
  hc_download_concurrency_min :: nat
  hc_download_concurrency_max :: nat
  hc_recent_success_retention_hours :: nat
  hc_dead_recheck_batch_size :: nat
  hc_dead_retry_recent_seconds :: nat
  hc_dead_retry_unverified_seconds :: nat
  hc_relay_timeout_ms :: nat
  hc_max_relay_delay_ms :: nat
  hc_http_probe_body_limit_bytes :: nat
  hc_http_probe_max_endpoints :: nat
  hc_http_probe_success_quorum :: nat
  hc_test_url :: string
  hc_fallback_urls :: "string list"

definition default_health :: HealthConfig where
  "default_health =
     \<lparr>hc_active_min_residence_seconds = 30 * 60,
      hc_active_pool_relay_check_interval_seconds = 10,
      hc_active_pool_download_check_interval_seconds = 300,
      hc_active_relay_failure_threshold = 3,
      hc_probation_recheck_interval_seconds = 120,
      hc_probation_failure_threshold = 3,
      hc_probation_success_threshold = 1,
      hc_candidate_recheck_interval_seconds = 60,
      hc_candidate_max_failures = 5,
      hc_candidate_retry_backoff_seconds = [300, 1800, 7200, 21600],
      hc_candidate_batch_size = 32,
      hc_candidate_cycle_limit = 256,
      hc_candidate_batch_concurrency = 16,
      hc_candidate_parallel_batches = 4,
      hc_candidate_batch_timeout_seconds = 20,
      hc_xray_concurrency_min = 4,
      hc_xray_concurrency_max = 16,
      hc_max_active_runtimes = 128,
      hc_download_concurrency_min = 2,
      hc_download_concurrency_max = 8,
      hc_recent_success_retention_hours = 24,
      hc_dead_recheck_batch_size = 32,
      hc_dead_retry_recent_seconds = 7200,
      hc_dead_retry_unverified_seconds = 21600,
      hc_relay_timeout_ms = 3000,
      hc_max_relay_delay_ms = 3000,
      hc_http_probe_body_limit_bytes = 16 * 1024,
      hc_http_probe_max_endpoints = 2,
      hc_http_probe_success_quorum = 1,
      hc_test_url = ''https://www.cloudflare.com/cdn-cgi/trace'',
      hc_fallback_urls = [''https://www.gstatic.com/generate_204'',
                          ''https://www.google.com/generate_204'']\<rparr>"

record DownloadTestConfig =
  dt_enabled :: bool
  dt_timeout_seconds :: nat
  dt_per_url_timeout_seconds :: real
  dt_min_download_kbps :: nat
  dt_target_download_kbps :: nat
  dt_test_url :: string
  dt_fallback_urls :: "string list"

definition default_download_test :: DownloadTestConfig where
  "default_download_test =
     \<lparr>dt_enabled = True, dt_timeout_seconds = 5, dt_per_url_timeout_seconds = 3 / 2,
      dt_min_download_kbps = 100, dt_target_download_kbps = 1000,
      dt_test_url = ''https://proof.ovh.net/files/1Mb.dat'', dt_fallback_urls = []\<rparr>"

record MetadataConfig =
  md_enabled :: bool
  md_endpoint :: string
  md_timeout_seconds :: nat
  md_cache_ttl_seconds :: nat

definition default_metadata :: MetadataConfig where
  "default_metadata =
     \<lparr>md_enabled = True, md_endpoint = ''https://ipapi.co/json/'', md_timeout_seconds = 5,
      md_cache_ttl_seconds = 24 * 60 * 60\<rparr>"

record DeadPoolConfig =
  dp_ttl_hours :: nat
  dp_invalid_ttl_hours :: nat

definition default_dead_pool :: DeadPoolConfig where
  "default_dead_pool = \<lparr>dp_ttl_hours = 24, dp_invalid_ttl_hours = 720\<rparr>"

record PenaltyRule =
  pn_base_cooldown_seconds :: nat
  pn_max_cooldown_seconds :: nat
  pn_jitter_ratio :: real

record ClientPenaltyConfig =
  cp_broken :: PenaltyRule
  cp_rate_limited :: PenaltyRule

definition default_client_penalty :: ClientPenaltyConfig where
  "default_client_penalty =
     \<lparr>cp_broken = \<lparr>pn_base_cooldown_seconds = 300, pn_max_cooldown_seconds = 21600,
                   pn_jitter_ratio = 2 / 10\<rparr>,
      cp_rate_limited = \<lparr>pn_base_cooldown_seconds = 900, pn_max_cooldown_seconds = 43200,
                         pn_jitter_ratio = 2 / 10\<rparr>\<rparr>"

record SelectionWeights =
  w_latency :: real
  w_download :: real
  w_availability :: real
  w_fairness :: real
  w_client_history :: real

definition default_weights :: SelectionWeights where
  "default_weights =
     \<lparr>w_latency = 35 / 100, w_download = 20 / 100, w_availability = 20 / 100,
      w_fairness = 15 / 100, w_client_history = 10 / 100\<rparr>"

record SelectionConfig =
  sel_strategy :: string
  sel_sample_size :: nat
  sel_weights :: SelectionWeights

definition default_selection :: SelectionConfig where
  "default_selection =
     \<lparr>sel_strategy = ''weighted_power_of_choices'', sel_sample_size = 5,
      sel_weights = default_weights\<rparr>"

record ApiConfig =
  api_host :: string
  api_port :: u16
  api_auth_enabled :: bool

definition default_api :: ApiConfig where
  "default_api = \<lparr>api_host = ''0.0.0.0'', api_port = 8080, api_auth_enabled = False\<rparr>"

record VipPortConfig =
  vip_enabled :: bool
  vip_port :: u16
  vip_check_interval_seconds :: nat
  vip_min_switch_interval_seconds :: nat
  vip_switch_threshold_score_diff :: real

definition default_vip_port :: VipPortConfig where
  "default_vip_port =
     \<lparr>vip_enabled = True, vip_port = 5050, vip_check_interval_seconds = 10,
      vip_min_switch_interval_seconds = 60, vip_switch_threshold_score_diff = 15 / 100\<rparr>"

record SentinelTarget =
  st_kind :: string
  st_host :: string
  st_port :: u16
  st_url :: string

definition default_sentinel :: SentinelTarget where
  "default_sentinel = \<lparr>st_kind = ''tcp'', st_host = '''', st_port = 0, st_url = ''''\<rparr>"

record NetworkGuardConfig =
  ng_enabled :: bool
  ng_check_interval_seconds :: nat
  ng_failure_threshold :: nat
  ng_recovery_threshold :: nat
  ng_minimum_successful_targets :: nat
  ng_require_http_success :: bool
  ng_mass_failure_threshold_percent :: nat
  ng_sentinel_targets :: "SentinelTarget list"

definition default_network_guard :: NetworkGuardConfig where
  "default_network_guard =
     \<lparr>ng_enabled = True, ng_check_interval_seconds = 5, ng_failure_threshold = 1,
      ng_recovery_threshold = 1, ng_minimum_successful_targets = 2,
      ng_require_http_success = True, ng_mass_failure_threshold_percent = 40,
      ng_sentinel_targets = []\<rparr>"

record RetentionConfig =
  rt_system_event_max_rows :: nat

definition default_retention :: RetentionConfig where
  "default_retention = \<lparr>rt_system_event_max_rows = 10000\<rparr>"

record AppConfig =
  cfg_service :: ServiceConfig
  cfg_publishing :: PublishingConfig
  cfg_subscriptions :: SubscriptionConfig
  cfg_ports :: PortsConfig
  cfg_database :: DatabaseConfig
  cfg_health :: HealthConfig
  cfg_metadata :: MetadataConfig
  cfg_download_test :: DownloadTestConfig
  cfg_dead_pool :: DeadPoolConfig
  cfg_client_penalty :: ClientPenaltyConfig
  cfg_selection :: SelectionConfig
  cfg_api :: ApiConfig
  cfg_vip_port :: VipPortConfig
  cfg_network_guard :: NetworkGuardConfig
  cfg_retention :: RetentionConfig
  cfg_assignment_ttl_seconds :: nat
  cfg_xray_bin :: string

definition default_config :: AppConfig where
  "default_config =
     \<lparr>cfg_service = default_service, cfg_publishing = default_publishing,
      cfg_subscriptions = default_subscriptions, cfg_ports = default_ports,
      cfg_database = default_database, cfg_health = default_health,
      cfg_metadata = default_metadata, cfg_download_test = default_download_test,
      cfg_dead_pool = default_dead_pool, cfg_client_penalty = default_client_penalty,
      cfg_selection = default_selection, cfg_api = default_api,
      cfg_vip_port = default_vip_port, cfg_network_guard = default_network_guard,
      cfg_retention = default_retention, cfg_assignment_ttl_seconds = 60,
      cfg_xray_bin = ''/usr/local/bin/xray''\<rparr>"

lemmas default_defs =
  default_config_def default_service_def default_publishing_def default_subscriptions_def
  default_ports_def default_database_def default_health_def default_metadata_def
  default_download_test_def default_dead_pool_def default_client_penalty_def
  default_selection_def default_weights_def default_api_def default_vip_port_def
  default_network_guard_def default_retention_def

section \<open>Validation\<close>

definition validate :: "AppConfig \<Rightarrow> string + unit" where
  "validate c =
     (let h = cfg_health c; main = ports_main (cfg_ports c); test = ports_test (cfg_ports c)
      in ensure_all
       [(sub_urls (cfg_subscriptions c) \<noteq> [], ''subscriptions.urls must not be empty''),
        (0 < sub_refresh_interval_seconds (cfg_subscriptions c),
           ''subscription refresh interval must be positive''),
        (port_range_valid main \<and> port_range_valid test, ''invalid port range''),
        (pr_end main < pr_start test \<or> pr_end test < pr_start main,
           ''main/test port ranges must not overlap''),
        (0 < api_port (cfg_api c), ''api.port must be positive''),
        (100 \<le> rt_system_event_max_rows (cfg_retention c),
           ''retention.system_event_max_rows must be at least 100''),
        (0 < hc_candidate_cycle_limit h, ''candidate cycle limit must be positive''),
        (0 < hc_xray_concurrency_min h \<and> hc_xray_concurrency_min h \<le> hc_xray_concurrency_max h \<and>
         0 < hc_download_concurrency_min h \<and>
         hc_download_concurrency_min h \<le> hc_download_concurrency_max h,
           ''adaptive concurrency ranges must be positive and ordered''),
        (0 < hc_max_active_runtimes h, ''health.max_active_runtimes must be positive''),
        (0 < hc_http_probe_max_endpoints h, ''health.http_probe_max_endpoints must be positive''),
        (0 < hc_http_probe_success_quorum h, ''health.http_probe_success_quorum must be positive''),
        (0 < hc_http_probe_body_limit_bytes h,
           ''health.http_probe_body_limit_bytes must be positive''),
        (15 * 60 \<le> hc_active_min_residence_seconds h \<and> hc_active_min_residence_seconds h \<le> 30 * 60,
           ''health.active_min_residence_seconds must be between 900 and 1800 seconds''),
        (0 < dt_timeout_seconds (cfg_download_test c), ''download timeout must be positive''),
        (2 \<le> sel_sample_size (cfg_selection c), ''selection sample size must be at least 2'')])"

section \<open>Environment overrides\<close>

type_synonym env = "string \<Rightarrow> string option"

definition env_number_u16 :: "env \<Rightarrow> string \<Rightarrow> string + u16 option" where
  "env_number_u16 env name =
     (case env name of
        None \<Rightarrow> Inr None
      | Some v \<Rightarrow>
         (case parse_u16 v of
            None \<Rightarrow> Inl (name @ '' must be a valid number'')
          | Some n \<Rightarrow> Inr (Some (of_nat n))))"

definition env_bool :: "env \<Rightarrow> string \<Rightarrow> string + bool option" where
  "env_bool env name =
     (case env name of
        None \<Rightarrow> Inr None
      | Some v \<Rightarrow>
         if v \<in> {''1'', ''true'', ''TRUE'', ''yes'', ''YES''} then Inr (Some True)
         else if v \<in> {''0'', ''false'', ''FALSE'', ''no'', ''NO''} then Inr (Some False)
         else Inl (name @ '' must be a boolean''))"

definition apply_environment :: "env \<Rightarrow> AppConfig \<Rightarrow> string + AppConfig" where
  "apply_environment env c =
     (let c1 = (case env ''PROXY_FLEET_API_HOST'' of
                  None \<Rightarrow> c
                | Some v \<Rightarrow> c\<lparr>cfg_api := (cfg_api c)\<lparr>api_host := v\<rparr>\<rparr>)
      in case env_number_u16 env ''PROXY_FLEET_API_PORT'' of
           Inl e \<Rightarrow> Inl e
         | Inr p \<Rightarrow>
             let c2 = (case p of
                         None \<Rightarrow> c1
                       | Some n \<Rightarrow> c1\<lparr>cfg_api := (cfg_api c1)\<lparr>api_port := n\<rparr>\<rparr>);
                 c3 = (case env ''PROXY_FLEET_DATABASE_PATH'' of
                         None \<Rightarrow> c2
                       | Some v \<Rightarrow> c2\<lparr>cfg_database := (cfg_database c2)\<lparr>dbc_path := v\<rparr>\<rparr>);
                 c4 = (case env ''PROXY_FLEET_XRAY_BIN'' of
                         None \<Rightarrow> c3
                       | Some v \<Rightarrow> c3\<lparr>cfg_xray_bin := v\<rparr>)
             in (case env_bool env ''PROXY_FLEET_PUBLISHING_ENABLED'' of
                   Inl e \<Rightarrow> Inl e
                 | Inr None \<Rightarrow> Inr c4
                 | Inr (Some b) \<Rightarrow>
                     Inr (c4\<lparr>cfg_publishing := (cfg_publishing c4)\<lparr>pub_enabled := b\<rparr>\<rparr>)))"

section \<open>Unknown keys\<close>

text \<open>
  What the walk sees of a YAML value: mappings (with their entries in order, no key
  twice), sequences, strings, anything else.
\<close>

datatype yaml =
  YMapping "(yaml \<times> yaml) list"
| YSequence "yaml list"
| YString string
| YOther

fun yaml_str :: "yaml \<Rightarrow> string option" where
  "yaml_str (YString s) = Some s"
| "yaml_str _ = None"

definition yaml_get :: "(yaml \<times> yaml) list \<Rightarrow> string \<Rightarrow> yaml option" where
  "yaml_get m k = map_of m (YString k)"

definition nested_mapping_keys :: "string \<Rightarrow> string list" where
  "nested_mapping_keys path =
     (if path = '''' then
        [''service'', ''publishing'', ''subscriptions'', ''ports'', ''database'', ''health'',
         ''metadata'', ''download_test'', ''dead_pool'', ''client_penalty'', ''selection'',
         ''api'', ''vip_port'', ''network_guard'', ''retention'']
      else if path = ''ports'' then [''main'', ''test'']
      else if path = ''client_penalty'' then [''broken'', ''rate_limited'']
      else if path = ''selection'' then [''weights'']
      else [])"

definition nested_sequence_keys :: "string \<Rightarrow> (string \<times> string) list" where
  "nested_sequence_keys path =
     (if path = ''subscriptions'' then [(''urls'', ''subscriptions.urls[]'')]
      else if path = ''network_guard'' then
        [(''sentinel_targets'', ''network_guard.sentinel_targets[]'')]
      else [])"

definition known_keys :: "string \<Rightarrow> string list option" where
  "known_keys path =
     (if path = '''' then Some
        [''service'', ''publishing'', ''subscriptions'', ''ports'', ''database'', ''health'',
         ''metadata'', ''download_test'', ''dead_pool'', ''client_penalty'', ''selection'',
         ''api'', ''vip_port'', ''network_guard'', ''retention'', ''assignment_ttl_seconds'',
         ''xray_bin'']
      else if path = ''service'' then Some
        [''name'', ''environment'']
      else if path = ''publishing'' then Some
        [''enabled'', ''git_remote'', ''git_branch'', ''debounce_seconds'',
         ''reconcile_interval_seconds'', ''retained_snapshots'', ''author_name'',
         ''author_email'']
      else if path = ''subscriptions'' then Some
        [''refresh_interval_seconds'', ''prune_missing_after_cycles'', ''urls'']
      else if path = ''subscriptions.urls[]'' then Some
        [''name'', ''url'']
      else if path = ''ports'' then Some
        [''main'', ''test'']
      else if path = ''ports.main'' \<or> path = ''ports.test'' then Some
        [''start'', ''end'']
      else if path = ''database'' then Some
        [''type'', ''path'']
      else if path = ''health'' then Some
        [''active_min_residence_seconds'', ''active_pool_relay_check_interval_seconds'',
         ''active_pool_download_check_interval_seconds'', ''active_relay_failure_threshold'',
         ''probation_recheck_interval_seconds'', ''probation_failure_threshold'',
         ''probation_success_threshold'', ''candidate_recheck_interval_seconds'',
         ''candidate_max_failures'', ''candidate_retry_backoff_seconds'',
         ''candidate_batch_size'', ''candidate_cycle_limit'', ''candidate_batch_concurrency'',
         ''candidate_parallel_batches'', ''candidate_batch_timeout_seconds'',
         ''xray_concurrency_min'', ''xray_concurrency_max'', ''max_active_runtimes'',
         ''download_concurrency_min'', ''download_concurrency_max'',
         ''recent_success_retention_hours'', ''dead_recheck_batch_size'',
         ''dead_retry_recent_seconds'', ''dead_retry_unverified_seconds'', ''relay_timeout_ms'',
         ''max_relay_delay_ms'', ''http_probe_body_limit_bytes'', ''http_probe_max_endpoints'',
         ''http_probe_success_quorum'', ''test_url'', ''fallback_urls'']
      else if path = ''metadata'' then Some
        [''enabled'', ''endpoint'', ''timeout_seconds'', ''cache_ttl_seconds'']
      else if path = ''download_test'' then Some
        [''enabled'', ''timeout_seconds'', ''per_url_timeout_seconds'', ''min_download_kbps'',
         ''target_download_kbps'', ''test_url'', ''fallback_urls'']
      else if path = ''dead_pool'' then Some
        [''ttl_hours'', ''invalid_ttl_hours'']
      else if path = ''client_penalty'' then Some
        [''broken'', ''rate_limited'']
      else if path = ''client_penalty.broken'' \<or> path = ''client_penalty.rate_limited'' then Some
        [''base_cooldown_seconds'', ''max_cooldown_seconds'', ''jitter_ratio'']
      else if path = ''selection'' then Some
        [''strategy'', ''sample_size'', ''weights'']
      else if path = ''selection.weights'' then Some
        [''latency'', ''download'', ''availability'', ''fairness'', ''client_history'']
      else if path = ''api'' then Some
        [''host'', ''port'', ''auth_enabled'']
      else if path = ''vip_port'' then Some
        [''enabled'', ''port'', ''check_interval_seconds'', ''min_switch_interval_seconds'',
         ''switch_threshold_score_diff'']
      else if path = ''network_guard'' then Some
        [''enabled'', ''check_interval_seconds'', ''failure_threshold'', ''recovery_threshold'',
         ''minimum_successful_targets'', ''require_http_success'',
         ''mass_failure_threshold_percent'', ''sentinel_targets'']
      else if path = ''network_guard.sentinel_targets[]'' then Some
        [''type'', ''host'', ''port'', ''url'']
      else if path = ''retention'' then Some
        [''system_event_max_rows'']
      else None)"

text \<open>
  A warning carries the path of the section and the key, \<open>None\<close> for a key that is not a
  string. The children of a mapping, in the order the two loops reach them.
\<close>

type_synonym warning = "string \<times> string option"

definition key_warnings :: "(yaml \<times> yaml) list \<Rightarrow> string \<Rightarrow> warning list" where
  "key_warnings m path =
     (let known = coalesce (known_keys path) []
      in concat (map (\<lambda>(k, _).
           case yaml_str k of
             Some name \<Rightarrow> if name \<in> set known then [] else [(path, Some name)]
           | None \<Rightarrow> [(path, None)]) m))"

definition yaml_children :: "(yaml \<times> yaml) list \<Rightarrow> string \<Rightarrow> (yaml \<times> string) list" where
  "yaml_children m path =
     concat (map (\<lambda>key. case yaml_get m key of
         Some v \<Rightarrow> [(v, if path = [] then key else path @ ''.'' @ key)]
       | None \<Rightarrow> []) (nested_mapping_keys path))
   @ concat (map (\<lambda>(key, item_path). case yaml_get m key of
         Some (YSequence vs) \<Rightarrow> map (\<lambda>v. (v, item_path)) vs
       | _ \<Rightarrow> []) (nested_sequence_keys path))"

lemma yaml_get_size: "yaml_get m k = Some v \<Longrightarrow> size v < size (YMapping m)"
  unfolding yaml_get_def by (induction m) (auto split: if_splits)

lemma yaml_children_size: "(v, p) \<in> set (yaml_children m path) \<Longrightarrow> size v < size (YMapping m)"
proof -
  assume "(v, p) \<in> set (yaml_children m path)"
  then consider (mapping) k where "yaml_get m k = Some v"
    | (item) k vs where "yaml_get m k = Some (YSequence vs)" "v \<in> set vs"
    by (auto simp: yaml_children_def eq_commute [of "Some _"] split: option.splits yaml.splits)
  then show ?thesis
  proof cases
    case mapping
    then show ?thesis by (rule yaml_get_size)
  next
    case item
    from item(2) have "size v < size (YSequence vs)"
      by (induction vs) auto
    then show ?thesis using yaml_get_size [OF item(1)] by linarith
  qed
qed

text \<open>
  \<open>inspect_mapping v path\<close>: the warnings in order, and the error that ended the walk if
  one did. \<open>inspect_all\<close> is the rest of the two loops of a mapping.
\<close>

definition max_size :: "(yaml \<times> string) list \<Rightarrow> nat" where
  "max_size cs = foldr (\<lambda>c. max (size (fst c))) cs 0"

lemma max_size_less: "\<forall>c \<in> set cs. size (fst c) < n \<Longrightarrow> 0 < n \<Longrightarrow> max_size cs < n"
  by (induction cs) (auto simp: max_size_def)

function (sequential)
  inspect_mapping :: "yaml \<Rightarrow> string \<Rightarrow> warning list \<times> string option" and
  inspect_all :: "(yaml \<times> string) list \<Rightarrow> warning list \<times> string option" where
  "inspect_mapping (YMapping m) path =
     (case inspect_all (yaml_children m path) of (ws, e) \<Rightarrow> (key_warnings m path @ ws, e))"
| "inspect_mapping _ path =
     ([], Some (''configuration section '' @ (if path = [] then ''<root>'' else path)
                 @ '' must be a YAML mapping''))"
| "inspect_all [] = ([], None)"
| "inspect_all ((v, path) # cs) =
     (case inspect_mapping v path of
        (ws, Some e) \<Rightarrow> (ws, Some e)
      | (ws, None) \<Rightarrow> (case inspect_all cs of (ws', e) \<Rightarrow> (ws @ ws', e)))"
  by pat_completeness auto

termination
proof (relation "inv_image (less_than <*lex*> less_than)
    (case_sum (\<lambda>(v, p). (size v, 0)) (\<lambda>cs. (max_size cs, Suc (length cs))))", goal_cases)
  case 1
  show ?case by auto
next
  case (2 m path)
  have "max_size (yaml_children m path) < size (YMapping m)"
    by (rule max_size_less) (use yaml_children_size in fastforce)+
  then show ?case by simp
qed (auto simp: max_size_def max_def)

text \<open>\<open>warn_unknown_keys\<close>: the walk of the whole document.\<close>

definition warn_unknown_keys :: "yaml \<Rightarrow> warning list \<times> string option" where
  "warn_unknown_keys v = inspect_mapping v []"

section \<open>Properties\<close>

text \<open>A configuration that passes validation has what the components rely on: a
  subscription, disjoint non-empty port pools, ordered positive concurrency bounds, a
  residence time between fifteen and thirty minutes, and a selection sample of two.\<close>

theorem validate_sound:
  assumes "validate c = Inr u"
  shows "sub_urls (cfg_subscriptions c) \<noteq> [] \<and>
    port_range_valid (ports_main (cfg_ports c)) \<and> port_range_valid (ports_test (cfg_ports c)) \<and>
    {pr_start (ports_main (cfg_ports c)) .. pr_end (ports_main (cfg_ports c))} \<inter>
      {pr_start (ports_test (cfg_ports c)) .. pr_end (ports_test (cfg_ports c))} = {} \<and>
    1 \<le> hc_xray_concurrency_min (cfg_health c) \<and>
    hc_xray_concurrency_min (cfg_health c) \<le> hc_xray_concurrency_max (cfg_health c) \<and>
    1 \<le> hc_download_concurrency_min (cfg_health c) \<and>
    hc_download_concurrency_min (cfg_health c) \<le> hc_download_concurrency_max (cfg_health c) \<and>
    hc_active_min_residence_seconds (cfg_health c) \<in> {900..1800} \<and>
    2 \<le> sel_sample_size (cfg_selection c)"
  using assms by (auto simp: validate_def Let_def ensure_all_Inr Suc_le_eq simp del: ensure_all.simps)

definition sample_config :: AppConfig where
  "sample_config = default_config
     \<lparr>cfg_subscriptions := \<lparr>sub_refresh_interval_seconds = 300, sub_prune_missing_after_cycles = 3,
        sub_urls = [\<lparr>ss_name = ''a'', ss_url = ''https://a.example/sub''\<rparr>]\<rparr>\<rparr>"

theorem validate_sound_witness:
  "hc_xray_concurrency_min (cfg_health sample_config) \<le> hc_xray_concurrency_max (cfg_health sample_config)"
proof -
  have "validate sample_config = Inr ()"
    by (simp add: validate_def sample_config_def default_defs port_range_valid_def)
  then show ?thesis using validate_sound [of sample_config "()"] by blast
qed

text \<open>The environment overrides at most the five documented settings: every other section
  of the configuration is what the file says, and nothing changes when no variable is set.
  An API port or a publishing switch that cannot be read is an error, not a default.\<close>

theorem environment_overrides_only:
  "(\<forall>c'. apply_environment env c = Inr c' \<longrightarrow>
      c' = c\<lparr>cfg_api := (cfg_api c)\<lparr>api_host := api_host (cfg_api c'), api_port := api_port (cfg_api c')\<rparr>,
             cfg_database := (cfg_database c)\<lparr>dbc_path := dbc_path (cfg_database c')\<rparr>,
             cfg_xray_bin := cfg_xray_bin c',
             cfg_publishing := (cfg_publishing c)\<lparr>pub_enabled := pub_enabled (cfg_publishing c')\<rparr>\<rparr>) \<and>
   apply_environment (\<lambda>_. None) c = Inr c \<and>
   (\<forall>v. env ''PROXY_FLEET_API_PORT'' = Some v \<and> parse_u16 v = None \<longrightarrow>
      (\<exists>e. apply_environment env c = Inl e))"
proof (intro conjI allI impI)
  fix c' assume "apply_environment env c = Inr c'"
  then show "c' = c\<lparr>cfg_api := (cfg_api c)\<lparr>api_host := api_host (cfg_api c'), api_port := api_port (cfg_api c')\<rparr>,
             cfg_database := (cfg_database c)\<lparr>dbc_path := dbc_path (cfg_database c')\<rparr>,
             cfg_xray_bin := cfg_xray_bin c',
             cfg_publishing := (cfg_publishing c)\<lparr>pub_enabled := pub_enabled (cfg_publishing c')\<rparr>\<rparr>"
    by (auto simp: apply_environment_def Let_def split: sum.splits option.splits)
next
  show "apply_environment (\<lambda>_. None) c = Inr c"
    by (simp add: apply_environment_def Let_def env_number_u16_def env_bool_def)
next
  fix v assume "env ''PROXY_FLEET_API_PORT'' = Some v \<and> parse_u16 v = None"
  then show "\<exists>e. apply_environment env c = Inl e"
    by (auto simp: apply_environment_def Let_def env_number_u16_def)
qed

theorem environment_overrides_only_witness:
  "apply_environment (\<lambda>_. None) default_config = Inr default_config"
  using environment_overrides_only [of "\<lambda>_. None" default_config] by blast

text \<open>The tables agree: every section the walk descends into is itself a known key of the
  section above it, and has a table of its own.\<close>

lemma nested_keys_tables:
  "list_all (\<lambda>path. list_all (\<lambda>k.
     list_ex (\<lambda>x. x = k) (coalesce (known_keys path) []) \<and>
     known_keys (if path = [] then k else path @ ''.'' @ k) \<noteq> None) (nested_mapping_keys path))
   ['''', ''ports'', ''client_penalty'', ''selection'']"
  by code_simp

lemma nested_keys_known:
  assumes "k \<in> set (nested_mapping_keys path)"
  shows "k \<in> set (coalesce (known_keys path) []) \<and>
     known_keys (if path = [] then k else path @ ''.'' @ k) \<noteq> None"
proof -
  have "path \<in> set ['''', ''ports'', ''client_penalty'', ''selection'']"
    using assms by (auto simp: nested_mapping_keys_def split: if_splits)
  with nested_keys_tables assms show ?thesis
    by (auto simp only: list_all_iff list_ex_iff)
qed

lemma warnings_unknown:
  "(p, Some k) \<in> set (key_warnings m path) \<Longrightarrow>
     p = path \<and> k \<notin> set (coalesce (known_keys path) [])"
  by (auto simp: key_warnings_def Let_def split: if_splits option.splits)

lemma inspect_warnings_unknown:
  "(p, Some k) \<in> set (fst (inspect_mapping v path)) \<Longrightarrow> k \<notin> set (coalesce (known_keys p) [])"
  "(p, Some k) \<in> set (fst (inspect_all cs)) \<Longrightarrow> k \<notin> set (coalesce (known_keys p) [])"
  by (induction v path and cs rule: inspect_mapping_inspect_all.induct)
     (auto split: prod.splits option.splits dest: warnings_unknown)

end
