(* ===== verification/Xray.thy ===== *)
theory Xray
  imports Parser Config
begin

text \<open>
  The Xray child processes (\<open>src/src/xray/mod.rs\<close>): the bounded log tail, how the
  processes of this service are recognised after a crash, the reservation of ports, the
  configuration of a single and of a batch session, and the life of a session from the
  spawn to the removal of its files.

  What the operating system answers (a bind, a connect, the exit status) is an argument.
  Effects on it are listed in the order they happen.
\<close>

section \<open>The log tail\<close>

record ProcessLogs =
  pl_stdout :: string
  pl_stderr :: string

definition xray_output_limit_bytes :: nat where "xray_output_limit_bytes = 32 * 1024"
definition xray_config_prefix :: string where "xray_config_prefix = ''proxy-fleet-xray-''"

definition bounded_tail :: "string \<Rightarrow> string \<Rightarrow> string" where
  "bounded_tail target bytes =
     (let t = target @ bytes
      in if xray_output_limit_bytes < length t then drop (length t - xray_output_limit_bytes) t else t)"

definition log_append :: "bool \<Rightarrow> string \<Rightarrow> ProcessLogs \<Rightarrow> ProcessLogs" where
  "log_append is_stderr bytes l =
     (if is_stderr then l\<lparr>pl_stderr := bounded_tail (pl_stderr l) bytes\<rparr>
      else l\<lparr>pl_stdout := bounded_tail (pl_stdout l) bytes\<rparr>)"

text \<open>The reader task of one pipe: what each read gave, until the end or an error.\<close>

datatype pipe_read = Bytes string | ReadFailed

fun drain_output :: "bool \<Rightarrow> pipe_read list \<Rightarrow> ProcessLogs \<Rightarrow> ProcessLogs" where
  "drain_output is_stderr [] l = l"
| "drain_output is_stderr (Bytes bs # rs) l =
     (if bs = [] then l else drain_output is_stderr rs (log_append is_stderr bs l))"
| "drain_output is_stderr (ReadFailed # rs) l = l"

lemma bounded_tail_suffix: "suffix (bounded_tail target bytes) (target @ bytes)"
  unfolding bounded_tail_def Let_def by (simp only: suffix_drop suffix_order.refl split: if_split) simp

lemma bounded_tail_length: "length (bounded_tail target bytes) \<le> xray_output_limit_bytes"
  unfolding bounded_tail_def Let_def by (simp only: length_drop split: if_split) linarith

text \<open>What an error message quotes of the output: the error output if there is any.\<close>

definition log_summary :: "ProcessLogs \<Rightarrow> string" where
  "log_summary l =
     take_chars 2000 (trim (utf8_lossy (if pl_stderr l = [] then pl_stdout l else pl_stderr l)))"

lemma summary_short: "char_count (log_summary l) \<le> 2000"
  unfolding log_summary_def by (rule take_chars_count)

definition logs_bounded :: "ProcessLogs \<Rightarrow> bool" where
  "logs_bounded l \<longleftrightarrow> length (pl_stdout l) \<le> xray_output_limit_bytes \<and>
     length (pl_stderr l) \<le> xray_output_limit_bytes"

lemma drain_output_bounded: "logs_bounded l \<Longrightarrow> logs_bounded (drain_output e rs l)"
  by (induction e rs l rule: drain_output.induct)
    (auto simp: logs_bounded_def log_append_def bounded_tail_length)

section \<open>The version of the binary\<close>

datatype version_run =
  VersionElapsed
| VersionIo string
| VersionExit bool string string string  \<comment> \<open>success, the status as text, the bytes of both outputs\<close>

definition detect_version :: "version_run \<Rightarrow> string + string" where
  "detect_version r =
     (case r of
        VersionElapsed \<Rightarrow> Inl ''timed out while reading Xray version''
      | VersionIo e \<Rightarrow> Inl e
      | VersionExit success status out err \<Rightarrow>
          bind_e (ensure success (''Xray version command exited with '' @ status @ '': '' @ trim (utf8_lossy err))) (\<lambda>_.
          let version = trim (case str_lines (utf8_lossy out) of [] \<Rightarrow> [] | l # _ \<Rightarrow> l)
          in bind_e (ensure (version \<noteq> []) ''Xray version command produced no version'') (\<lambda>_.
             Inr version)))"

section \<open>Recognising the processes of a crashed service\<close>

text \<open>\<open>Path::file_name\<close>: the last component, if it is a normal one. A single dot and
  empty components do not count.\<close>

definition file_name :: "string \<Rightarrow> string option" where
  "file_name path =
     (let parts = filter (\<lambda>p. p \<noteq> [] \<and> p \<noteq> ''.'') (split_char (CHR ''/'') path)
      in if parts = [] \<or> last parts = ''..'' then None else Some (last parts))"

abbreviation nul :: char where "nul \<equiv> CHR 0x00"

fun marked_pair :: "string list \<Rightarrow> bool" where
  "marked_pair (a # b # args) =
     ((a = ''-config'' \<and> (case file_name b of None \<Rightarrow> False
         | Some n \<Rightarrow> starts_with n xray_config_prefix)) \<or> marked_pair (b # args))"
| "marked_pair args = False"

definition owned_xray_command :: "string \<Rightarrow> bool" where
  "owned_xray_command cmdline = marked_pair (filter (\<lambda>a. a \<noteq> []) (split_char nul cmdline))"

text \<open>The command line of a child, as \<open>/proc\<close> shows it.\<close>

definition spawn_args :: "string \<Rightarrow> string \<Rightarrow> string list" where
  "spawn_args binary config_path = [binary, ''run'', ''-config'', config_path]"

definition proc_cmdline :: "string list \<Rightarrow> string" where
  "proc_cmdline args = concat (map (\<lambda>a. a @ [nul]) args)"

definition single_config_path :: "string \<Rightarrow> string \<Rightarrow> string" where
  "single_config_path dir uid = dir @ ''/proxy-fleet-xray-'' @ uid @ ''.json''"

definition batch_config_path :: "string \<Rightarrow> string \<Rightarrow> string" where
  "batch_config_path dir uid = dir @ ''/proxy-fleet-xray-batch-'' @ uid @ ''.json''"

text \<open>An entry of \<open>/proc\<close>: its process id when its name is one, its command line when it can
  be read, and what the two signals answered (to the group, to the process).\<close>

record proc_entry =
  pe_pid :: "int option"
  pe_cmdline :: "string option"
  pe_group_signalled :: bool
  pe_process_signalled :: bool

definition terminate_orphan :: "proc_entry \<Rightarrow> bool" where
  "terminate_orphan e = (pe_group_signalled e \<or> pe_process_signalled e)"

definition orphan :: "proc_entry \<Rightarrow> bool" where
  "orphan e = (pe_pid e \<noteq> None \<and>
     (case pe_cmdline e of None \<Rightarrow> False | Some c \<Rightarrow> owned_xray_command c))"

text \<open>How many were stopped, and what is left in the temporary directory.\<close>

definition cleanup_project_orphans :: "proc_entry list \<Rightarrow> string list \<Rightarrow> nat \<times> string list" where
  "cleanup_project_orphans procs files =
     (length (filter (\<lambda>e. orphan e \<and> terminate_orphan e) procs),
      filter (\<lambda>n. \<not> starts_with n xray_config_prefix) files)"

lemma split_char_append: "split_char ch (a @ ch # s) = split_char ch a @ split_char ch s"
  by (induction a) (auto split: list.splits)

lemma split_char_single [simp]: "ch \<notin> set a \<Longrightarrow> split_char ch a = [a]"
  by (induction a) auto

lemma split_char_last_append: "ch \<notin> set b \<Longrightarrow> last (split_char ch (a @ ch # b)) = b"
  by (simp add: split_char_append)

lemma split_proc_cmdline:
  "\<forall>a \<in> set args. nul \<notin> set a \<Longrightarrow> split_char nul (proc_cmdline args) = args @ [[]]"
  by (induction args) (simp_all add: proc_cmdline_def split_char_append)

lemma last_filter_keep: "xs \<noteq> [] \<Longrightarrow> P (last xs) \<Longrightarrow> last (filter P xs) = last xs"
  by (induction xs) (auto simp: filter_empty_conv)

lemma file_name_join:
  assumes "CHR ''/'' \<notin> set n" and "n \<notin> {[], ''.'', ''..''}"
  shows "file_name (dir @ CHR ''/'' # n) = Some n"
proof -
  let ?parts = "split_char (CHR ''/'') (dir @ CHR ''/'' # n)"
  have l: "last ?parts = n" using assms(1) by (rule split_char_last_append)
  then have "last (filter (\<lambda>p. p \<noteq> [] \<and> p \<noteq> ''.'') ?parts) = n"
    using assms(2) by (subst last_filter_keep) auto
  moreover have "n \<in> set ?parts" using l last_in_set [of ?parts] by simp
  then have "filter (\<lambda>p. p \<noteq> [] \<and> p \<noteq> ''.'') ?parts \<noteq> []"
    using assms(2) by (auto simp: filter_empty_conv)
  ultimately show ?thesis using assms(2) by (simp add: file_name_def Let_def)
qed

section \<open>Ports\<close>

text \<open>
  The reservations are shared by every task of the process. While a task waits for a
  bind, others reserve and release: \<open>others p S\<close> is the set they leave when the wait for
  port \<open>p\<close> is over.
\<close>

definition range_ports :: "PortRange \<Rightarrow> u16 list" where
  "range_ports r = map of_nat [unat (pr_start r) ..< Suc (unat (pr_end r))]"

fun allocate_port ::
  "(u16 \<Rightarrow> bool) \<Rightarrow> (u16 \<Rightarrow> u16 set \<Rightarrow> u16 set) \<Rightarrow> u16 list \<Rightarrow> u16 set \<Rightarrow> (string + u16) \<times> u16 set" where
  "allocate_port bindable others [] S = (Inl ''no available test port'', S)"
| "allocate_port bindable others (p # ps) S =
     (if p \<in> S then allocate_port bindable others ps S
      else let S' = others p S
           in if bindable p \<and> p \<notin> S' then (Inr p, insert p S')
              else allocate_port bindable others ps S')"

fun reserve_ports ::
  "(u16 \<Rightarrow> bool) \<Rightarrow> (u16 \<Rightarrow> u16 set \<Rightarrow> u16 set) \<Rightarrow> nat \<Rightarrow> u16 list \<Rightarrow> u16 list \<Rightarrow> u16 set \<Rightarrow>
   u16 list \<times> u16 set" where
  "reserve_ports bindable others n [] got S = (got, S)"
| "reserve_ports bindable others n (p # ps) got S =
     (if length got = n then (got, S)
      else if p \<in> S then reserve_ports bindable others n ps got S
      else let S' = others p S
           in if bindable p \<and> p \<notin> S' then reserve_ports bindable others n ps (got @ [p]) (insert p S')
              else reserve_ports bindable others n ps got S')"

text \<open>When there are too few, the reservations made are dropped with the list that holds them.\<close>

definition allocate_ports ::
  "(u16 \<Rightarrow> bool) \<Rightarrow> (u16 \<Rightarrow> u16 set \<Rightarrow> u16 set) \<Rightarrow> PortRange \<Rightarrow> nat \<Rightarrow> u16 set \<Rightarrow>
   (string + u16 list) \<times> u16 set" where
  "allocate_ports bindable others r n S =
     (case reserve_ports bindable others n (range_ports r) [] S of (got, S') \<Rightarrow>
        if length got = n then (Inr got, S')
        else (Inl ''not enough available test ports'', S' - set got))"

lemma unat_u16_less: "unat (p :: u16) < 65536"
  using unsigned_less [of p] by simp

lemma unat_u16_of_nat: "n < 65536 \<Longrightarrow> unat (of_nat n :: u16) = n"
  by (simp add: unsigned_of_nat take_bit_eq_mod)

lemma distinct_range_ports: "distinct (range_ports r)"
proof -
  have "inj_on (of_nat :: nat \<Rightarrow> u16) {unat (pr_start r) ..< Suc (unat (pr_end r))}"
    using unat_u16_less [of "pr_end r"]
    by (intro inj_on_inverseI [where g = unat]) (simp add: unat_u16_of_nat)
  then show ?thesis by (simp only: range_ports_def distinct_map distinct_upt set_upt)
qed

lemma set_range_ports: "set (range_ports r) = {p. pr_start r \<le> p \<and> p \<le> pr_end r}"
proof -
  have "p \<in> set (range_ports r) \<longleftrightarrow> pr_start r \<le> p \<and> p \<le> pr_end r" for p
  proof
    assume "p \<in> set (range_ports r)"
    then obtain n where n: "unat (pr_start r) \<le> n" "n \<le> unat (pr_end r)" "p = of_nat n"
      by (auto simp: range_ports_def)
    moreover from this have "unat p = n"
      using unat_u16_less [of "pr_end r"] by (simp add: unat_u16_of_nat)
    ultimately show "pr_start r \<le> p \<and> p \<le> pr_end r" by (simp add: word_le_nat_alt)
  next
    assume "pr_start r \<le> p \<and> p \<le> pr_end r"
    then have "unat p \<in> {unat (pr_start r) ..< Suc (unat (pr_end r))}" by (simp add: word_le_nat_alt)
    then have "of_nat (unat p) \<in> set (range_ports r)" unfolding range_ports_def set_map set_upt by (rule imageI)
    then show "p \<in> set (range_ports r)" by simp
  qed
  then show ?thesis by blast
qed

lemma reserve_ports_sound:
  "reserve_ports bindable others n ps got S = (got', S') \<Longrightarrow> distinct (got @ ps) \<Longrightarrow> length got \<le> n \<Longrightarrow>
     distinct got' \<and> set got' \<subseteq> set got \<union> {p \<in> set ps. bindable p} \<and> length got' \<le> n"
proof (induction bindable others n ps got S rule: reserve_ports.induct)
  case (2 bindable others n p ps got S)
  then show ?case by (fastforce simp: Let_def split: if_splits)
qed auto

text \<open>With nobody interfering, the ports are the first free ones of the range.\<close>

lemma reserve_ports_alone:
  "distinct ps \<Longrightarrow> length got \<le> n \<Longrightarrow>
   reserve_ports bindable (\<lambda>_ S. S) n ps got S =
     (let new = take (n - length got) (filter (\<lambda>p. bindable p \<and> p \<notin> S) ps)
      in (got @ new, S \<union> set new))"
proof (induction ps arbitrary: got S)
  case (Cons p ps)
  show ?case
  proof (cases "length got = n")
    case False
    then obtain k where k: "n - length got = Suc k" using Cons.prems(2) by (cases "n - length got") auto
    have *: "filter (\<lambda>q. bindable q \<and> q \<noteq> p \<and> q \<notin> S) ps = filter (\<lambda>q. bindable q \<and> q \<notin> S) ps"
      using Cons.prems(1) by (intro filter_cong) auto
    have k': "n - Suc (length got) = k" using k by simp
    show ?thesis
      using Cons False k k' * by (auto simp: Let_def)
  qed simp
qed simp

locale port_pool =
  fixes alloc :: "nat \<Rightarrow> 's \<Rightarrow> (string + 'p list) \<times> 's"
    and release :: "'p list \<Rightarrow> 's \<Rightarrow> 's"
  assumes granted: "alloc n s = (Inr ps, s') \<Longrightarrow> length ps = n \<and> distinct ps"
begin

text \<open>Zipped with the granted ports, every client has a port of its own.\<close>

lemma own_ports:
  assumes "alloc (length xs) s = (Inr ps, s')"
  shows "map fst (zip xs ps) = xs \<and> distinct (map snd (zip xs ps))"
  using granted [OF assms] by simp

end

interpretation tests: port_pool "allocate_ports bindable others r" "\<lambda>ps S. S - set ps"
  using reserve_ports_sound [of _ _ _ "range_ports r" "[]"]
  by unfold_locales (auto simp: allocate_ports_def distinct_range_ports split: prod.splits if_splits)

section \<open>Session configurations\<close>

definition log_warning :: "string \<times> json" where
  "log_warning = (''log'', json_obj [(''loglevel'', JStr ''warning'')])"

definition single_config :: "json \<Rightarrow> string \<Rightarrow> u16 \<Rightarrow> json" where
  "single_config outbound listen port =
     json_obj [log_warning,
       (''inbounds'', JArr [json_obj [(''listen'', JStr listen), (''port'', JInt (uint port)),
          (''protocol'', JStr ''socks''), (''settings'', json_obj [(''udp'', JBool True)])]]),
       (''outbounds'', JArr [outbound])]"

definition in_tag :: "nat \<Rightarrow> string" where "in_tag i = ''in-'' @ show_nat i"
definition out_tag :: "nat \<Rightarrow> string" where "out_tag i = ''out-'' @ show_nat i"

definition batch_inbound :: "nat \<Rightarrow> u16 \<Rightarrow> json" where
  "batch_inbound i port =
     json_obj [(''tag'', JStr (in_tag i)), (''listen'', JStr ''127.0.0.1''), (''port'', JInt (uint port)),
               (''protocol'', JStr ''socks''), (''settings'', json_obj [(''udp'', JBool False)])]"

definition batch_rule :: "nat \<Rightarrow> json" where
  "batch_rule i =
     json_obj [(''type'', JStr ''field''), (''inboundTag'', JArr [JStr (in_tag i)]),
               (''outboundTag'', JStr (out_tag i))]"

text \<open>The inbound, outbound and rule of each pair, from a first index on.\<close>

fun batch_parts :: "libs \<Rightarrow> nat \<Rightarrow> (ParsedProxy \<times> u16) list \<Rightarrow> string + (json \<times> json \<times> json) list" where
  "batch_parts L i [] = Inr []"
| "batch_parts L i ((p, port) # ps) =
     bind_e (xray_outbound L p) (\<lambda>outbound.
     bind_e (batch_parts L (Suc i) ps) (\<lambda>rest.
     Inr ((batch_inbound i port, json_insert ''tag'' (JStr (out_tag i)) outbound, batch_rule i) # rest)))"

definition batch_config :: "libs \<Rightarrow> ParsedProxy list \<Rightarrow> u16 list \<Rightarrow> string + json" where
  "batch_config L proxies ports =
     bind_e (ensure (length proxies = length ports \<and> proxies \<noteq> []) ''invalid Xray batch'') (\<lambda>_.
     bind_e (batch_parts L 0 (zip proxies ports)) (\<lambda>ps.
     Inr (json_obj [log_warning,
       (''inbounds'', JArr (map fst ps)),
       (''outbounds'', JArr (map (fst \<circ> snd) ps)),
       (''routing'', json_obj [(''domainStrategy'', JStr ''AsIs''),
                               (''rules'', JArr (map (snd \<circ> snd) ps))])])))"

lemma batch_parts_nth:
  "batch_parts L k ps = Inr parts \<Longrightarrow>
     length parts = length ps \<and>
     (\<forall>i < length ps. \<exists>outbound. xray_outbound L (fst (ps ! i)) = Inr outbound \<and>
        parts ! i = (batch_inbound (k + i) (snd (ps ! i)),
          json_insert ''tag'' (JStr (out_tag (k + i))) outbound, batch_rule (k + i)))"
proof (induction L k ps arbitrary: parts rule: batch_parts.induct)
  case (2 L k p port ps)
  then obtain outbound rest where *: "xray_outbound L p = Inr outbound"
    "batch_parts L (Suc k) ps = Inr rest"
    "parts = (batch_inbound k port, json_insert ''tag'' (JStr (out_tag k)) outbound, batch_rule k) # rest"
    by (auto simp: bind_e_Inr)
  show ?case
    using "2.IH" [OF *(2)] * by (auto simp: nth_Cons split: nat.splits)
qed simp

section \<open>Sessions\<close>

datatype child_status = StillRunning | ChildExited string | InspectError string
datatype wait_outcome = WaitReaped | WaitError | WaitElapsed

datatype xray_effect =
  WriteConfig json | SpawnChild | SendTerm | SendKill | ForceKill | Reaped | JoinDrains | AbortDrains | RemoveConfig

text \<open>What one attempt saw: the child's status and the ports that accepted a connection.\<close>

record ready_obs =
  ry_status :: child_status
  ry_accepts :: "u16 \<Rightarrow> bool"

record stop_obs =
  st_status :: child_status
  st_has_pid :: bool
  st_wait :: wait_outcome
  st_force_ok :: bool
  st_final_wait_ok :: bool

record start_obs =
  so_write_error :: "string option"
  so_spawn_error :: "string option"
  so_ready :: "nat \<Rightarrow> ready_obs"
  so_logs :: ProcessLogs
  so_stop :: stop_obs

text \<open>Attempts \<open>k\<close> to 29, each followed by a pause of a tenth of a second.\<close>

function wait_ready_from :: "nat \<Rightarrow> string \<Rightarrow> (nat \<Rightarrow> ready_obs) \<Rightarrow> string \<Rightarrow> u16 list \<Rightarrow> string + unit" where
  "wait_ready_from k label obs summary ports =
     (if 30 \<le> k then Inl (label @ '' did not become ready; '' @ summary)
      else case ry_status (obs k) of
        InspectError e \<Rightarrow> Inl e
      | ChildExited status \<Rightarrow> Inl (label @ '' exited during startup: '' @ status @ ''; '' @ summary)
      | StillRunning \<Rightarrow>
          if list_all (ry_accepts (obs k)) ports then Inr ()
          else wait_ready_from (Suc k) label obs summary ports)"
  by pat_completeness auto
termination by (relation "measure (\<lambda>(k, _). 30 - k)") auto

declare wait_ready_from.simps [simp del]

definition terminate_and_reap :: "stop_obs \<Rightarrow> xray_effect list" where
  "terminate_and_reap w =
     (case st_status w of
        ChildExited _ \<Rightarrow> [Reaped]
      | _ \<Rightarrow>
         (if st_has_pid w then [SendTerm] else []) @
         (case st_wait w of
            WaitReaped \<Rightarrow> [Reaped]
          | WaitError \<Rightarrow> []
          | WaitElapsed \<Rightarrow>
              (if st_has_pid w then [SendKill] else []) @
              (if st_force_ok w then ForceKill # (if st_final_wait_ok w then [Reaped] else []) else [])))"

definition stop_session :: "stop_obs \<Rightarrow> xray_effect list" where
  "stop_session w = terminate_and_reap w @ [JoinDrains, RemoveConfig]"

text \<open>
  The \<open>Drop\<close> implementation. A child that was reaped has no process id left and cannot be killed
  any more. A session that is dropped without having been stopped has its readers aborted.
\<close>

definition drop_session :: "bool \<Rightarrow> bool \<Rightarrow> bool \<Rightarrow> xray_effect list" where
  "drop_session reaped joined kill_ok =
     (if reaped then [] else SendKill # (if kill_ok then [ForceKill] else [])) @
     (if joined then [] else [AbortDrains]) @ [RemoveConfig]"

definition end_session :: "stop_obs \<Rightarrow> bool \<Rightarrow> xray_effect list" where
  "end_session w kill_ok =
     stop_session w @ drop_session (Reaped \<in> set (stop_session w)) True kill_ok"

text \<open>From a configuration to a session that serves its ports, or to the error.\<close>

definition start_session ::
  "string \<Rightarrow> start_obs \<Rightarrow> u16 list \<Rightarrow> string + json \<Rightarrow> (string + unit) \<times> xray_effect list" where
  "start_session label w ports config =
     (case config of
        Inl e \<Rightarrow> (Inl e, [])
      | Inr j \<Rightarrow>
         (case so_write_error w of
            Some e \<Rightarrow> (Inl e, [])
          | None \<Rightarrow>
             (case so_spawn_error w of
                Some e \<Rightarrow> (Inl e, [WriteConfig j])
              | None \<Rightarrow>
                 (case wait_ready_from 0 label (so_ready w) (log_summary (so_logs w)) ports of
                    Inl e \<Rightarrow> (Inl e, [WriteConfig j, SpawnChild] @ stop_session (so_stop w))
                  | Inr _ \<Rightarrow> (Inr (), [WriteConfig j, SpawnChild])))))"

definition start_at_port ::
  "libs \<Rightarrow> start_obs \<Rightarrow> ParsedProxy \<Rightarrow> u16 \<Rightarrow> string \<Rightarrow> (string + unit) \<times> xray_effect list" where
  "start_at_port L w p port listen =
     start_session ''Xray'' w [port]
       (bind_e (xray_outbound L p) (\<lambda>outbound. Inr (single_config outbound listen port)))"

definition start_batch ::
  "libs \<Rightarrow> start_obs \<Rightarrow> ParsedProxy list \<Rightarrow> u16 list \<Rightarrow> (string + unit) \<times> xray_effect list" where
  "start_batch L w proxies ports =
     start_session ''Xray batch'' w ports (batch_config L proxies ports)"

lemma wait_ready_from_Inr:
  "wait_ready_from k label obs summary ports = Inr u \<Longrightarrow>
     \<exists>i. k \<le> i \<and> i < 30 \<and> ry_status (obs i) = StillRunning \<and> list_all (ry_accepts (obs i)) ports"
proof (induction k label obs summary ports rule: wait_ready_from.induct)
  case (1 k label obs summary ports)
  show ?case
  proof (cases "30 \<le> k \<or> ry_status (obs k) \<noteq> StillRunning \<or> list_all (ry_accepts (obs k)) ports")
    case True
    with "1.prems" show ?thesis
      by (subst (asm) wait_ready_from.simps) (auto split: if_splits child_status.splits)
  next
    case False
    then have "wait_ready_from (Suc k) label obs summary ports = Inr u"
      using "1.prems" by (subst (asm) wait_ready_from.simps) simp
    with "1.IH" False show ?thesis by (metis Suc_leD)
  qed
qed

lemma single_obj [simp]: "json_obj [(k, v)] = JObj [(k, v)]"
  by (simp add: json_obj_def bt_collect_def)

lemma retagged:
  assumes "xray_outbound L p = Inr outbound"
  shows "json_get ''tag'' (json_insert ''tag'' t outbound) = Some t \<and>
    json_get ''settings'' (json_insert ''tag'' t outbound) = json_get ''settings'' outbound"
proof -
  from xray_outbound_shape [OF assms] obtain kvs where "outbound = json_obj kvs"
    by (auto simp: outbound_shape_def outbound_json_def)
  then show ?thesis
    by (simp add: json_obj_def map_of_bt_insert bt_collect_ok)
qed

lemma outbound_server:
  assumes "xray_outbound L p = Inr outbound"
  shows "\<exists>grp server. json_get ''settings'' outbound = Some (JObj [(grp, JArr [server])]) \<and>
    json_get ''address'' server = Some (JStr (pp_address p)) \<and>
    json_get ''port'' server = Some (JInt (uint (pp_port p)))"
proof -
  from xray_outbound_shape [OF assms] obtain protocol grp rest rest' st
    where "outbound = outbound_json protocol grp (json_obj (endpoint_fields p @ rest)) rest'"
      "fst ` set rest \<inter> {''address'', ''port''} = {}" "set rest' \<subseteq> {(''streamSettings'', st), mux_off}"
    by (auto simp: outbound_shape_def)
  with outbound_json_gets(3) [OF this(1,3)] endpoint_gets [OF this(2), of p] show ?thesis by blast
qed

section \<open>Properties\<close>

text \<open>Port allocation: whatever the other tasks reserve and release meanwhile, the granted
  ports are as many as asked for, all different, in the configured range and bindable.
  When nobody interferes they are the first free ports of the range and are reserved
  afterwards; when too few are free the call fails and leaves no reservation behind.\<close>

theorem allocate_ports_exact:
  "(case fst (allocate_ports bindable others r n S) of
      Inl _ \<Rightarrow> True
    | Inr ps \<Rightarrow> length ps = n \<and> distinct ps \<and>
        set ps \<subseteq> {p. pr_start r \<le> p \<and> p \<le> pr_end r \<and> bindable p}) \<and>
   allocate_ports bindable (\<lambda>_ S. S) r n S =
     (let free = filter (\<lambda>p. bindable p \<and> p \<notin> S) (range_ports r)
      in if n \<le> length free then (Inr (take n free), S \<union> set (take n free))
         else (Inl ''not enough available test ports'', S))"
proof (rule conjI)
  obtain got S' where *: "reserve_ports bindable others n (range_ports r) [] S = (got, S')"
    by fastforce
  with reserve_ports_sound [OF *] show "case fst (allocate_ports bindable others r n S) of
      Inl _ \<Rightarrow> True
    | Inr ps \<Rightarrow> length ps = n \<and> distinct ps \<and>
        set ps \<subseteq> {p. pr_start r \<le> p \<and> p \<le> pr_end r \<and> bindable p}"
    by (auto simp: allocate_ports_def distinct_range_ports set_range_ports)
next
  let ?free = "filter (\<lambda>p. bindable p \<and> p \<notin> S) (range_ports r)"
  have "S \<union> set ?free - set ?free = S" by auto
  then show "allocate_ports bindable (\<lambda>_ S. S) r n S =
     (let free = ?free
      in if n \<le> length free then (Inr (take n free), S \<union> set (take n free))
         else (Inl ''not enough available test ports'', S))"
    by (simp add: allocate_ports_def reserve_ports_alone distinct_range_ports Let_def)
qed

text \<open>C38. A batch session is unambiguous: the i-th inbound listens on the port reserved for the
  i-th proxy, only the i-th rule names it, that rule leads to the i-th outbound, and that
  outbound's only server is the i-th proxy. So what is measured through a port is
  measured of one proxy.\<close>

theorem batch_pins_candidates:
  assumes "batch_config L proxies ports = Inr j" and "i < length proxies"
  shows "length ports = length proxies \<and>
    (\<exists>inbounds outbounds routing rules.
      json_get ''inbounds'' j = Some (JArr inbounds) \<and> json_get ''outbounds'' j = Some (JArr outbounds) \<and>
      json_get ''routing'' j = Some routing \<and> json_get ''rules'' routing = Some (JArr rules) \<and>
      length inbounds = length proxies \<and> length outbounds = length proxies \<and>
      length rules = length proxies \<and>
      json_get ''port'' (inbounds ! i) = Some (JInt (uint (ports ! i))) \<and>
      (\<forall>k < length proxies. json_get ''inboundTag'' (rules ! k) =
          map_option (\<lambda>t. JArr [t]) (json_get ''tag'' (inbounds ! i)) \<longleftrightarrow> k = i) \<and>
      (\<forall>k < length proxies. json_get ''outboundTag'' (rules ! i) = json_get ''tag'' (outbounds ! k)
          \<longleftrightarrow> k = i) \<and>
      (\<exists>grp server. json_get ''settings'' (outbounds ! i) = Some (JObj [(grp, JArr [server])]) \<and>
         json_get ''address'' server = Some (JStr (pp_address (proxies ! i))) \<and>
         json_get ''port'' server = Some (JInt (uint (pp_port (proxies ! i))))))"
proof -
  from assms(1) obtain parts where len: "length proxies = length ports"
    and p: "batch_parts L 0 (zip proxies ports) = Inr parts"
    and j: "j = json_obj [log_warning, (''inbounds'', JArr (map fst parts)),
       (''outbounds'', JArr (map (fst \<circ> snd) parts)),
       (''routing'', json_obj [(''domainStrategy'', JStr ''AsIs''),
                               (''rules'', JArr (map (snd \<circ> snd) parts))])]"
    by (auto simp: batch_config_def bind_e_Inr)
  have n: "length parts = length proxies"
    and part: "\<And>k. k < length proxies \<Longrightarrow> \<exists>outbound. xray_outbound L (proxies ! k) = Inr outbound \<and>
        parts ! k = (batch_inbound k (ports ! k),
          json_insert ''tag'' (JStr (out_tag k)) outbound, batch_rule k)"
    using batch_parts_nth [OF p] len by auto
  have tag: "json_get ''tag'' (fst (snd (parts ! k))) = Some (JStr (out_tag k))"
    if "k < length proxies" for k
    using part [OF that] retagged by fastforce
  have server: "\<exists>grp server. json_get ''settings'' (fst (snd (parts ! i))) = Some (JObj [(grp, JArr [server])]) \<and>
         json_get ''address'' server = Some (JStr (pp_address (proxies ! i))) \<and>
         json_get ''port'' server = Some (JInt (uint (pp_port (proxies ! i))))"
    using part [OF assms(2)] outbound_server retagged by fastforce
  have inb: "fst (parts ! k) = batch_inbound k (ports ! k)" "snd (snd (parts ! k)) = batch_rule k"
    if "k < length proxies" for k
    using part [OF that] by auto
  have tags: "in_tag a = in_tag b \<longleftrightarrow> a = b" "out_tag a = out_tag b \<longleftrightarrow> a = b" for a b
    by (simp_all add: in_tag_def out_tag_def)
  show ?thesis
    using assms(2) n len server tag inb
    by (auto simp: j json_get_obj batch_inbound_def batch_rule_def tags log_warning_def)
qed

theorem batch_pins_candidates_witness:
  "\<exists>j inbounds. batch_config sample_libs [sample_proxy, sample_proxy] [32000, 32001] = Inr j \<and>
     json_get ''inbounds'' j = Some (JArr inbounds) \<and>
     json_get ''port'' (inbounds ! 1) = Some (JInt 32001)"
proof -
  have "\<not> isl (batch_config sample_libs [sample_proxy, sample_proxy] [32000, 32001])" by code_simp
  then obtain j where j: "batch_config sample_libs [sample_proxy, sample_proxy] [32000, 32001] = Inr j"
    by (cases "batch_config sample_libs [sample_proxy, sample_proxy] [32000, 32001]") auto
  have "1 < length [sample_proxy, sample_proxy]" by simp
  from batch_pins_candidates [OF j this] obtain inbounds
    where "json_get ''inbounds'' j = Some (JArr inbounds)"
      "json_get ''port'' (inbounds ! 1) = Some (JInt (uint ([32000, 32001 :: u16] ! 1)))"
    by blast
  with j show ?thesis by auto
qed

text \<open>C37. Orphans are exactly recognisable: the command line of every child this service spawns, with
  a single or a batch configuration, is recognised after a crash, and a process started
  without a \<open>-config\<close> argument never is, so nothing else is signalled.\<close>

theorem own_children_recognised:
  assumes "nul \<notin> set binary" and "nul \<notin> set dir" and "set uid \<inter> {nul, CHR ''/''} = {}"
    and "binary \<noteq> []" and "\<forall>a \<in> set args. nul \<notin> set a" and "''-config'' \<notin> set args"
  shows "owned_xray_command (proc_cmdline (spawn_args binary (single_config_path dir uid))) \<and>
    owned_xray_command (proc_cmdline (spawn_args binary (batch_config_path dir uid))) \<and>
    \<not> owned_xray_command (proc_cmdline args)"
proof (intro conjI)
  have f: "file_name (single_config_path dir uid) = Some (''proxy-fleet-xray-'' @ uid @ ''.json'')"
    "file_name (batch_config_path dir uid) = Some (''proxy-fleet-xray-batch-'' @ uid @ ''.json'')"
    using file_name_join [of "''proxy-fleet-xray-'' @ uid @ ''.json''" dir]
      file_name_join [of "''proxy-fleet-xray-batch-'' @ uid @ ''.json''" dir] assms(3)
    by (auto simp: single_config_path_def batch_config_path_def)
  have n: "\<forall>a \<in> set (spawn_args binary (single_config_path dir uid)). nul \<notin> set a"
    "\<forall>a \<in> set (spawn_args binary (batch_config_path dir uid)). nul \<notin> set a"
    using assms(1-3) by (auto simp: spawn_args_def single_config_path_def batch_config_path_def)
  have "single_config_path dir uid \<noteq> []" "batch_config_path dir uid \<noteq> []"
    by (simp_all add: single_config_path_def batch_config_path_def)
  then show "owned_xray_command (proc_cmdline (spawn_args binary (single_config_path dir uid)))"
    "owned_xray_command (proc_cmdline (spawn_args binary (batch_config_path dir uid)))"
    unfolding owned_xray_command_def split_proc_cmdline [OF n(1)] split_proc_cmdline [OF n(2)]
    using assms(4) f by (simp_all add: spawn_args_def starts_with_iff xray_config_prefix_def)
  have "marked_pair xs \<Longrightarrow> ''-config'' \<in> set xs" for xs
    by (induction xs rule: marked_pair.induct) auto
  then show "\<not> owned_xray_command (proc_cmdline args)"
    using assms(6) by (fastforce simp: owned_xray_command_def split_proc_cmdline [OF assms(5)])
qed

theorem own_children_recognised_witness:
  "owned_xray_command (proc_cmdline (spawn_args ''xray'' (batch_config_path ''/tmp'' ''0a1b''))) \<and>
   \<not> owned_xray_command (proc_cmdline [''xray'', ''version''])"
  using own_children_recognised [of "''xray''" "''/tmp''" "''0a1b''" "[''xray'', ''version'']"] by simp

text \<open>The life of a session's files and child: a start that succeeds leaves one configuration and
  one child, which was running and accepted a connection on every port within 30
  attempts. A start that fails after the spawn stops the child (reaped unless the
  system refused, killed only after the grace period of a termination signal) and
  removes the configuration last. A start whose spawn fails leaves the configuration
  file, with the proxy's credentials, behind.\<close>

theorem session_lifecycle:
  "(case start_session label w ports config of
      (Inr _, es) \<Rightarrow> (\<exists>j i. config = Inr j \<and> es = [WriteConfig j, SpawnChild] \<and> i < 30 \<and>
         ry_status (so_ready w i) = StillRunning \<and> (\<forall>p \<in> set ports. ry_accepts (so_ready w i) p))
    | (Inl _, es) \<Rightarrow>
        if SpawnChild \<in> set es then last es = RemoveConfig \<and>
           (st_wait (so_stop w) = WaitReaped \<longrightarrow> Reaped \<in> set es \<and> SendKill \<notin> set es)
        else RemoveConfig \<notin> set es) \<and>
   (\<forall>j e. config = Inr j \<and> so_write_error w = None \<and> so_spawn_error w = Some e \<longrightarrow>
      start_session label w ports config = (Inl e, [WriteConfig j]))"
proof (rule conjI)
  show "case start_session label w ports config of
      (Inr _, es) \<Rightarrow> (\<exists>j i. config = Inr j \<and> es = [WriteConfig j, SpawnChild] \<and> i < 30 \<and>
         ry_status (so_ready w i) = StillRunning \<and> (\<forall>p \<in> set ports. ry_accepts (so_ready w i) p))
    | (Inl _, es) \<Rightarrow>
        if SpawnChild \<in> set es then last es = RemoveConfig \<and>
           (st_wait (so_stop w) = WaitReaped \<longrightarrow> Reaped \<in> set es \<and> SendKill \<notin> set es)
        else RemoveConfig \<notin> set es"
    by (auto simp: start_session_def stop_session_def terminate_and_reap_def list_all_iff
        split: sum.splits option.splits child_status.splits dest!: wait_ready_from_Inr)
qed (simp add: start_session_def)

text \<open>No child is left running unnoticed: however a session ends, by a stop that runs its course
  or by the drop of a task that was aborted, its child was reaped or its process group got a
  SIGKILL, and the file with the credentials of the proxy is removed last.\<close>

theorem session_end_leaves_nothing:
  "(Reaped \<in> set (end_session w kill_ok) \<or> SendKill \<in> set (end_session w kill_ok)) \<and>
   last (end_session w kill_ok) = RemoveConfig \<and>
   SendKill \<in> set (drop_session False joined kill_ok) \<and>
   last (drop_session False joined kill_ok) = RemoveConfig"
  by (auto simp: end_session_def drop_session_def)

definition calm_stop :: stop_obs where
  "calm_stop = \<lparr>st_status = StillRunning, st_has_pid = True, st_wait = WaitReaped,
     st_force_ok = True, st_final_wait_ok = True\<rparr>"

definition no_binary :: start_obs where
  "no_binary = \<lparr>so_write_error = None, so_spawn_error = Some ''starting Xray binary xray'',
     so_ready = (\<lambda>_. \<lparr>ry_status = StillRunning, ry_accepts = (\<lambda>_. True)\<rparr>),
     so_logs = \<lparr>pl_stdout = [], pl_stderr = []\<rparr>, so_stop = calm_stop\<rparr>"

theorem session_lifecycle_witness:
  "start_session ''Xray'' no_binary [32000] (Inr JNull) =
     (Inl ''starting Xray binary xray'', [WriteConfig JNull])"
  using session_lifecycle [where label = "''Xray''" and w = no_binary and ports = "[32000]"
      and config = "Inr JNull"]
  by (simp add: no_binary_def)

end
