(* ===== verification/Probe.thy ===== *)
theory Probe
  imports Xray "HOL-Library.Multiset"
begin

text \<open>
  Testing proxies (\<open>src/src/probe/mod.rs\<close>): the preflight with its DNS cache, the HTTP
  quorum and the download through a running Xray, and the batch test that splits a
  cohort when Xray does not start with it.

  What the network, the clock and the child process do is an argument: an observation
  for each request says when it was made and how it ended. Everything the code makes of
  an observation is modelled.
\<close>

section \<open>Events and reports\<close>

record ProbeEvent =
  pv_stage :: TestStage
  pv_class :: FailureClass
  pv_fast_download :: bool
  pv_latency_ms :: "real option"
  pv_download_bps :: "real option"
  pv_bytes_transferred :: "int option"
  pv_duration_ms :: "int option"
  pv_endpoint :: "string option"
  pv_detail :: json

record ProbeReport =
  pr_proxy :: "ParsedProxy option"
  pr_events :: "ProbeEvent list"

definition millis_f :: "duration \<Rightarrow> real" where
  "millis_f d = real_of_int d / 1000000"

definition secs_f :: "duration \<Rightarrow> real" where
  "secs_f d = real_of_int d / 1000000000"

definition as_millis :: "duration \<Rightarrow> int" where
  "as_millis d = d div 1000000"

definition event :: "TestStage \<Rightarrow> FailureClass \<Rightarrow> duration option \<Rightarrow> json \<Rightarrow> ProbeEvent" where
  "event stage class dur detail =
     \<lparr>pv_stage = stage, pv_class = class, pv_fast_download = False,
      pv_latency_ms = map_option millis_f dur, pv_download_bps = None,
      pv_bytes_transferred = None, pv_duration_ms = map_option as_millis dur,
      pv_endpoint = None, pv_detail = detail\<rparr>"

definition error_detail :: "string \<Rightarrow> json" where
  "error_detail e = json_obj [(''error'', JStr e)]"

section \<open>Deadlines\<close>

text \<open>What is left until the deadline, \<open>None\<close> when nothing is.\<close>

definition remaining_budget :: "instant \<Rightarrow> instant \<Rightarrow> duration option" where
  "remaining_budget deadline now = (if deadline - now \<le> 0 then None else Some (deadline - now))"

definition probe_deadline :: "instant \<Rightarrow> AppConfig \<Rightarrow> instant" where
  "probe_deadline now cfg =
     now + seconds (int (max (max (hc_candidate_batch_timeout_seconds (cfg_health cfg))
                                  (dt_timeout_seconds (cfg_download_test cfg))) 1))"

section \<open>The DNS cache and the preflight\<close>

definition dns_cache_ttl :: duration where "dns_cache_ttl = seconds (5 * 60)"
definition dns_cache_capacity :: nat where "dns_cache_capacity = 1024"

type_synonym dns_cache = "((string \<times> u16) \<times> instant \<times> string list) list"

datatype lookup = Addresses "string list" | LookupError string | LookupTimeout

record dns_obs =
  dn_cache_read_at :: instant
  dn_budget_at :: instant
  dn_lookup :: lookup
  dn_inserted_at :: instant

definition fresh_entry :: "instant \<Rightarrow> instant \<times> string list \<Rightarrow> bool" where
  "fresh_entry now e = (now - fst e < dns_cache_ttl)"

definition cache_insert :: "instant \<Rightarrow> string \<times> u16 \<Rightarrow> string list \<Rightarrow> dns_cache \<Rightarrow> dns_cache" where
  "cache_insert now key as c =
     (let c1 = (if dns_cache_capacity \<le> length c
                then (let kept = filter (\<lambda>(_, e). fresh_entry now e) c
                      in if dns_cache_capacity \<le> length kept then [] else kept)
                else c)
      in (key, now, as) # filter (\<lambda>(k, _). k \<noteq> key) c1)"

definition dns_failure :: "string \<Rightarrow> string \<Rightarrow> ProbeEvent" where
  "dns_failure e scope =
     event DnsTcp DnsFailure None (json_obj [(''error'', JStr e), (''scope'', JStr scope)])"

definition resolve_destination ::
  "dns_obs \<Rightarrow> string \<Rightarrow> u16 \<Rightarrow> instant \<Rightarrow> dns_cache \<Rightarrow> (ProbeEvent + string list \<times> string) \<times> dns_cache" where
  "resolve_destination w address port deadline c =
     (if ip_ok address then (Inr ([address], ''literal''), c)
      else case (case map_of c (address, port) of
                   Some e \<Rightarrow> if fresh_entry (dn_cache_read_at w) e then Some (snd e) else None
                 | None \<Rightarrow> None) of
        Some as \<Rightarrow> (Inr (as, ''cache''), c)
      | None \<Rightarrow>
         (case remaining_budget deadline (dn_budget_at w) of
            None \<Rightarrow> (Inl (dns_failure ''global probe deadline exceeded before DNS'' ''local_resolver''), c)
          | Some _ \<Rightarrow>
             (case dn_lookup w of
                LookupError e \<Rightarrow> (Inl (dns_failure e ''destination_resolver''), c)
              | LookupTimeout \<Rightarrow> (Inl (dns_failure ''DNS timeout'' ''destination_resolver''), c)
              | Addresses as \<Rightarrow>
                  if as = [] then (Inl (dns_failure ''no address returned'' ''destination_resolver''), c)
                  else (Inr (as, ''lookup''), cache_insert (dn_inserted_at w) (address, port) as c))))"

datatype tcp_outcome = Connected | Refused string | TcpError string | TcpElapsed

record preflight_obs =
  pf_started :: instant
  pf_dns :: dns_obs
  pf_budget_at :: instant
  pf_connect :: tcp_outcome
  pf_ended :: instant

definition preflight ::
  "preflight_obs \<Rightarrow> ParsedProxy \<Rightarrow> instant \<Rightarrow> dns_cache \<Rightarrow> (ProbeEvent + unit) \<times> dns_cache" where
  "preflight w p deadline c =
     (case resolve_destination (pf_dns w) (pp_address p) (pp_port p) deadline c of
        (Inl e, c') \<Rightarrow> (Inl e, c')
      | (Inr (addresses, dns), c') \<Rightarrow>
          (case remaining_budget deadline (pf_budget_at w) of
             None \<Rightarrow> (Inl (event DnsTcp TcpTimeout (Some (pf_budget_at w - pf_started w))
                        (error_detail ''global probe deadline exceeded before TCP'')), c')
           | Some _ \<Rightarrow>
              (let dur = Some (pf_ended w - pf_started w);
                   detail = (\<lambda>e. json_obj [(''error'', JStr e), (''dns'', JStr dns)])
               in case pf_connect w of
                    Connected \<Rightarrow> (Inr (), c')
                  | Refused e \<Rightarrow> (Inl (event DnsTcp ConnectionRefused dur (detail e)), c')
                  | TcpError e \<Rightarrow> (Inl (event DnsTcp TcpTimeout dur (detail e)), c')
                  | TcpElapsed \<Rightarrow> (Inl (event DnsTcp TcpTimeout dur (detail ''TCP timeout'')), c'))))"

section \<open>Requests through Xray\<close>

record request_error =
  re_is_timeout :: bool
  re_debug :: string
  re_display :: string

definition tls_markers :: "string list" where
  "tls_markers =
     [''tls'', ''certificate'', ''corrupt message'', ''wrong version number'', ''invalidcontenttype'']"

definition classify_request_error :: "request_error \<Rightarrow> FailureClass \<Rightarrow> FailureClass" where
  "classify_request_error e timeout =
     (if re_is_timeout e then timeout
      else if list_ex (contains (to_lower (re_debug e))) tls_markers then TlsTimeout
      else EndpointFailure)"

text \<open>One step of reading a body: when the budget was looked at, what the stream gave, and when.
  A list of steps that ends means the stream ended.\<close>

datatype stream_item = Chunk nat | StreamError string | StreamElapsed

type_synonym stream_step = "instant \<times> stream_item \<times> instant"

fun read_http_body_limited :: "nat \<Rightarrow> instant \<Rightarrow> stream_step list \<Rightarrow> nat \<Rightarrow> json + nat" where
  "read_http_body_limited limit deadline [] bytes = Inr (min bytes limit)"
| "read_http_body_limited limit deadline ((now, item, _) # steps) bytes =
     (if limit \<le> bytes then Inr (min bytes limit)
      else case remaining_budget deadline now of
        None \<Rightarrow> Inl (error_detail ''global probe deadline exceeded while reading body'')
      | Some _ \<Rightarrow>
         (case item of
            Chunk n \<Rightarrow> read_http_body_limited limit deadline steps (sat_add64 bytes n)
          | StreamError e \<Rightarrow> Inl (error_detail e)
          | StreamElapsed \<Rightarrow> Inl (error_detail ''HTTP body read deadline exceeded'')))"

datatype response = Status nat "stream_step list" | RequestFailed request_error | RequestElapsed

record request_obs =
  rq_started :: instant
  rq_budget_at :: instant
  rq_response :: response
  rq_responded_at :: instant
  rq_finished_at :: instant

definition http_ok :: "nat \<Rightarrow> bool" where "http_ok s = (200 \<le> s \<and> s < 300)"
definition http_redirect :: "nat \<Rightarrow> bool" where "http_redirect s = (300 \<le> s \<and> s < 400)"

fun keep_first :: "string list \<Rightarrow> string set \<Rightarrow> string list" where
  "keep_first [] seen = []"
| "keep_first (e # es) seen =
     (if e \<in> seen then keep_first es seen else e # keep_first es (insert e seen))"

definition http_endpoints :: "AppConfig \<Rightarrow> string list" where
  "http_endpoints cfg = keep_first (hc_test_url (cfg_health cfg) # hc_fallback_urls (cfg_health cfg)) {}"

definition download_endpoints :: "AppConfig \<Rightarrow> string list" where
  "download_endpoints cfg =
     keep_first (dt_test_url (cfg_download_test cfg) # dt_fallback_urls (cfg_download_test cfg)) {}"

subsection \<open>The download\<close>

definition max_bytes :: nat where "max_bytes = 1000000"

definition per_url_timeout :: "AppConfig \<Rightarrow> real" where
  "per_url_timeout cfg =
     min (max (dt_per_url_timeout_seconds (cfg_download_test cfg)) (1 / 10))
         (real (max (dt_timeout_seconds (cfg_download_test cfg)) 1))"

text \<open>The read loop of a download: the failure with the time it took, or the bytes read.\<close>

fun read_download :: "instant \<Rightarrow> instant \<Rightarrow> stream_step list \<Rightarrow> nat \<Rightarrow> (duration \<times> string) + nat" where
  "read_download started deadline [] bytes = Inr bytes"
| "read_download started deadline ((now, item, after) # steps) bytes =
     (if max_bytes \<le> bytes then Inr bytes
      else case remaining_budget deadline now of
        None \<Rightarrow> Inl (now - started, ''global probe deadline exceeded'')
      | Some _ \<Rightarrow>
         (case item of
            Chunk n \<Rightarrow> read_download started deadline steps (bytes + n)
          | StreamError e \<Rightarrow> Inl (after - started, e)
          | StreamElapsed \<Rightarrow> Inl (after - started, ''download stream deadline exceeded'')))"

definition measured :: "AppConfig \<Rightarrow> string \<Rightarrow> duration \<Rightarrow> nat \<Rightarrow> ProbeEvent" where
  "measured cfg endpoint dur bytes =
     (let bps = real bytes / max (secs_f dur) (1 / 1000);
          kbps = bps / 1024
      in \<lparr>pv_stage = Download,
          pv_class = (if kbps < real (dt_min_download_kbps (cfg_download_test cfg))
                      then DownloadTooSlow else Success),
          pv_fast_download = (real (dt_target_download_kbps (cfg_download_test cfg)) \<le> kbps),
          pv_latency_ms = None, pv_download_bps = Some bps,
          pv_bytes_transferred = Some (int bytes), pv_duration_ms = Some (as_millis dur),
          pv_endpoint = Some endpoint, pv_detail = json_obj [(''kbps'', JReal kbps)]\<rparr>)"

definition download_endpoint :: "AppConfig \<Rightarrow> instant \<Rightarrow> string \<Rightarrow> request_obs \<Rightarrow> ProbeEvent" where
  "download_endpoint cfg deadline endpoint w =
     (let started = rq_started w;
          failed = (\<lambda>class dur detail. (event Download class (Some dur) detail)\<lparr>pv_endpoint := Some endpoint\<rparr>)
      in case remaining_budget deadline (rq_budget_at w) of
           None \<Rightarrow> event Download DownloadTimeout (Some (rq_budget_at w - started))
                     (json_obj [(''endpoint'', JStr endpoint),
                                (''error'', JStr ''global probe deadline exceeded'')])
         | Some _ \<Rightarrow>
            (case rq_response w of
               Status s steps \<Rightarrow>
                 if \<not> http_ok s then
                   failed EndpointFailure (rq_responded_at w - started) (json_obj [(''status'', JInt (int s))])
                 else (case read_download started deadline steps 0 of
                         Inl (dur, e) \<Rightarrow> failed DownloadTimeout dur (error_detail e)
                       | Inr bytes \<Rightarrow> measured cfg endpoint (rq_finished_at w - started) bytes)
             | RequestFailed e \<Rightarrow>
                 failed (classify_request_error e DownloadTimeout) (rq_responded_at w - started)
                   (error_detail (re_display e))
             | RequestElapsed \<Rightarrow>
                 failed DownloadTimeout (rq_responded_at w - started)
                   (error_detail ''per-endpoint deadline exceeded'')))"

text \<open>
  The mirrors in order: the first that delivers or proves slow is the result (\<open>Inl\<close>);
  otherwise the failures of those tried (\<open>Inr\<close>), the list ending early when the budget is
  used up after one of them.
\<close>

fun try_mirrors ::
  "AppConfig \<Rightarrow> instant \<Rightarrow> (string \<Rightarrow> request_obs) \<Rightarrow> (string \<Rightarrow> instant) \<Rightarrow> string list \<Rightarrow>
   ProbeEvent + ProbeEvent list" where
  "try_mirrors cfg deadline obs clock [] = Inr []"
| "try_mirrors cfg deadline obs clock (e # es) =
     (let probe = download_endpoint cfg deadline e (obs e)
      in if pv_class probe = Success \<or> pv_class probe = DownloadTooSlow then Inl probe
         else if remaining_budget deadline (clock e) = None then Inr [probe]
         else (case try_mirrors cfg deadline obs clock es of
                 Inl found \<Rightarrow> Inl found
               | Inr failures \<Rightarrow> Inr (probe # failures)))"

definition download_verdict :: "ProbeEvent list \<Rightarrow> FailureClass" where
  "download_verdict failures =
     (if failures \<noteq> [] \<and> list_all (\<lambda>f. pv_class f = DownloadTimeout) failures then DownloadTimeout
      else if failures \<noteq> [] \<and> list_all (\<lambda>f. pv_class f = TlsTimeout) failures then TlsTimeout
      else EndpointFailure)"

definition download ::
  "AppConfig \<Rightarrow> instant \<Rightarrow> (string \<Rightarrow> request_obs) \<Rightarrow> (string \<Rightarrow> instant) \<Rightarrow> ProbeEvent" where
  "download cfg deadline obs clock =
     (case try_mirrors cfg deadline obs clock (take 3 (download_endpoints cfg)) of
        Inl found \<Rightarrow> found
      | Inr failures \<Rightarrow>
          \<lparr>pv_stage = Download, pv_class = download_verdict failures, pv_fast_download = False,
           pv_latency_ms = None, pv_download_bps = None, pv_bytes_transferred = None,
           pv_duration_ms = Some (foldr max (List.map_filter pv_duration_ms failures) 0),
           pv_endpoint = None,
           pv_detail = json_obj [(''attempts'', JArr (map (\<lambda>f.
             json_obj [(''endpoint'', json_opt JStr (pv_endpoint f)),
                       (''class'', JStr (class_str (pv_class f))), (''detail'', pv_detail f)]) failures))]\<rparr>)"

section \<open>The HTTP quorum\<close>

record http_success =
  hs_endpoint :: string
  hs_status :: nat
  hs_bytes :: nat
  hs_latency_ms :: real

definition success_json :: "http_success \<Rightarrow> json" where
  "success_json s =
     json_obj [(''endpoint'', JStr (hs_endpoint s)), (''status'', JInt (int (hs_status s))),
               (''bytes'', JInt (int (hs_bytes s))), (''latency_ms'', JReal (hs_latency_ms s))]"

record http_tally =
  ht_successes :: "http_success list"
  ht_timeouts :: nat
  ht_tls_failures :: nat
  ht_failures :: "json list"

definition no_tally :: http_tally where
  "no_tally = \<lparr>ht_successes = [], ht_timeouts = 0, ht_tls_failures = 0, ht_failures = []\<rparr>"

definition deadline_exceeded :: "duration \<Rightarrow> ProbeEvent" where
  "deadline_exceeded dur =
     event Relay RelayTimeout (Some dur) (error_detail ''global probe deadline exceeded'')"

text \<open>One endpoint: the tally grows, or the whole test ends at the deadline (\<open>Inl\<close>).\<close>

definition http_step ::
  "AppConfig \<Rightarrow> instant \<Rightarrow> string \<Rightarrow> request_obs \<Rightarrow> http_tally \<Rightarrow> ProbeEvent + http_tally" where
  "http_step cfg deadline endpoint w t =
     (case remaining_budget deadline (rq_budget_at w) of
        None \<Rightarrow> Inl (deadline_exceeded (rq_budget_at w - rq_started w))
      | Some _ \<Rightarrow>
         (case rq_response w of
            Status s steps \<Rightarrow>
              if http_ok s \<or> http_redirect s then
                (case read_http_body_limited (hc_http_probe_body_limit_bytes (cfg_health cfg))
                        deadline steps 0 of
                   Inr bytes \<Rightarrow> Inr (t\<lparr>ht_successes := ht_successes t @
                     [\<lparr>hs_endpoint = endpoint, hs_status = s, hs_bytes = bytes,
                       hs_latency_ms = millis_f (rq_finished_at w - rq_started w)\<rparr>]\<rparr>)
                 | Inl detail \<Rightarrow> Inr (t\<lparr>ht_failures := ht_failures t @ [detail]\<rparr>))
              else Inr (t\<lparr>ht_failures := ht_failures t @
                     [json_obj [(''endpoint'', JStr endpoint), (''status'', JInt (int s))]]\<rparr>)
          | RequestFailed e \<Rightarrow>
              (let c = classify_request_error e RelayTimeout
               in Inr (t\<lparr>ht_timeouts := ht_timeouts t + (if c = RelayTimeout then 1 else 0),
                         ht_tls_failures := ht_tls_failures t + (if c = TlsTimeout then 1 else 0),
                         ht_failures := ht_failures t @
                           [json_obj [(''endpoint'', JStr endpoint), (''error'', JStr (re_display e))]]\<rparr>))
          | RequestElapsed \<Rightarrow> Inl (deadline_exceeded (rq_responded_at w - rq_started w))))"

fun http_loop ::
  "AppConfig \<Rightarrow> instant \<Rightarrow> (string \<Rightarrow> request_obs) \<Rightarrow> string list \<Rightarrow> http_tally \<Rightarrow>
   ProbeEvent + http_tally" where
  "http_loop cfg deadline obs [] t = Inr t"
| "http_loop cfg deadline obs (e # es) t =
     bind_e (http_step cfg deadline e (obs e) t) (http_loop cfg deadline obs es)"

definition endpoint_count :: "AppConfig \<Rightarrow> nat" where
  "endpoint_count cfg =
     min (length (http_endpoints cfg)) (max (hc_http_probe_max_endpoints (cfg_health cfg)) 1)"

definition http_quorum :: "AppConfig \<Rightarrow> nat" where
  "http_quorum cfg =
     clamp 1 (max (endpoint_count cfg) 1) (hc_http_probe_success_quorum (cfg_health cfg))"

definition success_event :: "TestStage \<Rightarrow> http_success \<Rightarrow> json \<Rightarrow> ProbeEvent" where
  "success_event stage first details =
     \<lparr>pv_stage = stage, pv_class = Success, pv_fast_download = False,
      pv_latency_ms = Some (hs_latency_ms first), pv_download_bps = None,
      pv_bytes_transferred = None, pv_duration_ms = Some (rust_round (hs_latency_ms first)),
      pv_endpoint = Some (hs_endpoint first), pv_detail = details\<rparr>"

definition quorum_failure_class :: "AppConfig \<Rightarrow> http_tally \<Rightarrow> FailureClass" where
  "quorum_failure_class cfg t =
     (if ht_timeouts t = endpoint_count cfg \<and> 0 < endpoint_count cfg then RelayTimeout
      else if ht_tls_failures t = endpoint_count cfg \<and> 0 < endpoint_count cfg then TlsTimeout
      else EndpointFailure)"

record http_obs =
  ho_client_error :: "string option"
  ho_requests :: "string \<Rightarrow> request_obs"
  ho_downloads :: "string \<Rightarrow> request_obs"
  ho_clock :: "string \<Rightarrow> instant"

definition test_through_xray :: "AppConfig \<Rightarrow> http_obs \<Rightarrow> instant \<Rightarrow> bool \<Rightarrow> ProbeEvent list" where
  "test_through_xray cfg w deadline run_download =
     (case ho_client_error w of
        Some e \<Rightarrow> [event Relay LocalOverload None (error_detail e)]
      | None \<Rightarrow>
         (case http_loop cfg deadline (ho_requests w) (take (endpoint_count cfg) (http_endpoints cfg)) no_tally of
            Inl e \<Rightarrow> [e]
          | Inr t \<Rightarrow>
              if http_quorum cfg \<le> length (ht_successes t) then
                (let details = json_obj [(''quorum'', JInt (int (http_quorum cfg))),
                       (''successful'', JArr (map success_json (ht_successes t))),
                       (''failed'', JArr (ht_failures t))]
                 in [success_event Relay (hd (ht_successes t)) details,
                     success_event Http (hd (ht_successes t)) details] @
                    (if dt_enabled (cfg_download_test cfg) \<and> run_download
                     then [download cfg deadline (ho_downloads w) (ho_clock w)] else []))
              else
                [event Http (quorum_failure_class cfg t) None
                   (json_obj [(''error'', JStr ''HTTP endpoint quorum not reached''),
                              (''quorum'', JInt (int (http_quorum cfg))),
                              (''failed'', JArr (ht_failures t))])]))"

section \<open>Testing one proxy\<close>

record test_obs =
  to_deadline_at :: instant
  to_preflight :: preflight_obs
  to_cache :: dns_cache
  to_bindable :: "u16 \<Rightarrow> bool"
  to_others :: "u16 \<Rightarrow> u16 set \<Rightarrow> u16 set"
  to_start :: start_obs
  to_http :: http_obs

definition invalid_config_report :: "string \<Rightarrow> ProbeReport" where
  "invalid_config_report e =
     \<lparr>pr_proxy = None, pr_events = [event Static InvalidConfig None (error_detail e)]\<rparr>"

definition probe_test ::
  "libs \<Rightarrow> AppConfig \<Rightarrow> test_obs \<Rightarrow> string \<Rightarrow> string \<Rightarrow> u16 set \<Rightarrow> ProbeReport" where
  "probe_test L cfg w raw source S =
     (let deadline = probe_deadline (to_deadline_at w) cfg
      in case parse_share_url L raw source of
           Inl e \<Rightarrow> invalid_config_report e
         | Inr p \<Rightarrow> \<lparr>pr_proxy = Some p, pr_events =
            (case fst (preflight (to_preflight w) p deadline (to_cache w)) of
               Inl failure \<Rightarrow> [failure]
             | Inr _ \<Rightarrow>
                (case fst (allocate_port (to_bindable w) (to_others w)
                             (range_ports (ports_test (cfg_ports cfg))) S) of
                   Inl e \<Rightarrow> [event Relay LocalOverload None (error_detail e)]
                 | Inr port \<Rightarrow>
                    (case fst (start_at_port L (to_start w) p port ''127.0.0.1'') of
                       Inl e \<Rightarrow> [event Relay XrayStartFailed None (error_detail e)]
                     | Inr _ \<Rightarrow> test_through_xray cfg (to_http w) deadline True)))\<rparr>)"

section \<open>Testing a cohort\<close>

text \<open>
  Futures run concurrently and are collected as they finish: \<open>order\<close> lists the positions
  in that order. Anything that is not an order of the positions stands for the order of
  the inputs.
\<close>

definition finished_in :: "nat list \<Rightarrow> 'a list \<Rightarrow> 'a list" where
  "finished_in order xs =
     (if distinct order \<and> set order = {..<length xs} then map ((!) xs) order else xs)"

text \<open>
  A survivor is an identifier, its proxy, its deadline and whether a download is due.
  What happens during one call of the batch test, at a place of the recursion (\<open>False\<close>
  for the left half).
\<close>

type_synonym survivor = "string \<times> ParsedProxy \<times> instant \<times> bool"
type_synonym place = "bool list"

record batch_obs =
  bo_bindable :: "place \<Rightarrow> u16 \<Rightarrow> bool"
  bo_others :: "place \<Rightarrow> u16 \<Rightarrow> u16 set \<Rightarrow> u16 set"
  bo_start :: "place \<Rightarrow> start_obs"
  bo_http :: "place \<Rightarrow> nat \<Rightarrow> http_obs"
  bo_order :: "place \<Rightarrow> nat list"
  bo_meanwhile :: "place \<Rightarrow> u16 set \<Rightarrow> u16 set"

definition port_capacity_event :: "string \<Rightarrow> ProbeEvent" where
  "port_capacity_event e =
     event Relay LocalOverload None (json_obj [(''error'', JStr e), (''reason'', JStr ''port_capacity'')])"

definition survivor_results ::
  "AppConfig \<Rightarrow> (nat \<Rightarrow> http_obs) \<Rightarrow> survivor list \<Rightarrow> (string \<times> ProbeEvent list) list" where
  "survivor_results cfg obs xs =
     map (\<lambda>(k, i, p, deadline, due). (i, test_through_xray cfg (obs k) deadline due))
       (zip [0..<length xs] xs)"

function test_survivor_batch ::
  "libs \<Rightarrow> AppConfig \<Rightarrow> batch_obs \<Rightarrow> place \<Rightarrow> survivor list \<Rightarrow> u16 set \<Rightarrow>
   (string \<times> ProbeEvent list) list \<times> u16 set" where
  "test_survivor_batch L cfg w place xs S =
     (if xs = [] then ([], S)
      else case allocate_ports (bo_bindable w place) (bo_others w place)
                  (ports_test (cfg_ports cfg)) (length xs) S of
        (Inl e, S1) \<Rightarrow> (map (\<lambda>x. (fst x, [port_capacity_event e])) xs, S1)
      | (Inr ports, S1) \<Rightarrow>
          let S2 = bo_meanwhile w place S1 - set ports
          in case fst (start_batch L (bo_start w place) (map (\<lambda>x. fst (snd x)) xs) ports) of
               Inr _ \<Rightarrow> (finished_in (bo_order w place) (survivor_results cfg (bo_http w place) xs), S2)
             | Inl e \<Rightarrow>
                 if length xs = 1
                 then ([(fst (hd xs), [event Relay XrayStartFailed None (error_detail e)])], S2)
                 else let m = length xs div 2;
                          l = test_survivor_batch L cfg w (place @ [False]) (take m xs) S2;
                          r = test_survivor_batch L cfg w (place @ [True]) (drop m xs) (snd l)
                      in (fst l @ fst r, snd r))"
  by pat_completeness auto
termination
proof (relation "measure (\<lambda>(_, _, _, _, xs, _). length xs)", goal_cases)
  case (2 L cfg w place xs S)
  then show ?case by (cases xs) (auto simp: min_def)
next
  case (3 L cfg w place xs S)
  then show ?case by (cases xs) auto
qed simp

declare test_survivor_batch.simps [simp del]

record job_obs =
  jo_deadline_at :: instant
  jo_preflight :: preflight_obs
  jo_cache :: dns_cache

definition preflight_report ::
  "libs \<Rightarrow> AppConfig \<Rightarrow> string \<Rightarrow> job_obs \<Rightarrow> string \<Rightarrow> ProbeReport" where
  "preflight_report L cfg source w raw =
     (case parse_share_url L raw source of
        Inl e \<Rightarrow> invalid_config_report e
      | Inr p \<Rightarrow> \<lparr>pr_proxy = Some p, pr_events =
          (case fst (preflight (jo_preflight w) p (probe_deadline (jo_deadline_at w) cfg) (jo_cache w)) of
             Inl failure \<Rightarrow> [failure] | Inr _ \<Rightarrow> [])\<rparr>)"

definition preflight_results ::
  "libs \<Rightarrow> AppConfig \<Rightarrow> string \<Rightarrow> (nat \<Rightarrow> job_obs) \<Rightarrow> (string \<times> string \<times> bool) list \<Rightarrow>
   (string \<times> ProbeReport \<times> instant \<times> bool) list" where
  "preflight_results L cfg source obs configs =
     map (\<lambda>(k, i, raw, due). (i, preflight_report L cfg source (obs k) raw,
            probe_deadline (jo_deadline_at (obs k)) cfg, due))
       (zip [0..<length configs] configs)"

definition survivors_of :: "(string \<times> ProbeReport \<times> instant \<times> bool) list \<Rightarrow> survivor list" where
  "survivors_of rs = List.map_filter (\<lambda>(i, rep, deadline, due).
     case pr_proxy rep of
       Some p \<Rightarrow> if pr_events rep = [] then Some (i, p, deadline, due) else None
     | None \<Rightarrow> None) rs"

definition record_events ::
  "(string \<times> ProbeEvent list) list \<Rightarrow> (string \<times> ProbeReport) list \<Rightarrow> (string \<times> ProbeReport) list" where
  "record_events found results =
     fold (\<lambda>(i, es) m. case map_of m i of
       Some rep \<Rightarrow> bt_insert i (rep\<lparr>pr_events := es\<rparr>) m | None \<Rightarrow> m) found results"

definition test_batch ::
  "libs \<Rightarrow> AppConfig \<Rightarrow> string \<Rightarrow> (nat \<Rightarrow> job_obs) \<Rightarrow> nat list \<Rightarrow> batch_obs \<Rightarrow>
   (string \<times> string \<times> bool) list \<Rightarrow> u16 set \<Rightarrow> (string \<times> ProbeReport) list \<times> u16 set" where
  "test_batch L cfg source obs order w configs S =
     (let rs = finished_in order (preflight_results L cfg source obs configs);
          found = test_survivor_batch L cfg w [] (survivors_of rs) S
      in (record_events (fst found) (bt_collect (map (\<lambda>(i, rep, _, _). (i, rep)) rs)), snd found))"

section \<open>Lemmas\<close>

lemma mset_finished_in [simp]: "mset (finished_in order xs) = mset xs"
proof (cases "distinct order \<and> set order = {..<length xs}")
  case True
  then have "mset order = mset [0..<length xs]"
    by (metis atLeast_upt distinct_upt set_eq_iff_mset_eq_distinct)
  then have "mset (map ((!) xs) order) = mset (map ((!) xs) [0..<length xs])" by (simp only: mset_map)
  with True show ?thesis by (simp add: finished_in_def map_nth)
qed (auto simp: finished_in_def)

lemma mset_map_finished_in [simp]: "mset (map f (finished_in order xs)) = mset (map f xs)"
  by (metis mset_finished_in mset_map)

lemma set_finished_in [simp]: "set (finished_in order xs) = set xs"
  using mset_finished_in by (rule mset_eq_setD)

lemma map_fst_survivor_results [simp]: "map fst (survivor_results cfg obs xs) = map fst xs"
  by (rule nth_equalityI) (auto simp: survivor_results_def case_prod_unfold)

lemma test_through_xray_nonempty: "test_through_xray cfg w deadline due \<noteq> []"
  by (simp add: test_through_xray_def Let_def split: option.splits sum.splits)

lemma survivor_results_nonempty: "(i, es) \<in> set (survivor_results cfg obs xs) \<Longrightarrow> es \<noteq> []"
  by (auto simp: survivor_results_def test_through_xray_nonempty)

lemma survivor_results_nonempty' [simp]: "(i, []) \<notin> set (survivor_results cfg obs xs)"
  using survivor_results_nonempty by blast

lemma allocate_ports_length: "allocate_ports b others r n S = (Inr ports, S') \<Longrightarrow> length ports = n"
  using tests.granted by blast

text \<open>One result for every survivor, and each result says something.\<close>

lemma survivor_batch_complete:
  "mset (map fst (fst (test_survivor_batch L cfg w place xs S))) = mset (map fst xs) \<and>
   (\<forall>(i, es) \<in> set (fst (test_survivor_batch L cfg w place xs S)). es \<noteq> [])"
proof (induction L cfg w place xs S rule: test_survivor_batch.induct)
  case (1 L cfg w place xs S)
  show ?case
  proof (cases "xs = []")
    case False
    obtain a S1 where al: "allocate_ports (bo_bindable w place) (bo_others w place)
        (ports_test (cfg_ports cfg)) (length xs) S = (a, S1)" by fastforce
    show ?thesis
    proof (cases a)
      case (Inl e)
      with False al show ?thesis by (subst (1 2) test_survivor_batch.simps) (auto simp: comp_def)
    next
      case (Inr ports)
      let ?S2 = "bo_meanwhile w place S1 - set ports"
      show ?thesis
      proof (cases "fst (start_batch L (bo_start w place) (map (\<lambda>x. fst (snd x)) xs) ports)")
        case (Inr u)
        with False al \<open>a = Inr ports\<close> show ?thesis
          by (subst (1 2) test_survivor_batch.simps)
            (auto simp del: mset_map)
      next
        case (Inl e)
        note start = this
        show ?thesis
        proof (cases "length xs = 1")
          case True
          then obtain x where "xs = [x]" by (cases xs) auto
          with al \<open>a = Inr ports\<close> start show ?thesis
            by (subst (1 2) test_survivor_batch.simps) (auto simp: Let_def)
        next
          case lenne: False
          let ?m = "length xs div 2"
          let ?l = "test_survivor_batch L cfg w (place @ [False]) (take ?m xs) ?S2"
          let ?r = "test_survivor_batch L cfg w (place @ [True]) (drop ?m xs) (snd ?l)"
          have eq: "test_survivor_batch L cfg w place xs S = (fst ?l @ fst ?r, snd ?r)"
            using False al \<open>a = Inr ports\<close> start lenne
            by (subst test_survivor_batch.simps) (simp add: Let_def)
          note IH = "1.IH" [OF False al [symmetric] \<open>a = Inr ports\<close> refl start lenne refl]
          have "mset (map fst xs) = mset (map fst (take ?m xs)) + mset (map fst (drop ?m xs))"
            by (metis append_take_drop_id map_append mset_append)
          with IH(1) IH(2) [OF refl] show ?thesis unfolding eq by auto
        qed
      qed
    qed
  qed (simp add: test_survivor_batch.simps)
qed

lemma record_events_ok:
  "bt_ok m \<Longrightarrow> bt_ok (record_events found m) \<and>
     map_of (record_events found m) i = map_option (\<lambda>rep.
       case map_of (rev found) i of None \<Rightarrow> rep | Some es \<Rightarrow> rep\<lparr>pr_events := es\<rparr>) (map_of m i)"
proof (induction found arbitrary: m)
  case (Cons f found)
  obtain k es where f: "f = (k, es)" by (cases f)
  let ?m = "case map_of m k of Some rep \<Rightarrow> bt_insert k (rep\<lparr>pr_events := es\<rparr>) m | None \<Rightarrow> m"
  have ok: "bt_ok ?m" using Cons.prems by (auto split: option.splits intro: bt_ok_insert)
  have step: "record_events (f # found) m = record_events found ?m"
    by (simp add: record_events_def f)
  have "map_of ?m i = (if i = k then map_option (\<lambda>rep. rep\<lparr>pr_events := es\<rparr>) (map_of m i) else map_of m i)"
    using Cons.prems by (auto simp: map_of_bt_insert split: option.splits)
  with Cons.IH [OF ok] show ?case
    unfolding step
    by (cases "map_of (rev found) i") (auto simp: f map_add_def option.map_comp comp_def)
qed (simp add: record_events_def option.map_ident)

lemma keys_record_events: "bt_ok m \<Longrightarrow> fst ` set (record_events found m) = fst ` set m"
proof -
  assume "bt_ok m"
  then have "map_of (record_events found m) i = None \<longleftrightarrow> map_of m i = None" for i
    by (simp add: record_events_ok)
  then have "dom (map_of (record_events found m)) = dom (map_of m)" by (simp add: dom_def)
  then show ?thesis by (simp only: dom_map_of_conv_image_fst)
qed

lemma preflight_report_events: "pr_proxy (preflight_report L cfg source w raw) = None \<Longrightarrow>
     pr_events (preflight_report L cfg source w raw) \<noteq> []"
  by (auto simp: preflight_report_def invalid_config_report_def split: sum.splits)

lemma preflight_report_proxy: "pr_proxy (preflight_report L cfg source w raw) =
     (case parse_share_url L raw source of Inl _ \<Rightarrow> None | Inr p \<Rightarrow> Some p)"
  by (simp add: preflight_report_def invalid_config_report_def split: sum.splits)

text \<open>The port of a finished call is free again when no other task holds it.\<close>

lemma allocate_ports_alone_set:
  "snd (allocate_ports b (\<lambda>_ S. S) r n S) = S \<union> (case fst (allocate_ports b (\<lambda>_ S. S) r n S) of
     Inl _ \<Rightarrow> {} | Inr ps \<Rightarrow> set ps) \<and>
   (case fst (allocate_ports b (\<lambda>_ S. S) r n S) of Inl _ \<Rightarrow> True | Inr ps \<Rightarrow> set ps \<inter> S = {})"
  by (auto simp: allocate_ports_def reserve_ports_alone distinct_range_ports Let_def
      dest!: in_set_takeD)

lemma survivor_batch_releases:
  assumes "bo_others w = (\<lambda>_ _ S. S)" and "bo_meanwhile w = (\<lambda>_ S. S)"
  shows "snd (test_survivor_batch L cfg w place xs S) = S"
  using assms
proof (induction L cfg w place xs S rule: test_survivor_batch.induct)
  case (1 L cfg w place xs S)
  show ?case
  proof (cases "xs = []")
    case False
    obtain a S1 where al: "allocate_ports (bo_bindable w place) (bo_others w place)
        (ports_test (cfg_ports cfg)) (length xs) S = (a, S1)" by fastforce
    with 1(3) allocate_ports_alone_set [of "bo_bindable w place" "ports_test (cfg_ports cfg)" "length xs" S]
    have S1: "case a of Inl _ \<Rightarrow> S1 = S | Inr ports \<Rightarrow> S1 - set ports = S"
      by (auto split: sum.splits)
    show ?thesis
    proof (cases a)
      case (Inl e)
      with False al S1 show ?thesis by (subst test_survivor_batch.simps) simp
    next
      case (Inr ports)
      with S1 1(4) have S2: "bo_meanwhile w place S1 - set ports = S" by simp
      show ?thesis
        using 1(1) [OF False al [symmetric] Inr refl _ _ refl 1(3,4)]
          1(2) [OF False al [symmetric] Inr refl _ _ refl refl 1(3,4)]
          False al Inr S2
        by (subst test_survivor_batch.simps) (auto simp: Let_def split: sum.splits)
    qed
  qed (simp add: test_survivor_batch.simps)
qed

lemma map_fst_preflight_results: "map fst (preflight_results L cfg source obs configs) = map fst configs"
  by (rule nth_equalityI) (auto simp: preflight_results_def case_prod_unfold)

lemma preflight_results_mem:
  "(i, rep, deadline, due) \<in> set (preflight_results L cfg source obs configs) \<Longrightarrow>
     \<exists>k raw. (i, raw, due) \<in> set configs \<and> rep = preflight_report L cfg source (obs k) raw"
  by (auto simp: preflight_results_def dest: set_zip_rightD)

lemma survivors_of_mem:
  "(i, rep, deadline, due) \<in> set rs \<Longrightarrow> pr_events rep = [] \<Longrightarrow> pr_proxy rep \<noteq> None \<Longrightarrow>
     i \<in> fst ` set (survivors_of rs)"
  by (force simp: survivors_of_def List.map_filter_def)

section \<open>Properties\<close>

text \<open>The reports of the preflight with the events of the session put in.\<close>

abbreviation merged :: "(string \<times> ProbeEvent list) list \<Rightarrow> (string \<times> ProbeReport \<times> 'a \<times> 'b) list \<Rightarrow> (string \<times> ProbeReport) list" where
  "merged found rs \<equiv> record_events found (bt_collect (map (\<lambda>(i, rep, _, _). (i, rep)) rs))"

lemma merged_keys:
  "sorted_wrt (<) (map fst (merged found rs)) \<and> fst ` set (merged found rs) = fst ` set rs"
  using record_events_ok [OF bt_collect_ok, of found] keys_record_events [OF bt_collect_ok, of found]
  by (simp add: bt_ok_def keys_bt_collect image_image case_prod_unfold)

lemma merged_mem:
  assumes "(i, rep) \<in> set (merged found rs)"
  obtains rep0 deadline due where "(i, rep0, deadline, due) \<in> set rs"
    "rep = (case map_of (rev found) i of None \<Rightarrow> rep0 | Some es \<Rightarrow> rep0\<lparr>pr_events := es\<rparr>)"
proof -
  let ?m = "bt_collect (map (\<lambda>(i, rep, _, _). (i, rep)) rs)"
  have "map_of (merged found rs) i = Some rep"
    using assms merged_keys [of found rs] strict_sorted_iff by (metis map_of_is_SomeI)
  then obtain rep0 where m: "map_of ?m i = Some rep0"
    "rep = (case map_of (rev found) i of None \<Rightarrow> rep0 | Some es \<Rightarrow> rep0\<lparr>pr_events := es\<rparr>)"
    using record_events_ok [OF bt_collect_ok, of found _ i] by auto
  from this(1) have "(i, rep0) \<in> (\<lambda>(i, rep, _, _). (i, rep)) ` set rs"
    by (auto simp only: map_of_bt_collect set_map set_rev dest!: map_of_SomeD)
  then obtain deadline due where "(i, rep0, deadline, due) \<in> set rs" by force
  with m(2) show thesis by (rule that [rotated])
qed

text \<open>A report without a proxy has the events of its preflight, one with a proxy those of the
  session.\<close>

lemma merged_events:
  assumes "(i, rep) \<in> set (merged (fst (test_survivor_batch L cfg w [] (survivors_of rs) S)) rs)"
    and "set rs \<subseteq> set (preflight_results L cfg source obs configs)"
  shows "pr_events rep \<noteq> []"
proof -
  let ?found = "fst (test_survivor_batch L cfg w [] (survivors_of rs) S)"
  note complete = survivor_batch_complete [of L cfg w "[]" "survivors_of rs" S]
  from assms(1) obtain rep0 deadline due where r: "(i, rep0, deadline, due) \<in> set rs"
      "rep = (case map_of (rev ?found) i of None \<Rightarrow> rep0 | Some es \<Rightarrow> rep0\<lparr>pr_events := es\<rparr>)"
    by (rule merged_mem)
  show ?thesis
  proof (cases "map_of (rev ?found) i")
    case (Some es)
    then have "(i, es) \<in> set ?found" by (auto dest: map_of_SomeD)
    with complete have "es \<noteq> []" by blast
    with Some r(2) show ?thesis by simp
  next
    case None
    then have "i \<notin> fst ` set (survivors_of rs)"
      using mset_eq_setD [OF conjunct1 [OF complete]] by (simp add: map_of_eq_None_iff)
    moreover have "pr_proxy rep0 = None \<Longrightarrow> pr_events rep0 \<noteq> []"
      using r(1) preflight_report_events preflight_results_mem assms(2) by blast
    ultimately show ?thesis using survivors_of_mem [OF r(1)] r(2) None by auto
  qed
qed

lemma merged_proxy:
  assumes "(i, rep) \<in> set (merged found rs)" and "(i, raw, due) \<in> set configs" "distinct (map fst configs)"
    and "set rs \<subseteq> set (preflight_results L cfg source obs configs)"
  shows "pr_proxy rep = (case parse_share_url L raw source of Inl _ \<Rightarrow> None | Inr p \<Rightarrow> Some p)"
proof -
  from assms(1) obtain rep0 deadline due' where r: "(i, rep0, deadline, due') \<in> set rs"
      "rep = (case map_of (rev found) i of None \<Rightarrow> rep0 | Some es \<Rightarrow> rep0\<lparr>pr_events := es\<rparr>)"
    by (rule merged_mem)
  then obtain k raw' where k: "(i, raw', due') \<in> set configs" "rep0 = preflight_report L cfg source (obs k) raw'"
    using preflight_results_mem assms(4) by blast
  with assms(2,3) have "raw' = raw" by (metis eq_key_imp_eq_value prod.inject)
  then have "pr_proxy rep0 = (case parse_share_url L raw source of Inl _ \<Rightarrow> None | Inr p \<Rightarrow> Some p)"
    by (simp add: k(2) preflight_report_proxy)
  with r(2) show ?thesis by (auto split: option.splits)
qed

text \<open>C33. Every job of a cohort gets a verdict: the reports are keyed by the identifiers of the
  jobs, in order and without repetition, none is missing and none has no event; with
  distinct identifiers a report carries the proxy of its job exactly when the job's
  configuration parses; and when no other task interferes every port reserved for the
  cohort is free again.\<close>

theorem batch_verdicts:
  "(let (reports, S') = test_batch L cfg source obs order w configs S
    in sorted_wrt (<) (map fst reports) \<and> fst ` set reports = fst ` set configs \<and>
       (\<forall>(i, rep) \<in> set reports. pr_events rep \<noteq> []) \<and>
       (distinct (map fst configs) \<longrightarrow> (\<forall>(i, raw, due) \<in> set configs. \<exists>rep. (i, rep) \<in> set reports \<and>
          pr_proxy rep = (case parse_share_url L raw source of Inl _ \<Rightarrow> None | Inr p \<Rightarrow> Some p))) \<and>
       (bo_others w = (\<lambda>_ _ S. S) \<and> bo_meanwhile w = (\<lambda>_ S. S) \<longrightarrow> S' = S))"
proof -
  define rs where "rs = finished_in order (preflight_results L cfg source obs configs)"
  define found where "found = fst (test_survivor_batch L cfg w [] (survivors_of rs) S)"
  have eq: "test_batch L cfg source obs order w configs S =
      (merged found rs, snd (test_survivor_batch L cfg w [] (survivors_of rs) S))"
    by (simp add: test_batch_def rs_def found_def Let_def)
  have rs: "set rs = set (preflight_results L cfg source obs configs)" by (simp add: rs_def)
  then have mem: "set rs \<subseteq> set (preflight_results L cfg source obs configs)" by simp
  have keys: "fst ` set (merged found rs) = fst ` set configs"
    using merged_keys [of found rs] map_fst_preflight_results [of L cfg source obs configs] by (metis rs set_map)
  have proxies: "\<exists>rep. (i, rep) \<in> set (merged found rs) \<and>
      pr_proxy rep = (case parse_share_url L raw source of Inl _ \<Rightarrow> None | Inr p \<Rightarrow> Some p)"
    if "distinct (map fst configs)" "(i, raw, due) \<in> set configs" for i raw due
  proof -
    from keys that(2) obtain rep where "(i, rep) \<in> set (merged found rs)" by force
    with merged_proxy [OF this that(2,1) mem] show ?thesis by blast
  qed
  have events: "pr_events rep \<noteq> []" if "(i, rep) \<in> set (merged found rs)" for i rep
    using merged_events [OF that [unfolded found_def] mem] .
  have sorted: "sorted_wrt (<) (map fst (merged found rs))" using merged_keys [of found rs] by simp
  show ?thesis
    unfolding eq Let_def case_prod_conv
    by (intro conjI impI, fact sorted, fact keys, use events in blast, use proxies in blast,
        simp add: survivor_batch_releases)
qed

definition sample_preflight :: preflight_obs where
  "sample_preflight =
     \<lparr>pf_started = 0,
      pf_dns = \<lparr>dn_cache_read_at = 0, dn_budget_at = 1, dn_lookup = Addresses [''192.0.2.1''], dn_inserted_at = 2\<rparr>,
      pf_budget_at = 3, pf_connect = Connected, pf_ended = 4\<rparr>"

definition sample_job :: "nat \<Rightarrow> job_obs" where
  "sample_job k = \<lparr>jo_deadline_at = 0, jo_preflight = sample_preflight, jo_cache = []\<rparr>"

definition ready_start :: start_obs where
  "ready_start = no_binary\<lparr>so_spawn_error := None\<rparr>"

definition sample_http :: http_obs where
  "sample_http = \<lparr>ho_client_error = None,
     ho_requests = (\<lambda>_. \<lparr>rq_started = 5, rq_budget_at = 6, rq_response = Status 204 [],
       rq_responded_at = 7, rq_finished_at = 8\<rparr>),
     ho_downloads = (\<lambda>_. \<lparr>rq_started = 9, rq_budget_at = 10, rq_response = RequestElapsed,
       rq_responded_at = 11, rq_finished_at = 12\<rparr>),
     ho_clock = (\<lambda>_. 13)\<rparr>"

definition sample_batch :: batch_obs where
  "sample_batch = \<lparr>bo_bindable = (\<lambda>_ _. True), bo_others = (\<lambda>_ _ S. S), bo_start = (\<lambda>_. ready_start),
     bo_http = (\<lambda>_ _. sample_http), bo_order = (\<lambda>_. []), bo_meanwhile = (\<lambda>_ S. S)\<rparr>"

theorem batch_verdicts_witness:
  "\<exists>reports rep. test_batch sample_libs default_config ''feed'' sample_job [0] sample_batch
       [(''n1'', ''vless://a'', True)] {32000} = (reports, {32000}) \<and>
     (''n1'', rep) \<in> set reports \<and> pr_events rep \<noteq> []"
proof -
  obtain reports S' where t: "test_batch sample_libs default_config ''feed'' sample_job [0] sample_batch
       [(''n1'', ''vless://a'', True)] {32000} = (reports, S')" by fastforce
  note v = batch_verdicts [where L = sample_libs and cfg = default_config and source = "''feed''"
      and obs = sample_job and order = "[0]" and w = sample_batch
      and configs = "[(''n1'', ''vless://a'', True)]" and S = "{32000}", unfolded t Let_def case_prod_conv]
  from v have "S' = {32000}" by (simp add: sample_batch_def)
  moreover from v obtain rep where "(''n1'', rep) \<in> set reports" by auto
  ultimately show ?thesis using v t by blast
qed

text \<open>Where a cohort is split, a start succeeds exactly when every member is fit to run.\<close>

definition starts_iff :: "libs \<Rightarrow> batch_obs \<Rightarrow> (ParsedProxy \<Rightarrow> bool) \<Rightarrow> bool" where
  "starts_iff L w fit \<longleftrightarrow> (\<forall>place proxies ports. proxies \<noteq> [] \<and> length ports = length proxies \<longrightarrow>
     isl (fst (start_batch L (bo_start w place) proxies ports)) = (\<not> list_all fit proxies))"

text \<open>As long as the reservations are as \<open>I\<close> says, up to \<open>n\<close> ports are granted, and they are as
  \<open>I\<close> says again when the ports are given back.\<close>

definition ports_suffice :: "AppConfig \<Rightarrow> batch_obs \<Rightarrow> nat \<Rightarrow> (u16 set \<Rightarrow> bool) \<Rightarrow> bool" where
  "ports_suffice cfg w n I \<longleftrightarrow> (\<forall>place k S. I S \<and> k \<le> n \<longrightarrow>
     (case allocate_ports (bo_bindable w place) (bo_others w place) (ports_test (cfg_ports cfg)) k S of
        (Inl _, _) \<Rightarrow> False
      | (Inr ports, S') \<Rightarrow> I (bo_meanwhile w place S' - set ports)))"

lemma survivor_results_mem:
  assumes "(i, p, deadline, due) \<in> set xs"
  shows "\<exists>k. (i, test_through_xray cfg (obs k) deadline due) \<in> set (survivor_results cfg obs xs)"
proof -
  from assms obtain k where k: "k < length xs" "xs ! k = (i, p, deadline, due)"
    by (auto simp: in_set_conv_nth)
  then have "zip [0..<length xs] xs ! k = (k, i, p, deadline, due)" by simp
  with k(1) have "(k, i, p, deadline, due) \<in> set (zip [0..<length xs] xs)"
    by (metis length_map length_zip map_nth min.idem nth_mem)
  then show ?thesis by (force simp: survivor_results_def)
qed

lemma ports_suffice_mono: "ports_suffice cfg w n I \<Longrightarrow> m \<le> n \<Longrightarrow> ports_suffice cfg w m I"
  unfolding ports_suffice_def by (meson order_trans)

lemma ports_sufficeD:
  assumes "ports_suffice cfg w n I" and "I S" and "k \<le> n"
  obtains ports S1 where "allocate_ports (bo_bindable w place) (bo_others w place)
      (ports_test (cfg_ports cfg)) k S = (Inr ports, S1)"
    and "I (bo_meanwhile w place S1 - set ports)" and "length ports = k"
proof -
  obtain a S1 where al: "allocate_ports (bo_bindable w place) (bo_others w place)
      (ports_test (cfg_ports cfg)) k S = (a, S1)" by fastforce
  with assms(1) [unfolded ports_suffice_def, rule_format, of S k place] assms(2,3)
  have "case a of Inl _ \<Rightarrow> False | Inr ports \<Rightarrow> I (bo_meanwhile w place S1 - set ports)"
    by (auto split: sum.splits)
  with al that allocate_ports_length show thesis by (cases a) auto
qed

text \<open>One call of the batch test whose ports are granted.\<close>

lemma survivor_batch_granted:
  assumes "xs \<noteq> []" and "allocate_ports (bo_bindable w place) (bo_others w place)
      (ports_test (cfg_ports cfg)) (length xs) S = (Inr ports, S1)"
    and "S2 = bo_meanwhile w place S1 - set ports"
    and "result = fst (start_batch L (bo_start w place) (map (\<lambda>x. fst (snd x)) xs) ports)"
  shows "test_survivor_batch L cfg w place xs S =
    (case result of
       Inr _ \<Rightarrow> (finished_in (bo_order w place) (survivor_results cfg (bo_http w place) xs), S2)
     | Inl e \<Rightarrow>
         if length xs = 1
         then ([(fst (hd xs), [event Relay XrayStartFailed None (error_detail e)])], S2)
         else let l = test_survivor_batch L cfg w (place @ [False]) (take (length xs div 2) xs) S2;
                  r = test_survivor_batch L cfg w (place @ [True]) (drop (length xs div 2) xs) (snd l)
              in (fst l @ fst r, snd r))"
  using assms by (subst test_survivor_batch.simps) (auto simp: Let_def split: sum.splits)

lemma survivor_batch_keeps:
  "ports_suffice cfg w (length xs) I \<Longrightarrow> I S \<Longrightarrow> I (snd (test_survivor_batch L cfg w place xs S))"
proof (induction L cfg w place xs S rule: test_survivor_batch.induct)
  case (1 L cfg w place xs S)
  show ?case
  proof (cases "xs = []")
    case False
    obtain ports S1 where al: "allocate_ports (bo_bindable w place) (bo_others w place)
        (ports_test (cfg_ports cfg)) (length xs) S = (Inr ports, S1)"
      and S2: "I (bo_meanwhile w place S1 - set ports)"
      using ports_sufficeD [OF "1.prems" order.refl] by metis
    have half: "ports_suffice cfg w (length (take (length xs div 2) xs)) I"
      "ports_suffice cfg w (length (drop (length xs div 2) xs)) I"
      using "1.prems"(1) by (auto intro: ports_suffice_mono)
    show ?thesis
      using S2 "1.IH"(1) [OF False al [symmetric] refl refl _ _ refl half(1)]
        "1.IH"(2) [OF False al [symmetric] refl refl _ _ refl refl half(2)]
      by (subst survivor_batch_granted [OF False al refl refl]) (auto simp: Let_def split: sum.splits)
  qed (simp add: test_survivor_batch.simps 1)
qed

lemma split_isolates:
  assumes "starts_iff L w fit" and "ports_suffice cfg w (length xs) I" and "I S"
    and "(i, p, deadline, due) \<in> set xs"
  shows "if fit p
    then \<exists>pl k. (i, test_through_xray cfg (bo_http w pl k) deadline due)
           \<in> set (fst (test_survivor_batch L cfg w place xs S))
    else \<exists>e. (i, [event Relay XrayStartFailed None (error_detail e)])
           \<in> set (fst (test_survivor_batch L cfg w place xs S))"
  using assms
proof (induction L cfg w place xs S rule: test_survivor_batch.induct)
  case (1 L cfg w place xs S)
  note fit = "1.prems"(1) and mem = "1.prems"(4)
  from mem have ne: "xs \<noteq> []" by auto
  obtain ports S1 where al: "allocate_ports (bo_bindable w place) (bo_others w place)
      (ports_test (cfg_ports cfg)) (length xs) S = (Inr ports, S1)"
    and S2: "I (bo_meanwhile w place S1 - set ports)" and len: "length ports = length xs"
    using ports_sufficeD [OF "1.prems"(2,3) order.refl] by metis
  let ?S2 = "bo_meanwhile w place S1 - set ports" and ?ps = "map (\<lambda>x. fst (snd x)) xs"
  have started: "isl (fst (start_batch L (bo_start w place) ?ps ports)) = (\<not> list_all fit ?ps)"
    using fit ne len by (simp add: starts_iff_def)
  note granted = survivor_batch_granted [OF ne al refl refl, of L]
  show ?case
  proof (cases "fst (start_batch L (bo_start w place) ?ps ports)")
    case (Inr u)
    with started mem have "fit p" by (force simp: list_all_iff)
    moreover obtain k where "(i, test_through_xray cfg (bo_http w place k) deadline due)
        \<in> set (survivor_results cfg (bo_http w place) xs)"
      using survivor_results_mem [OF mem] by blast
    ultimately show ?thesis using granted Inr by auto
  next
    case (Inl e)
    show ?thesis
    proof (cases "length xs = 1")
      case True
      then have xs: "xs = [(i, p, deadline, due)]" using mem by (cases xs) auto
      with started Inl have "\<not> fit p" by simp
      then show ?thesis using granted Inl True by (simp add: xs) blast
    next
      case False
      let ?m = "length xs div 2"
      let ?l = "test_survivor_batch L cfg w (place @ [False]) (take ?m xs) ?S2"
      let ?r = "test_survivor_batch L cfg w (place @ [True]) (drop ?m xs) (snd ?l)"
      have eq: "test_survivor_batch L cfg w place xs S = (fst ?l @ fst ?r, snd ?r)"
        using granted Inl False by (simp add: Let_def)
      have half: "ports_suffice cfg w (length (take ?m xs)) I" "ports_suffice cfg w (length (drop ?m xs)) I"
        using "1.prems"(2) by (auto intro: ports_suffice_mono)
      note IH = "1.IH"(1) [OF ne al [symmetric] refl refl Inl False refl fit half(1) S2]
        "1.IH"(2) [OF ne al [symmetric] refl refl Inl False refl refl fit half(2)
          survivor_batch_keeps [OF half(1) S2]]
      have "(i, p, deadline, due) \<in> set (take ?m xs) \<or> (i, p, deadline, due) \<in> set (drop ?m xs)"
        using mem by (metis UnE append_take_drop_id set_append)
      then show ?thesis
      proof
        assume "(i, p, deadline, due) \<in> set (take ?m xs)"
        from IH(1) [OF this] show ?thesis unfolding eq by (auto split: if_splits)
      next
        assume "(i, p, deadline, due) \<in> set (drop ?m xs)"
        from IH(2) [OF this] show ?thesis unfolding eq by (auto split: if_splits)
      qed
    qed
  qed
qed

text \<open>C34. A proxy Xray cannot run does not make its cohort look dead: when a start succeeds exactly
  for batches of fit proxies, as many ports as survivors can be had, then in the results of
  the split cohort every fit survivor is tested through a running Xray and every unfit one
  is reported as a failed start of its own, wherever they stand.\<close>

theorem unfit_proxies_isolated:
  assumes "starts_iff L w fit" and "ports_suffice cfg w (length xs) I" and "I S"
  shows "\<forall>(i, p, deadline, due) \<in> set xs. if fit p
    then \<exists>place k. (i, test_through_xray cfg (bo_http w place k) deadline due)
           \<in> set (fst (test_survivor_batch L cfg w [] xs S))
    else \<exists>e. (i, [event Relay XrayStartFailed None (error_detail e)])
           \<in> set (fst (test_survivor_batch L cfg w [] xs S))"
  using split_isolates [OF assms] by blast

definition unfit_proxy :: ParsedProxy where
  "unfit_proxy = sample_proxy\<lparr>pp_protocol := ''unknown''\<rparr>"

lemma batch_parts_isl:
  "isl (batch_parts L k ps) = (\<not> list_all (\<lambda>x. \<not> isl (xray_outbound L (fst x))) ps)"
proof (induction L k ps rule: batch_parts.induct)
  case (2 L k p port ps)
  show ?case
  proof (cases "xray_outbound L p")
    case (Inr outbound)
    with 2 show ?thesis by (cases "batch_parts L (Suc k) ps") auto
  qed simp
qed simp

lemma sample_starts_iff: "starts_iff L sample_batch (\<lambda>p. \<not> isl (xray_outbound L p))"
proof -
  have ready: "wait_ready_from 0 label (so_ready ready_start) summary ports = Inr ()" for label summary ports
    by (subst wait_ready_from.simps) (simp add: ready_start_def no_binary_def list_all_iff)
  have "isl (fst (start_batch L ready_start proxies ports)) =
      (\<not> list_all (\<lambda>p. \<not> isl (xray_outbound L p)) proxies)"
    if "proxies \<noteq> []" "length ports = length proxies" for proxies ports
  proof -
    have "list_all (\<lambda>x. \<not> isl (xray_outbound L (fst x))) (zip proxies ports) =
        list_all (\<lambda>p. \<not> isl (xray_outbound L p)) (map fst (zip proxies ports))"
      by (simp add: list.pred_map comp_def)
    then have "isl (batch_config L proxies ports) = (\<not> list_all (\<lambda>p. \<not> isl (xray_outbound L p)) proxies)"
      using that batch_parts_isl [of L 0 "zip proxies ports"]
      by (cases "batch_parts L 0 (zip proxies ports)") (auto simp: batch_config_def)
    moreover have "so_write_error ready_start = None" "so_spawn_error ready_start = None"
      by (simp_all add: ready_start_def no_binary_def)
    ultimately show ?thesis
      by (cases "batch_config L proxies ports")
        (auto simp: start_batch_def start_session_def ready)
  qed
  then show ?thesis by (simp add: starts_iff_def sample_batch_def)
qed

lemma sample_ports_suffice: "ports_suffice default_config sample_batch 2 (\<lambda>S. S = {})"
proof -
  have "length (range_ports (ports_test (cfg_ports default_config))) = 8000"
    unfolding range_ports_def length_map length_upt by (simp add: default_config_def default_ports_def)
  then show ?thesis
    by (auto simp: ports_suffice_def sample_batch_def allocate_ports_def reserve_ports_alone
        distinct_range_ports Let_def)
qed

theorem unfit_proxies_isolated_witness:
  "\<exists>e. (''bad'', [event Relay XrayStartFailed None (error_detail e)]) \<in> set (fst (test_survivor_batch
      sample_libs default_config sample_batch []
      [(''good'', sample_proxy, 100, False), (''bad'', unfit_proxy, 100, False)] {}))"
proof -
  have unfit: "isl (xray_outbound sample_libs unfit_proxy)" by code_simp
  have "ports_suffice default_config sample_batch
      (length [(''good'', sample_proxy, 100, False), (''bad'', unfit_proxy, 100 :: instant, False)]) (\<lambda>S. S = {})"
    using sample_ports_suffice by (simp add: numeral_2_eq_2)
  from unfit_proxies_isolated [OF sample_starts_iff this refl, of sample_libs] unfit show ?thesis by auto
qed

section \<open>Verdicts\<close>

lemma keep_first_set: "set (keep_first es seen) = set es - seen"
  by (induction es seen rule: keep_first.induct) auto

lemma keep_first_distinct: "distinct (keep_first es seen)"
  by (induction es seen rule: keep_first.induct) (auto simp: keep_first_set)

lemma keep_first_nonempty: "keep_first (e # es) {} \<noteq> []"
  by simp

definition endpoint_answers :: "AppConfig \<Rightarrow> instant \<Rightarrow> request_obs \<Rightarrow> bool" where
  "endpoint_answers cfg deadline w =
     (case rq_response w of
        Status s steps \<Rightarrow> (http_ok s \<or> http_redirect s) \<and>
          \<not> isl (read_http_body_limited (hc_http_probe_body_limit_bytes (cfg_health cfg)) deadline steps 0)
      | _ \<Rightarrow> False)"

definition endpoint_fails :: "FailureClass \<Rightarrow> request_obs \<Rightarrow> bool" where
  "endpoint_fails c w =
     (case rq_response w of RequestFailed e \<Rightarrow> classify_request_error e RelayTimeout = c | _ \<Rightarrow> False)"

lemma http_step_tally:
  "http_step cfg deadline e w t = Inr t' \<Longrightarrow>
     length (ht_successes t') = length (ht_successes t) + (if endpoint_answers cfg deadline w then 1 else 0) \<and>
     ht_timeouts t' = ht_timeouts t + (if endpoint_fails RelayTimeout w then 1 else 0) \<and>
     ht_tls_failures t' = ht_tls_failures t + (if endpoint_fails TlsTimeout w then 1 else 0)"
  by (auto simp: http_step_def endpoint_answers_def endpoint_fails_def Let_def
      split: option.splits response.splits if_splits sum.splits)

lemma http_loop_tally:
  "http_loop cfg deadline obs es t = Inr t' \<Longrightarrow>
     length (ht_successes t') = length (ht_successes t) + length (filter (endpoint_answers cfg deadline \<circ> obs) es) \<and>
     ht_timeouts t' = ht_timeouts t + length (filter (endpoint_fails RelayTimeout \<circ> obs) es) \<and>
     ht_tls_failures t' = ht_tls_failures t + length (filter (endpoint_fails TlsTimeout \<circ> obs) es)"
proof (induction es arbitrary: t)
  case (Cons e es)
  then obtain t1 where t1: "http_step cfg deadline e (obs e) t = Inr t1"
    "http_loop cfg deadline obs es t1 = Inr t'"
    by (auto simp: bind_e_Inr)
  from Cons.IH [OF t1(2)] http_step_tally [OF t1(1)] show ?case by auto
qed simp

lemma http_loop_Inl: "http_loop cfg deadline obs es t = Inl e \<Longrightarrow> \<exists>dur. e = deadline_exceeded dur"
proof (induction es arbitrary: t)
  case (Cons x es)
  then show ?case
    by (cases "http_step cfg deadline x (obs x) t")
      (auto simp: http_step_def Let_def split: option.splits response.splits if_splits sum.splits)
qed simp

lemma length_filter_all: "length (filter P xs) = length xs \<longleftrightarrow> list_all P xs"
  by (metis filter_id_conv length_filter_less list_all_iff nat_neq_iff)

lemma download_stage: "pv_stage (download cfg deadline obs clock) = Download"
proof -
  have d: "pv_stage (download_endpoint cfg deadline e w) = Download" for e w
    by (auto simp: download_endpoint_def event_def measured_def Let_def
        split: option.splits response.splits sum.splits)
  have "try_mirrors cfg deadline obs clock es = Inl found \<Longrightarrow> pv_stage found = Download" for es found
    by (induction es) (auto simp: d Let_def split: if_splits sum.splits)
  then show ?thesis by (auto simp: download_def split: sum.splits)
qed

text \<open>The relay verdict: between one and all of the distinct endpoints tried must answer. A
  relay success is reported only when at least the quorum of them answered with a
  success or redirect and a readable body; the HTTP test reports a timeout, or a TLS
  failure, only when every endpoint failed in that very way, so one broken endpoint
  is no evidence; and a download is attempted only after the quorum, when it is
  enabled and due.\<close>

theorem relay_verdict:
  fixes cfg :: AppConfig and w :: http_obs
  defines "eps \<equiv> take (endpoint_count cfg) (http_endpoints cfg)"
  assumes "e \<in> set (test_through_xray cfg w deadline due)"
  shows "eps \<noteq> [] \<and> distinct eps \<and> 1 \<le> http_quorum cfg \<and> http_quorum cfg \<le> length eps \<and>
    (pv_class e = Success \<and> pv_stage e \<noteq> Download \<or> pv_stage e = Download \<longrightarrow>
       http_quorum cfg \<le> length (filter (endpoint_answers cfg deadline \<circ> ho_requests w) eps)) \<and>
    (pv_stage e = Http \<and> pv_class e \<in> {RelayTimeout, TlsTimeout} \<longrightarrow>
       list_all (endpoint_fails (pv_class e) \<circ> ho_requests w) eps) \<and>
    (pv_stage e = Download \<longrightarrow> dt_enabled (cfg_download_test cfg) \<and> due)"
proof -
  have len: "length eps = endpoint_count cfg" by (simp add: eps_def endpoint_count_def)
  have ne: "http_endpoints cfg \<noteq> []" by (simp add: http_endpoints_def)
  then have pos: "0 < endpoint_count cfg" by (simp add: endpoint_count_def)
  have quorum: "1 \<le> http_quorum cfg" "http_quorum cfg \<le> endpoint_count cfg"
    using pos clamp_bounds [of 1 "max (endpoint_count cfg) 1"] by (auto simp: http_quorum_def)
  have dist: "distinct eps"
    unfolding eps_def http_endpoints_def by (intro distinct_take keep_first_distinct)
  have verdict: "(pv_class e = Success \<and> pv_stage e \<noteq> Download \<or> pv_stage e = Download \<longrightarrow>
       http_quorum cfg \<le> length (filter (endpoint_answers cfg deadline \<circ> ho_requests w) eps)) \<and>
    (pv_stage e = Http \<and> pv_class e \<in> {RelayTimeout, TlsTimeout} \<longrightarrow>
       list_all (endpoint_fails (pv_class e) \<circ> ho_requests w) eps) \<and>
    (pv_stage e = Download \<longrightarrow> dt_enabled (cfg_download_test cfg) \<and> due)"
  proof (cases "ho_client_error w")
    case (Some err)
    with assms(2) show ?thesis by (simp add: test_through_xray_def event_def)
  next
    case None
    show ?thesis
    proof (cases "http_loop cfg deadline (ho_requests w) eps no_tally")
      case (Inl a)
      with None assms(2) http_loop_Inl [OF Inl] show ?thesis
        by (auto simp: test_through_xray_def eps_def [symmetric] deadline_exceeded_def event_def)
    next
      case (Inr t)
      with http_loop_tally [OF Inr]
      have t: "length (ht_successes t) = length (filter (endpoint_answers cfg deadline \<circ> ho_requests w) eps)"
        "ht_timeouts t = length (filter (endpoint_fails RelayTimeout \<circ> ho_requests w) eps)"
        "ht_tls_failures t = length (filter (endpoint_fails TlsTimeout \<circ> ho_requests w) eps)"
        by (simp_all add: no_tally_def)
      show ?thesis
      proof (cases "http_quorum cfg \<le> length (ht_successes t)")
        case True
        with None Inr assms(2) t(1) show ?thesis
          by (auto simp: test_through_xray_def eps_def [symmetric] Let_def success_event_def
              download_stage split: if_splits)
      next
        case False
        with None Inr assms(2) have "e = event Http (quorum_failure_class cfg t) None (pv_detail e)"
          by (auto simp: test_through_xray_def eps_def [symmetric] Let_def event_def)
        then have e: "pv_stage e = Http" "pv_class e = quorum_failure_class cfg t"
          by (metis ProbeEvent.select_convs(1) event_def, metis ProbeEvent.select_convs(2) event_def)
        then show ?thesis
          using t(2,3) len length_filter_all [of _ eps]
          by (auto simp: quorum_failure_class_def split: if_splits)
      qed
    qed
  qed
  from pos len have "eps \<noteq> []" by auto
  with quorum len dist verdict show ?thesis by simp
qed

theorem relay_verdict_witness:
  "http_quorum default_config \<le> length (filter (endpoint_answers default_config 100 \<circ> ho_requests sample_http)
     (take (endpoint_count default_config) (http_endpoints default_config)))"
proof -
  have "list_ex (\<lambda>e. pv_class e = Success \<and> pv_stage e \<noteq> Download)
      (test_through_xray default_config sample_http 100 False)"
    by (simp add: test_through_xray_def sample_http_def http_step_def http_ok_def remaining_budget_def
        http_endpoints_def endpoint_count_def http_quorum_def clamp_def no_tally_def success_event_def
        default_config_def default_health_def Let_def)
  then obtain e where "e \<in> set (test_through_xray default_config sample_http 100 False)"
    "pv_class e = Success" "pv_stage e \<noteq> Download" by (auto simp: list_ex_iff)
  with relay_verdict [OF this(1)] show ?thesis by blast
qed

lemma try_mirrors_Inl:
  "try_mirrors cfg deadline obs clock es = Inl found \<Longrightarrow>
     \<exists>e \<in> set es. found = download_endpoint cfg deadline e (obs e) \<and>
       (pv_class found = Success \<or> pv_class found = DownloadTooSlow)"
  by (induction es) (auto simp: Let_def split: if_splits sum.splits)

lemma try_mirrors_Inr:
  "try_mirrors cfg deadline obs clock es = Inr failures \<Longrightarrow>
     \<exists>k \<le> length es. (es \<noteq> [] \<longrightarrow> 0 < k) \<and>
       failures = map (\<lambda>e. download_endpoint cfg deadline e (obs e)) (take k es) \<and>
       (k < length es \<longrightarrow> remaining_budget deadline (clock (es ! (k - 1))) = None)"
proof (induction es arbitrary: failures)
  case (Cons e es)
  let ?p = "download_endpoint cfg deadline e (obs e)"
  have no: "\<not> (pv_class ?p = Success \<or> pv_class ?p = DownloadTooSlow)"
    using Cons.prems by (auto simp: Let_def)
  show ?case
  proof (cases "remaining_budget deadline (clock e) = None")
    case True
    with Cons.prems no have "failures = [?p]" by (simp add: Let_def)
    with True show ?thesis by (intro exI [of _ 1]) simp
  next
    case False
    with Cons.prems no obtain fs where fs: "try_mirrors cfg deadline obs clock es = Inr fs" "failures = ?p # fs"
      by (auto simp: Let_def split: sum.splits)
    with Cons.IH [OF fs(1)] obtain k where k: "k \<le> length es" "es \<noteq> [] \<longrightarrow> 0 < k"
      "fs = map (\<lambda>e. download_endpoint cfg deadline e (obs e)) (take k es)"
      "k < length es \<longrightarrow> remaining_budget deadline (clock (es ! (k - 1))) = None" by blast
    then show ?thesis
      using fs(2) by (intro exI [of _ "Suc k"]) (cases k; auto)
  qed
qed simp

text \<open>The download verdict: at most the first three distinct mirrors are tried, in order. A
  timeout, or a TLS failure, is reported only when every mirror tried ended in that very
  way, and mirrors are left untried only when the deadline has passed, so one broken
  mirror among answering ones is no evidence. A mirror that delivers slowly, however,
  decides the test alone: the others are not consulted.\<close>

theorem download_verdict_unanimous:
  fixes cfg :: AppConfig
  defines "mirrors \<equiv> take 3 (download_endpoints cfg)"
  assumes "d = download cfg deadline obs clock"
  shows "mirrors \<noteq> [] \<and> distinct mirrors \<and>
    (pv_class d \<in> {Success, DownloadTooSlow} \<longrightarrow>
       (\<exists>m \<in> set mirrors. d = download_endpoint cfg deadline m (obs m))) \<and>
    (pv_class d \<in> {DownloadTimeout, TlsTimeout} \<longrightarrow>
       (\<exists>k. 0 < k \<and> k \<le> length mirrors \<and>
          (\<forall>m \<in> set (take k mirrors). pv_class (download_endpoint cfg deadline m (obs m)) = pv_class d) \<and>
          (k < length mirrors \<longrightarrow> deadline \<le> clock (mirrors ! (k - 1))))) \<and>
    (pv_class (download_endpoint cfg deadline (hd mirrors) (obs (hd mirrors))) = DownloadTooSlow \<longrightarrow>
       d = download_endpoint cfg deadline (hd mirrors) (obs (hd mirrors)))"
proof (intro conjI impI)
  have ne: "download_endpoints cfg \<noteq> []" by (simp add: download_endpoints_def)
  then show nonempty: "mirrors \<noteq> []" by (simp add: mirrors_def)
  show "distinct mirrors"
    unfolding mirrors_def download_endpoints_def by (intro distinct_take keep_first_distinct)
  have eq: "d = (case try_mirrors cfg deadline obs clock mirrors of Inl found \<Rightarrow> found
      | Inr _ \<Rightarrow> download cfg deadline obs clock)"
    by (auto simp: assms(2) download_def mirrors_def split: sum.splits)
  have verdict: "pv_class d = download_verdict fs" if "try_mirrors cfg deadline obs clock mirrors = Inr fs" for fs
    using that by (simp add: assms(2) download_def mirrors_def)
  { assume "pv_class d \<in> {Success, DownloadTooSlow}"
    then obtain found where "try_mirrors cfg deadline obs clock mirrors = Inl found"
      using verdict by (cases "try_mirrors cfg deadline obs clock mirrors")
        (auto simp: download_verdict_def split: if_splits)
    with eq try_mirrors_Inl [OF this] show "\<exists>m \<in> set mirrors. d = download_endpoint cfg deadline m (obs m)"
      by auto }
  { assume c: "pv_class d \<in> {DownloadTimeout, TlsTimeout}"
    then obtain fs where fs: "try_mirrors cfg deadline obs clock mirrors = Inr fs"
      using eq try_mirrors_Inl [of cfg deadline obs clock mirrors]
      by (cases "try_mirrors cfg deadline obs clock mirrors") auto
    have all: "list_all (\<lambda>f. pv_class f = pv_class d) fs"
      using c verdict [OF fs] by (auto simp: download_verdict_def split: if_splits)
    from try_mirrors_Inr [OF fs] nonempty obtain k where "k \<le> length mirrors" "0 < k"
      "fs = map (\<lambda>e. download_endpoint cfg deadline e (obs e)) (take k mirrors)"
      "k < length mirrors \<longrightarrow> remaining_budget deadline (clock (mirrors ! (k - 1))) = None" by blast
    with all show "\<exists>k. 0 < k \<and> k \<le> length mirrors \<and>
          (\<forall>m \<in> set (take k mirrors). pv_class (download_endpoint cfg deadline m (obs m)) = pv_class d) \<and>
          (k < length mirrors \<longrightarrow> deadline \<le> clock (mirrors ! (k - 1)))"
      by (intro exI [of _ k]) (auto simp: list_all_iff remaining_budget_def split: if_splits) }
  { assume slow: "pv_class (download_endpoint cfg deadline (hd mirrors) (obs (hd mirrors))) = DownloadTooSlow"
    obtain m ms where "mirrors = m # ms" using nonempty by (cases mirrors) auto
    with slow eq show "d = download_endpoint cfg deadline (hd mirrors) (obs (hd mirrors))"
      by (simp add: Let_def) }
qed

text \<open>A single mirror that trickles ten bytes in a second makes the proxy too slow.\<close>

definition trickle :: request_obs where
  "trickle = \<lparr>rq_started = 0, rq_budget_at = 1, rq_response = Status 200 [(2, Chunk 10, 3)],
     rq_responded_at = 2, rq_finished_at = seconds 1\<rparr>"

theorem download_verdict_unanimous_witness:
  "pv_class (download default_config (seconds 5) (\<lambda>_. trickle) (\<lambda>_. seconds 1)) = DownloadTooSlow"
proof -
  define first where "first = hd (take 3 (download_endpoints default_config))"
  have "pv_class (download_endpoint default_config (seconds 5) first trickle) = DownloadTooSlow"
    by (simp add: download_endpoint_def measured_def trickle_def seconds_def remaining_budget_def
        http_ok_def max_bytes_def default_config_def default_download_test_def secs_f_def Let_def)
  with download_verdict_unanimous [OF refl, of default_config "seconds 5" "\<lambda>_. trickle" "\<lambda>_. seconds 1"]
  show ?thesis by (simp add: first_def)
qed

section \<open>The DNS cache\<close>

definition dns_ok :: "dns_cache \<Rightarrow> bool" where
  "dns_ok c \<longleftrightarrow> length c \<le> dns_cache_capacity \<and> distinct (map fst c)"

lemma distinct_fst_filter: "distinct (map fst c) \<Longrightarrow> distinct (map fst (filter P c))"
  by (induction c) auto

lemma dns_ok_insert: "dns_ok c \<Longrightarrow> dns_ok (cache_insert now key as c)"
proof -
  assume ok: "dns_ok c"
  define c1 where "c1 = (if dns_cache_capacity \<le> length c
      then (let kept = filter (\<lambda>(_, e). fresh_entry now e) c
            in if dns_cache_capacity \<le> length kept then [] else kept) else c)"
  have "length c1 < dns_cache_capacity" "distinct (map fst c1)"
    using ok by (auto simp: c1_def dns_ok_def dns_cache_capacity_def Let_def distinct_fst_filter)
  moreover have "length (filter (\<lambda>(k, _). k \<noteq> key) c1) \<le> length c1" by simp
  moreover have "cache_insert now key as c = (key, now, as) # filter (\<lambda>(k, _). k \<noteq> key) c1"
    by (simp add: cache_insert_def c1_def Let_def)
  ultimately show ?thesis
    by (auto simp: dns_ok_def distinct_fst_filter Suc_le_eq intro: le_less_trans [OF length_filter_le])
qed

lemma resolve_keeps_cache_ok:
  "dns_ok c \<Longrightarrow> dns_ok (snd (resolve_destination w a p deadline c))"
  by (auto simp: resolve_destination_def dns_ok_insert split: option.splits lookup.splits)

end
