(* ===== verification/Tables.thy ===== *)
theory Tables
  imports Json
begin

text \<open>
  The tables of the SQLite store (\<open>src/src/storage/mod.rs\<close>, the schema constants at its
  end) as lists of rows, the database as a record of them, and the statements the store
  is made of: \<open>UPDATE .. WHERE\<close>, \<open>INSERT .. ON CONFLICT DO UPDATE\<close>, \<open>INSERT OR IGNORE\<close>,
  \<open>ORDER BY .. LIMIT\<close> and \<open>LIKE\<close>.

  \<^item> A nullable column is an option, a column declared \<open>NOT NULL\<close> is not.
  \<^item> \<open>source_subs\<close> is JSON text of a list of strings; the column is that list.
  \<^item> Each operation of the store that runs in a transaction, or in one statement, is one
    function from database to database; SQLite serialises the writers.
\<close>

section \<open>Rows\<close>

record ExitMetadata =
  em_ip :: string
  em_hostname :: string
  em_city :: string
  em_region :: string
  em_country :: string
  em_loc :: string
  em_org :: string
  em_postal :: string
  em_timezone :: string
  em_raw :: json_text

record node =
  n_id :: string
  n_config_hash :: string
  n_raw_config :: string
  n_normalized_config :: json
  n_source_subs :: "string list"
  n_status :: string
  n_main_port :: "int option"
  n_relay_delay_ms :: "int option"
  n_download_kbps :: "int option"
  n_exit :: ExitMetadata
  n_exit_info_fetched_at :: "instant option"
  n_metadata_lease_until :: "instant option"
  n_health_success_ewma :: "real option"
  n_created_at :: instant
  n_updated_at :: instant
  n_last_test_at :: "instant option"
  n_last_download_test_at :: "instant option"
  n_next_test_at :: "instant option"
  n_lifecycle_state :: string
  n_state_entered_at :: "instant option"
  n_structurally_valid :: int
  n_health_alpha :: real
  n_health_beta :: real
  n_health_score :: real
  n_evidence_updated_at :: "instant option"
  n_testing_from_state :: "string option"
  n_waiting_from_state :: "string option"
  n_test_lease_until :: "instant option"
  n_publication_lease_until :: "instant option"
  n_publication_lease_kind :: "string option"
  n_activated_at :: "instant option"
  n_last_success_at :: "instant option"
  n_last_real_download_at :: "instant option"
  n_last_failure_at :: "instant option"
  n_last_failure_class :: "string option"
  n_last_failure_run_id :: "string option"
  n_success_streak :: int
  n_failure_streak :: int
  n_independent_failure_count :: int
  n_last_test_endpoint :: "string option"
  n_last_seen_generation :: "int option"
  n_upstream_missing_generations :: int
  n_retired_at :: "instant option"
  n_tombstone_until :: "instant option"

record test_event =
  te_id :: int
  te_proxy_id :: string
  te_run_id :: string
  te_occurred_at :: instant
  te_stage :: string
  te_result :: string
  te_failure_class :: string
  te_evidence_alpha :: real
  te_evidence_beta :: real
  te_half_life_seconds :: real
  te_latency_ms :: "real option"
  te_download_bps :: "real option"
  te_bytes_transferred :: "int option"
  te_duration_ms :: "int option"
  te_endpoint :: "string option"
  te_system_pressure :: "real option"
  te_incident_id :: "string option"
  te_detail_json :: json_text

record refresh_run =
  rr_id :: string
  rr_generation :: int
  rr_started_at :: instant
  rr_finished_at :: "instant option"
  rr_status :: string
  rr_source_count :: int
  rr_successful_source_count :: int
  rr_parsed_count :: int

record upstream_source =
  us_name :: string
  us_url :: string
  us_enabled :: int
  us_last_success_at :: "instant option"
  us_etag :: "string option"
  us_last_modified :: "string option"
  us_failure_streak :: int

record generation_member =
  gm_generation :: int
  gm_source_name :: string
  gm_config_hash :: string
  gm_seen_at :: instant

record client_node_state =
  cn_client_id :: string
  cn_node_id :: string
  cn_state :: string
  cn_fail_streak :: "int option"
  cn_rate_limit_streak :: "int option"
  cn_cooldown_until :: "instant option"
  cn_usage_count :: "int option"
  cn_success_count :: "int option"
  cn_broken_count :: "int option"
  cn_rate_limited_count :: "int option"
  cn_success_rate_ewma :: "real option"
  cn_last_assigned_at :: "instant option"
  cn_last_feedback_at :: "instant option"
  cn_last_failure_at :: "instant option"
  cn_last_success_at :: "instant option"

record assignment_event =
  ae_id :: string
  ae_client_id :: string
  ae_node_id :: string
  ae_port :: int
  ae_assigned_at :: instant
  ae_feedback_status :: "string option"
  ae_feedback_at :: "instant option"

record usage_event =
  ue_id :: string
  ue_client_id :: string
  ue_node_id :: string
  ue_event_type :: string
  ue_created_at :: instant

record test_history =
  th_node_id :: string
  th_test_kind :: string
  th_trigger :: string
  th_finished_at :: instant
  th_ok :: int
  th_latency_ms :: "int option"
  th_download_kbps :: "int option"
  th_error :: string
  th_status_before :: string
  th_status_after :: string
  th_details_json :: json_text

record system_event =
  se_id :: string
  se_created_at :: instant
  se_level :: string
  se_component :: string
  se_event :: string
  se_message :: string
  se_details_json :: json_text

record kv_row =
  kv_key :: string
  kv_value :: json_text
  kv_updated_at :: instant

record db =
  db_nodes :: "node list"
  db_events :: "test_event list"
  db_event_seq :: int
  db_runs :: "refresh_run list"
  db_sources :: "upstream_source list"
  db_members :: "generation_member list"
  db_clients :: "client_node_state list"
  db_assignments :: "assignment_event list"
  db_usage :: "usage_event list"
  db_history :: "test_history list"
  db_system_events :: "system_event list"
  db_service_state :: "kv_row list"
  db_scheduler_state :: "kv_row list"
  db_migrations :: "(string \<times> instant) list"

definition empty_exit :: ExitMetadata where
  "empty_exit =
     \<lparr>em_ip = [], em_hostname = [], em_city = [], em_region = [], em_country = [], em_loc = [],
      em_org = [], em_postal = [], em_timezone = [], em_raw = Json (JObj [])\<rparr>"

text \<open>A row with the column defaults of the schema, for the columns an insert leaves out.\<close>

definition new_node :: "string \<Rightarrow> string \<Rightarrow> instant \<Rightarrow> node" where
  "new_node nid config_hash now =
     \<lparr>n_id = nid, n_config_hash = config_hash, n_raw_config = [], n_normalized_config = JNull,
      n_source_subs = [], n_status = ''CANDIDATE'', n_main_port = None, n_relay_delay_ms = None,
      n_download_kbps = None, n_exit = empty_exit, n_exit_info_fetched_at = None,
      n_metadata_lease_until = None, n_health_success_ewma = Some 1, n_created_at = now,
      n_updated_at = now, n_last_test_at = None, n_last_download_test_at = None,
      n_next_test_at = None, n_lifecycle_state = ''CANDIDATE'', n_state_entered_at = None,
      n_structurally_valid = 1, n_health_alpha = 1, n_health_beta = 1, n_health_score = 1 / 2,
      n_evidence_updated_at = None, n_testing_from_state = None, n_waiting_from_state = None,
      n_test_lease_until = None, n_publication_lease_until = None,
      n_publication_lease_kind = None, n_activated_at = None, n_last_success_at = None,
      n_last_real_download_at = None, n_last_failure_at = None, n_last_failure_class = None,
      n_last_failure_run_id = None, n_success_streak = 0, n_failure_streak = 0,
      n_independent_failure_count = 0, n_last_test_endpoint = None,
      n_last_seen_generation = None, n_upstream_missing_generations = 0, n_retired_at = None,
      n_tombstone_until = None\<rparr>"

definition empty_db :: db where
  "empty_db =
     \<lparr>db_nodes = [], db_events = [], db_event_seq = 0, db_runs = [], db_sources = [],
      db_members = [], db_clients = [], db_assignments = [], db_usage = [], db_history = [],
      db_system_events = [], db_service_state = [], db_scheduler_state = [], db_migrations = []\<rparr>"

section \<open>Statements\<close>

definition upsert :: "('r \<Rightarrow> bool) \<Rightarrow> ('r \<Rightarrow> 'r) \<Rightarrow> 'r \<Rightarrow> 'r list \<Rightarrow> 'r list" where
  "upsert same upd new rs = (if list_ex same rs then update_where same upd rs else rs @ [new])"

definition insert_or_ignore :: "('r \<Rightarrow> bool) \<Rightarrow> 'r \<Rightarrow> 'r list \<Rightarrow> 'r list" where
  "insert_or_ignore same new rs = (if list_ex same rs then rs else rs @ [new])"

definition find_row :: "('r \<Rightarrow> bool) \<Rightarrow> 'r list \<Rightarrow> 'r option" where
  "find_row p rs = List.find p rs"

definition count_rows :: "('r \<Rightarrow> bool) \<Rightarrow> 'r list \<Rightarrow> nat" where
  "count_rows p rs = length (filter p rs)"

definition max_opt :: "int list \<Rightarrow> int option" where
  "max_opt xs = (if xs = [] then None else Some (Max (set xs)))"

definition on_nodes :: "(node list \<Rightarrow> node list) \<Rightarrow> db \<Rightarrow> db" where
  "on_nodes f d = d\<lparr>db_nodes := f (db_nodes d)\<rparr>"

definition node_of :: "string \<Rightarrow> db \<Rightarrow> node option" where
  "node_of nid d = find_row (\<lambda>n. n_id n = nid) (db_nodes d)"

text \<open>
  \<open>LIKE\<close>: \<open>%\<close> stands for any text, \<open>_\<close> for one character, ASCII letters match in either
  case.
\<close>

fun like :: "string \<Rightarrow> string \<Rightarrow> bool" where
  "like [] s = (s = [])"
| "like (p # ps) [] = (p = CHR ''%'' \<and> like ps [])"
| "like (p # ps) (c # cs) =
     (if p = CHR ''%'' then like ps (c # cs) \<or> like (p # ps) cs
      else if p = CHR ''_'' then like ps (dropWhile cont cs)
      else lower_char p = lower_char c \<and> like ps cs)"

definition manual_source :: "node \<Rightarrow> bool" where
  "manual_source n = list_ex (\<lambda>s. contains (to_lower s) ''manual'') (n_source_subs n)"

section \<open>Lemmas\<close>

lemma set_upsert_inv:
  assumes "\<And>r. r \<in> set rs \<Longrightarrow> P r" and "\<And>r. r \<in> set rs \<Longrightarrow> same r \<Longrightarrow> P (upd r)" and "P new"
    and "r \<in> set (upsert same upd new rs)"
  shows "P r"
  using assms by (auto simp: upsert_def set_update_where split: if_splits)

lemma set_insert_or_ignore:
  "set rs \<subseteq> set (insert_or_ignore same new rs)"
  "set (insert_or_ignore same new rs) \<subseteq> insert new (set rs)"
  by (auto simp: insert_or_ignore_def)

lemma insert_or_ignore_has:
  "same new \<Longrightarrow> \<exists>r \<in> set (insert_or_ignore same new rs). same r"
  by (auto simp: insert_or_ignore_def list_ex_iff)

lemma distinct_insert_or_ignore:
  "distinct (map f rs) \<Longrightarrow> (\<And>r. same r \<longleftrightarrow> f r = f new) \<Longrightarrow>
     distinct (map f (insert_or_ignore same new rs))"
  by (auto simp: insert_or_ignore_def list_ex_iff)

lemma distinct_upsert:
  "distinct (map f rs) \<Longrightarrow> (\<And>r. same r \<longleftrightarrow> f r = f new) \<Longrightarrow> (\<And>r. f (upd r) = f r) \<Longrightarrow>
     distinct (map f (upsert same upd new rs))"
  by (auto simp: upsert_def list_ex_iff map_update_where)

lemma find_row_Some: "find_row p rs = Some r \<Longrightarrow> r \<in> set rs \<and> p r"
  unfolding find_row_def by (auto simp: find_Some_iff)

lemma find_row_None: "find_row p rs = None \<longleftrightarrow> (\<forall>r \<in> set rs. \<not> p r)"
  unfolding find_row_def by (auto simp: find_None_iff)

lemma find_row_update_where:
  assumes "\<And>r. p r \<Longrightarrow> p (f r)" and "\<And>r. p r \<longleftrightarrow> q r"
  shows "find_row q (update_where p f rs) = map_option f (find_row p rs)"
  using assms by (induction rs) (auto simp: find_row_def)

lemma find_row_update_key:
  "(\<And>r. key (f r) = key r) \<Longrightarrow>
     find_row (\<lambda>r. key r = k) (update_where p f rs)
       = map_option (\<lambda>r. if p r then f r else r) (find_row (\<lambda>r. key r = k) rs)"
  by (induction rs) (auto simp: find_row_def)

lemma find_row_append: "find_row p (rs @ qs) = (case find_row p rs of None \<Rightarrow> find_row p qs | Some r \<Rightarrow> Some r)"
  by (induction rs) (auto simp: find_row_def)

text \<open>Looking up a row by its key after an upsert.\<close>

lemma find_row_upsert_key:
  assumes "\<And>r. same r \<longleftrightarrow> key r = k0" and "\<And>r. key (f r) = key r" and "key new = k0"
  shows "find_row (\<lambda>r. key r = k) (upsert same f new rs) =
    (if k = k0 then Some (case find_row (\<lambda>r. key r = k0) rs of None \<Rightarrow> new | Some r \<Rightarrow> f r)
     else find_row (\<lambda>r. key r = k) rs)"
proof (cases "list_ex same rs")
  case True
  then have "find_row (\<lambda>r. key r = k0) rs \<noteq> None"
    by (auto simp: find_row_None list_ex_iff assms(1))
  with True show ?thesis
    by (cases "find_row (\<lambda>r. key r = k) rs")
       (auto simp: upsert_def find_row_update_key assms(1,2) dest: find_row_Some)
next
  case False
  then have "find_row (\<lambda>r. key r = k0) rs = None"
    by (simp add: find_row_None list_ex_iff assms(1))
  moreover have "find_row p [x] = (if p x then Some x else None)" for p :: "'a \<Rightarrow> bool" and x
    by (simp add: find_row_def)
  ultimately show ?thesis
    using False by (auto simp: upsert_def find_row_append assms(3) split: option.splits)
qed

lemma max_opt_ge: "x \<in> set xs \<Longrightarrow> \<exists>m. max_opt xs = Some m \<and> x \<le> m"
  by (auto simp: max_opt_def)

lemma max_opt_in: "max_opt xs = Some m \<Longrightarrow> m \<in> set xs"
  by (auto simp: max_opt_def split: if_splits)

lemma count_rows_le: "count_rows p rs \<le> length rs"
  by (simp add: count_rows_def)

lemma like_percent_all [simp]: "like ''%'' s"
  by (induction s) auto

text \<open>The identity of the rows, which no update of the store touches.\<close>

definition node_keys :: "db \<Rightarrow> (string \<times> string) list" where
  "node_keys d = map (\<lambda>n. (n_id n, n_config_hash n)) (db_nodes d)"

definition unique_nodes :: "db \<Rightarrow> bool" where
  "unique_nodes d \<longleftrightarrow> distinct (map n_id (db_nodes d)) \<and> distinct (map n_config_hash (db_nodes d))"

lemma unique_nodes_keys: "unique_nodes d \<longleftrightarrow> distinct (map fst (node_keys d)) \<and> distinct (map snd (node_keys d))"
  by (simp add: unique_nodes_def node_keys_def comp_def)

lemma on_nodes_keys:
  "(\<And>n. p n \<Longrightarrow> n_id (f n) = n_id n \<and> n_config_hash (f n) = n_config_hash n) \<Longrightarrow>
     node_keys (on_nodes (update_where p f) d) = node_keys d"
  by (auto simp: node_keys_def on_nodes_def intro!: map_update_where)

lemma on_nodes_simps [simp]:
  "db_nodes (on_nodes f d) = f (db_nodes d)"
  "db_events (on_nodes f d) = db_events d"
  "db_runs (on_nodes f d) = db_runs d"
  "db_members (on_nodes f d) = db_members d"
  "db_sources (on_nodes f d) = db_sources d"
  "db_clients (on_nodes f d) = db_clients d"
  "db_usage (on_nodes f d) = db_usage d"
  "db_assignments (on_nodes f d) = db_assignments d"
  "db_event_seq (on_nodes f d) = db_event_seq d"
  by (simp_all add: on_nodes_def)

section \<open>The contract of a node update\<close>

text \<open>
  Every \<open>UPDATE nodes SET .. WHERE ..\<close> of the program keeps the identity of the rows. What
  follows from that is proved once: the key columns and their uniqueness stay, a row that
  is not selected stays, and an invariant of the rows needs to be shown for the changed
  ones only.
\<close>

locale node_update =
  fixes sel :: "node \<Rightarrow> bool" and upd :: "node \<Rightarrow> node"
  assumes upd_id: "n_id (upd n) = n_id n"
    and upd_hash: "n_config_hash (upd n) = n_config_hash n"
begin

lemma keys: "node_keys (on_nodes (update_where sel upd) d) = node_keys d"
  by (rule on_nodes_keys) (simp add: upd_id upd_hash)

lemma unique: "unique_nodes (on_nodes (update_where sel upd) d) \<longleftrightarrow> unique_nodes d"
  by (simp add: unique_nodes_keys keys)

lemma node_of_upd:
  "node_of k (on_nodes (update_where sel upd) d)
     = map_option (\<lambda>n. if sel n then upd n else n) (node_of k d)"
proof -
  have "find_row (\<lambda>n. n_id n = k) (update_where sel upd ns)
      = map_option (\<lambda>n. if sel n then upd n else n) (find_row (\<lambda>n. n_id n = k) ns)" for ns
    by (induction ns) (auto simp: find_row_def upd_id)
  then show ?thesis by (simp add: node_of_def)
qed

lemma frame: "node_of k d = Some n \<Longrightarrow> \<not> sel n \<Longrightarrow>
    node_of k (on_nodes (update_where sel upd) d) = Some n"
  by (simp add: node_of_upd)

lemma all_nodes:
  assumes "\<forall>n \<in> set (db_nodes d). P n" and "\<And>n. P n \<Longrightarrow> sel n \<Longrightarrow> P (upd n)"
  shows "\<forall>n \<in> set (db_nodes (on_nodes (update_where sel upd) d)). P n"
  using assms by (auto simp: set_update_where)

end

end
