(* ===== verification/Migration.thy ===== *)
theory Migration
  imports Tables
begin

text \<open>
  Starting the store: the key-value state tables, the migration leader lock, the
  pre-migration backup, the additive schema migration with its backfill of legacy rows,
  and the one-shot seed of publication leases.
\<close>

section \<open>Key-value state\<close>

definition kv_set :: "instant \<Rightarrow> string \<Rightarrow> json \<Rightarrow> kv_row list \<Rightarrow> kv_row list" where
  "kv_set now key v rs =
     upsert (\<lambda>r. kv_key r = key) (\<lambda>r. r\<lparr>kv_value := Json v, kv_updated_at := now\<rparr>)
       \<lparr>kv_key = key, kv_value = Json v, kv_updated_at = now\<rparr> rs"

definition kv_get :: "string \<Rightarrow> kv_row list \<Rightarrow> json option" where
  "kv_get key rs = map_option (\<lambda>r. json_or_raw (kv_value r)) (find_row (\<lambda>r. kv_key r = key) rs)"

definition set_service_state :: "instant \<Rightarrow> string \<Rightarrow> json \<Rightarrow> db \<Rightarrow> db" where
  "set_service_state now key v d = d\<lparr>db_service_state := kv_set now key v (db_service_state d)\<rparr>"

definition service_state :: "string \<Rightarrow> db \<Rightarrow> json option" where
  "service_state key d = kv_get key (db_service_state d)"

definition set_scheduler_state :: "instant \<Rightarrow> string \<Rightarrow> json \<Rightarrow> db \<Rightarrow> db" where
  "set_scheduler_state now key v d = d\<lparr>db_scheduler_state := kv_set now key v (db_scheduler_state d)\<rparr>"

definition scheduler_state :: "string \<Rightarrow> db \<Rightarrow> json option" where
  "scheduler_state key d = kv_get key (db_scheduler_state d)"

text \<open>The contract the rest of the program relies on: what was set last is read back, and
  other keys are not disturbed.\<close>

locale kv_store =
  fixes put :: "instant \<Rightarrow> string \<Rightarrow> json \<Rightarrow> 's \<Rightarrow> 's"
    and get :: "string \<Rightarrow> 's \<Rightarrow> json option"
  assumes get_put: "get k (put now k' v s) = (if k = k' then Some v else get k s)"
begin

lemma put_put: "get k (put now' k' v' (put now k' v s)) = get k (put now' k' v' s)"
  by (simp add: get_put)

lemma put_commute: "k1 \<noteq> k2 \<Longrightarrow>
    get k (put t1 k1 v1 (put t2 k2 v2 s)) = get k (put t2 k2 v2 (put t1 k1 v1 s))"
  by (simp add: get_put)

end

lemma kv_get_set: "kv_get k (kv_set now k' v rs) = (if k = k' then Some v else kv_get k rs)"
proof -
  have "find_row (\<lambda>r. kv_key r = k) (kv_set now k' v rs) =
    (if k = k' then Some (case find_row (\<lambda>r. kv_key r = k') rs of
        None \<Rightarrow> \<lparr>kv_key = k', kv_value = Json v, kv_updated_at = now\<rparr>
      | Some r \<Rightarrow> r\<lparr>kv_value := Json v, kv_updated_at := now\<rparr>)
     else find_row (\<lambda>r. kv_key r = k) rs)"
    unfolding kv_set_def by (rule find_row_upsert_key) simp_all
  then show ?thesis by (auto simp: kv_get_def split: option.splits)
qed

interpretation service: kv_store set_service_state service_state
  by unfold_locales (simp add: service_state_def set_service_state_def kv_get_set)

interpretation scheduling: kv_store set_scheduler_state scheduler_state
  by unfold_locales (simp add: scheduler_state_def set_scheduler_state_def kv_get_set)

section \<open>The migration leader lock\<close>

text \<open>
  One attempt to become the leader: the lock file is created when there is none; one
  that is more than fifteen minutes old is removed; otherwise the attempt waits, until
  the deadline. The environment decides what each attempt finds: the time, and the
  modification time of the lock file if there is one and it can be read, or that the file
  could not be created or written for another reason.
\<close>

datatype lock_file = NoLock | Lock "instant option" | LockFailed string
datatype leader_action = AcquireLock | RemoveStale | LeaderTimeout | WaitForLeader | LeaderFails string

definition stale_lock :: "instant \<Rightarrow> instant option \<Rightarrow> bool" where
  "stale_lock now modified =
     (case modified of None \<Rightarrow> False | Some m \<Rightarrow> m \<le> now \<and> minutes 15 < now - m)"

fun leader_attempt :: "instant \<Rightarrow> instant \<Rightarrow> lock_file \<Rightarrow> leader_action" where
  "leader_attempt deadline now NoLock = AcquireLock"
| "leader_attempt deadline now (LockFailed e) = LeaderFails e"
| "leader_attempt deadline now (Lock modified) =
     (if stale_lock now modified then RemoveStale
      else if deadline \<le> now then LeaderTimeout
      else WaitForLeader)"

fun acquire_migration_leader :: "instant \<Rightarrow> (instant \<times> lock_file) list \<Rightarrow> (string + instant) option" where
  "acquire_migration_leader deadline [] = None"
| "acquire_migration_leader deadline ((now, f) # fs) =
     (case leader_attempt deadline now f of
        AcquireLock \<Rightarrow> Some (Inr now)
      | LeaderTimeout \<Rightarrow> Some (Inl ''timed out waiting for migration leader lock'')
      | LeaderFails e \<Rightarrow> Some (Inl e)
      | RemoveStale \<Rightarrow> acquire_migration_leader deadline fs
      | WaitForLeader \<Rightarrow> acquire_migration_leader deadline fs)"

lemma acquired_without_lock:
  "acquire_migration_leader deadline fs = Some (Inr t) \<Longrightarrow> (t, NoLock) \<in> set fs"
proof (induction deadline fs rule: acquire_migration_leader.induct)
  case (2 deadline now f fs)
  then show ?case
    by (cases f) (auto split: if_splits)
qed simp

text \<open>
  The attempts of one start: a hundred milliseconds pass after an attempt that waits, none
  after one that removed a stale file.
\<close>

definition finds_stale :: "instant \<times> lock_file \<Rightarrow> bool" where
  "finds_stale a = (case snd a of Lock m \<Rightarrow> stale_lock (fst a) m | _ \<Rightarrow> False)"

fun polls :: "instant \<Rightarrow> (instant \<times> lock_file) list \<Rightarrow> bool" where
  "polls t [] = True"
| "polls t (a # fs) =
     (t \<le> fst a \<and> polls (if finds_stale a then fst a else fst a + millis 100) fs)"

lemma leader_decides:
  "\<not> finds_stale a \<Longrightarrow> deadline \<le> fst a \<Longrightarrow> \<exists>r. acquire_migration_leader deadline (a # fs) = Some r"
  by (cases a; cases "snd a") (auto simp: finds_stale_def)

lemma leader_continues:
  "acquire_migration_leader deadline (a # fs) = acquire_migration_leader deadline fs \<or>
   (\<exists>r. acquire_migration_leader deadline (a # fs) = Some r)"
  by (cases a; cases "snd a") auto

lemma leader_in_time:
  "polls t fs \<Longrightarrow> deadline \<le> t + millis 100 * int k \<Longrightarrow>
     k < length (filter (\<lambda>a. \<not> finds_stale a) fs) \<Longrightarrow> \<exists>r. acquire_migration_leader deadline fs = Some r"
proof (induction fs arbitrary: t k)
  case (Cons a fs)
  let ?r = "\<lambda>fs. \<exists>r. acquire_migration_leader deadline fs = Some r"
  have skip: "?r fs \<Longrightarrow> ?r (a # fs)" using leader_continues [of deadline a fs] by metis
  show ?case
  proof (cases "finds_stale a")
    case True
    then have "polls (fst a) fs" "deadline \<le> fst a + millis 100 * int k" using Cons.prems by auto
    then have "?r fs" by (rule Cons.IH) (use Cons.prems(3) True in simp)
    then show ?thesis by (rule skip)
  next
    case live: False
    show ?thesis
    proof (cases k)
      case 0
      then show ?thesis using Cons.prems live by (intro leader_decides) auto
    next
      case (Suc j)
      have "polls (fst a + millis 100) fs" using Cons.prems(1) live by simp
      then have "?r fs"
        by (rule Cons.IH [where k = j]) (use Cons.prems Suc live in \<open>auto simp: algebra_simps\<close>)
      then show ?thesis by (rule skip)
    qed
  qed
qed simp

section \<open>The pre-migration backup\<close>

definition backup_before_migrate ::
  "bool \<Rightarrow> bool \<Rightarrow> bool \<Rightarrow> nat \<Rightarrow> string \<Rightarrow> string \<Rightarrow> string option" where
  "backup_before_migrate marker_exists migrated file_exists bytes filename stamp =
     (if marker_exists \<and> migrated then None
      else if \<not> file_exists \<or> bytes = 0 then None
      else Some (filename @ ''.bak-before-rust-'' @ stamp))"

section \<open>The schema\<close>

definition compat_node_columns :: "string list" where
  "compat_node_columns =
     [''id'', ''config_hash'', ''raw_config'', ''normalized_config'', ''source_subs'',
      ''status'', ''main_port'', ''relay_delay_ms'', ''download_kbps'', ''exit_ip'',
      ''exit_hostname'', ''exit_city'', ''exit_region'', ''exit_country'', ''exit_loc'',
      ''exit_org'', ''exit_postal'', ''exit_timezone'', ''exit_info_json'',
      ''exit_info_fetched_at'', ''metadata_lease_until'', ''health_success_ewma'',
      ''created_at'', ''updated_at'', ''last_test_at'', ''last_download_test_at'',
      ''next_test_at'']"

definition node_additions :: "(string \<times> string) list" where
  "node_additions =
     (let quote = [CHR 0x27] in
      [(''next_test_at'', ''TEXT''),
       (''lifecycle_state'', ''TEXT NOT NULL DEFAULT '' @ quote @ ''CANDIDATE'' @ quote),
       (''state_entered_at'', ''TEXT''),
       (''structurally_valid'', ''INTEGER NOT NULL DEFAULT 1''),
       (''health_alpha'', ''REAL NOT NULL DEFAULT 1''),
       (''health_beta'', ''REAL NOT NULL DEFAULT 1''),
       (''health_score'', ''REAL NOT NULL DEFAULT 0.5''), (''evidence_updated_at'', ''TEXT''),
       (''testing_from_state'', ''TEXT''), (''waiting_from_state'', ''TEXT''),
       (''test_lease_until'', ''TEXT''), (''publication_lease_until'', ''TEXT''),
       (''publication_lease_kind'', ''TEXT''), (''activated_at'', ''TEXT''),
       (''last_success_at'', ''TEXT''), (''last_real_download_at'', ''TEXT''),
       (''last_failure_at'', ''TEXT''), (''last_failure_class'', ''TEXT''),
       (''last_failure_run_id'', ''TEXT''), (''success_streak'', ''INTEGER NOT NULL DEFAULT 0''),
       (''last_download_test_at'', ''TEXT''),
       (''failure_streak'', ''INTEGER NOT NULL DEFAULT 0''),
       (''independent_failure_count'', ''INTEGER NOT NULL DEFAULT 0''),
       (''last_test_endpoint'', ''TEXT''),
       (''exit_ip'', ''TEXT NOT NULL DEFAULT '' @ quote @ quote),
       (''exit_hostname'', ''TEXT NOT NULL DEFAULT '' @ quote @ quote),
       (''exit_city'', ''TEXT NOT NULL DEFAULT '' @ quote @ quote),
       (''exit_region'', ''TEXT NOT NULL DEFAULT '' @ quote @ quote),
       (''exit_loc'', ''TEXT NOT NULL DEFAULT '' @ quote @ quote),
       (''exit_org'', ''TEXT NOT NULL DEFAULT '' @ quote @ quote),
       (''exit_postal'', ''TEXT NOT NULL DEFAULT '' @ quote @ quote),
       (''exit_timezone'', ''TEXT NOT NULL DEFAULT '' @ quote @ quote),
       (''exit_info_json'', ''TEXT NOT NULL DEFAULT '' @ quote @ ''{}'' @ quote),
       (''exit_info_fetched_at'', ''TEXT''), (''metadata_lease_until'', ''TEXT''),
       (''last_seen_generation'', ''INTEGER''),
       (''upstream_missing_generations'', ''INTEGER NOT NULL DEFAULT 0''),
       (''retired_at'', ''TEXT''), (''tombstone_until'', ''TEXT'')])"

text \<open>The columns of \<open>nodes\<close> after the migration: what is missing is added, in the order of the
  table.\<close>

definition migrate_columns :: "string list \<Rightarrow> string list" where
  "migrate_columns existing =
     existing @ filter (\<lambda>c. c \<notin> set existing) (map fst node_additions)"

section \<open>The backfill\<close>

definition legacy_state :: "string \<Rightarrow> string \<Rightarrow> string" where
  "legacy_state status old =
     (if status = ''DEAD'' then ''DORMANT'' else if status = ''REMOVED'' then ''RETIRED'' else old)"

definition by_state :: "string \<Rightarrow> real \<Rightarrow> real \<Rightarrow> real \<Rightarrow> real" where
  "by_state s active probation other =
     (if s = ''ACTIVE'' then active else if s = ''PROBATION'' then probation else other)"

text \<open>The update statements of the migration, in their order; each of them looks at one row at a
  time.\<close>

definition fill_lifecycle :: "node \<Rightarrow> node" where
  "fill_lifecycle n =
     (if n_status n \<in> {''DEAD'', ''REMOVED''} \<or> n_lifecycle_state n = ''''
      then n\<lparr>n_lifecycle_state := legacy_state (n_status n) (n_lifecycle_state n)\<rparr> else n)"

definition fill_status :: "node \<Rightarrow> node" where
  "fill_status n =
     (if n_lifecycle_state n \<in> {''DORMANT'', ''RETIRED'', ''INVALID''} \<and> n_status n \<in> {''DEAD'', ''REMOVED''}
      then n\<lparr>n_status := n_lifecycle_state n\<rparr> else n)"

definition fill_alpha :: "node \<Rightarrow> node" where
  "fill_alpha n =
     (if n_health_alpha n \<le> 0
      then n\<lparr>n_health_alpha := by_state (n_lifecycle_state n) 8 3 1\<rparr> else n)"

definition fill_beta :: "node \<Rightarrow> node" where
  "fill_beta n =
     (if n_health_beta n \<le> 0
      then n\<lparr>n_health_beta := by_state (n_lifecycle_state n) 1 2 1\<rparr> else n)"

definition fill_score :: "node \<Rightarrow> node" where
  "fill_score n =
     (if n_health_score n < 0 \<or> 1 < n_health_score n
      then n\<lparr>n_health_score := n_health_alpha n / (n_health_alpha n + n_health_beta n)\<rparr> else n)"

definition fill_download :: "node \<Rightarrow> node" where
  "fill_download n =
     (if n_last_real_download_at n = None \<and> n_last_download_test_at n \<noteq> None
      then n\<lparr>n_last_real_download_at := n_last_download_test_at n\<rparr> else n)"

definition recent_download :: "instant \<Rightarrow> node \<Rightarrow> bool" where
  "recent_download now n =
     (case n_last_download_test_at n of None \<Rightarrow> False | Some t \<Rightarrow> now - hours 24 \<le> t)"

definition fill_lease :: "instant \<Rightarrow> node \<Rightarrow> node" where
  "fill_lease now n =
     (if n_lifecycle_state n = ''ACTIVE'' \<and> n_publication_lease_until n = None \<and> recent_download now n
      then n\<lparr>n_publication_lease_until := Some (now + hours 6)\<rparr> else n)"

definition backfill_row :: "instant \<Rightarrow> node \<Rightarrow> node" where
  "backfill_row now n =
     fill_lease now (fill_download (fill_score (fill_beta (fill_alpha (fill_status (fill_lifecycle n))))))"

definition backfill :: "instant \<Rightarrow> node list \<Rightarrow> node list" where
  "backfill now ns = map (backfill_row now) ns"

text \<open>The statement for \<open>structurally_valid IS NULL\<close> finds no row: the column is declared
  \<open>NOT NULL\<close>.\<close>

definition migrate :: "instant \<Rightarrow> db \<Rightarrow> db" where
  "migrate now d =
     (on_nodes (backfill now) d)\<lparr>db_migrations :=
        insert_or_ignore (\<lambda>m. fst m = ''rust-evidence-v1'') (''rust-evidence-v1'', now) (db_migrations d)\<rparr>"

section \<open>The lease seed\<close>

definition seed_row :: "instant \<Rightarrow> nat \<Rightarrow> node \<Rightarrow> node" where
  "seed_row now h n =
     n\<lparr>n_publication_lease_until := Some (now + hours (int (max h 1))),
       n_publication_lease_kind := Some ''legacy-download-seed'', n_updated_at := now\<rparr>"

definition seedable :: "node \<Rightarrow> bool" where
  "seedable n =
     (n_lifecycle_state n = ''ACTIVE'' \<and> n_structurally_valid n = 1 \<and>
      0 < coalesce (n_download_kbps n) 0 \<and> n_publication_lease_until n = None)"

definition seed_key :: string where "seed_key = ''legacy_download_lease_seed_v1''"

definition seed_legacy_download_leases :: "instant \<Rightarrow> nat \<Rightarrow> db \<Rightarrow> nat \<times> db" where
  "seed_legacy_download_leases now h d =
     (if service_state seed_key d \<noteq> None then (0, d)
      else
        (let affected = rows_affected seedable (db_nodes d);
             d1 = on_nodes (update_where seedable (seed_row now h)) d;
             row = \<lparr>kv_key = seed_key,
                    kv_value = Json (json_obj [(''at'', JInt now), (''hours'', JInt (int h)),
                                               (''seeded'', JInt (int affected))]),
                    kv_updated_at = now\<rparr>
         in (affected, d1\<lparr>db_service_state :=
               insert_or_ignore (\<lambda>r. kv_key r = seed_key) row (db_service_state d1)\<rparr>)))"

section \<open>Lemmas\<close>

lemma fill_lifecycle_frame [simp]:
  "n_id (fill_lifecycle n) = n_id n"
  "n_config_hash (fill_lifecycle n) = n_config_hash n"
  "n_raw_config (fill_lifecycle n) = n_raw_config n"
  "n_source_subs (fill_lifecycle n) = n_source_subs n"
  "n_status (fill_lifecycle n) = n_status n"
  "n_health_alpha (fill_lifecycle n) = n_health_alpha n"
  "n_health_beta (fill_lifecycle n) = n_health_beta n"
  "n_health_score (fill_lifecycle n) = n_health_score n"
  "n_last_real_download_at (fill_lifecycle n) = n_last_real_download_at n"
  "n_last_download_test_at (fill_lifecycle n) = n_last_download_test_at n"
  "n_publication_lease_until (fill_lifecycle n) = n_publication_lease_until n"
  by (simp_all add: fill_lifecycle_def)

lemma fill_status_frame [simp]:
  "n_id (fill_status n) = n_id n"
  "n_config_hash (fill_status n) = n_config_hash n"
  "n_raw_config (fill_status n) = n_raw_config n"
  "n_source_subs (fill_status n) = n_source_subs n"
  "n_lifecycle_state (fill_status n) = n_lifecycle_state n"
  "n_health_alpha (fill_status n) = n_health_alpha n"
  "n_health_beta (fill_status n) = n_health_beta n"
  "n_health_score (fill_status n) = n_health_score n"
  "n_last_real_download_at (fill_status n) = n_last_real_download_at n"
  "n_last_download_test_at (fill_status n) = n_last_download_test_at n"
  "n_publication_lease_until (fill_status n) = n_publication_lease_until n"
  by (simp_all add: fill_status_def)

lemma fill_alpha_frame [simp]:
  "n_id (fill_alpha n) = n_id n"
  "n_config_hash (fill_alpha n) = n_config_hash n"
  "n_raw_config (fill_alpha n) = n_raw_config n"
  "n_source_subs (fill_alpha n) = n_source_subs n"
  "n_lifecycle_state (fill_alpha n) = n_lifecycle_state n"
  "n_status (fill_alpha n) = n_status n"
  "n_health_beta (fill_alpha n) = n_health_beta n"
  "n_health_score (fill_alpha n) = n_health_score n"
  "n_last_real_download_at (fill_alpha n) = n_last_real_download_at n"
  "n_last_download_test_at (fill_alpha n) = n_last_download_test_at n"
  "n_publication_lease_until (fill_alpha n) = n_publication_lease_until n"
  by (simp_all add: fill_alpha_def)

lemma fill_beta_frame [simp]:
  "n_id (fill_beta n) = n_id n"
  "n_config_hash (fill_beta n) = n_config_hash n"
  "n_raw_config (fill_beta n) = n_raw_config n"
  "n_source_subs (fill_beta n) = n_source_subs n"
  "n_lifecycle_state (fill_beta n) = n_lifecycle_state n"
  "n_status (fill_beta n) = n_status n"
  "n_health_alpha (fill_beta n) = n_health_alpha n"
  "n_health_score (fill_beta n) = n_health_score n"
  "n_last_real_download_at (fill_beta n) = n_last_real_download_at n"
  "n_last_download_test_at (fill_beta n) = n_last_download_test_at n"
  "n_publication_lease_until (fill_beta n) = n_publication_lease_until n"
  by (simp_all add: fill_beta_def)

lemma fill_score_frame [simp]:
  "n_id (fill_score n) = n_id n"
  "n_config_hash (fill_score n) = n_config_hash n"
  "n_raw_config (fill_score n) = n_raw_config n"
  "n_source_subs (fill_score n) = n_source_subs n"
  "n_lifecycle_state (fill_score n) = n_lifecycle_state n"
  "n_status (fill_score n) = n_status n"
  "n_health_alpha (fill_score n) = n_health_alpha n"
  "n_health_beta (fill_score n) = n_health_beta n"
  "n_last_real_download_at (fill_score n) = n_last_real_download_at n"
  "n_last_download_test_at (fill_score n) = n_last_download_test_at n"
  "n_publication_lease_until (fill_score n) = n_publication_lease_until n"
  by (simp_all add: fill_score_def)

lemma fill_download_frame [simp]:
  "n_id (fill_download n) = n_id n"
  "n_config_hash (fill_download n) = n_config_hash n"
  "n_raw_config (fill_download n) = n_raw_config n"
  "n_source_subs (fill_download n) = n_source_subs n"
  "n_lifecycle_state (fill_download n) = n_lifecycle_state n"
  "n_status (fill_download n) = n_status n"
  "n_health_alpha (fill_download n) = n_health_alpha n"
  "n_health_beta (fill_download n) = n_health_beta n"
  "n_health_score (fill_download n) = n_health_score n"
  "n_last_download_test_at (fill_download n) = n_last_download_test_at n"
  "n_publication_lease_until (fill_download n) = n_publication_lease_until n"
  by (simp_all add: fill_download_def)

lemma fill_lease_frame [simp]:
  "n_id (fill_lease now n) = n_id n"
  "n_config_hash (fill_lease now n) = n_config_hash n"
  "n_raw_config (fill_lease now n) = n_raw_config n"
  "n_source_subs (fill_lease now n) = n_source_subs n"
  "n_lifecycle_state (fill_lease now n) = n_lifecycle_state n"
  "n_status (fill_lease now n) = n_status n"
  "n_health_alpha (fill_lease now n) = n_health_alpha n"
  "n_health_beta (fill_lease now n) = n_health_beta n"
  "n_health_score (fill_lease now n) = n_health_score n"
  "n_last_real_download_at (fill_lease now n) = n_last_real_download_at n"
  "n_last_download_test_at (fill_lease now n) = n_last_download_test_at n"
  by (simp_all add: fill_lease_def)

lemma by_state_pos [simp]: "0 < a \<Longrightarrow> 0 < b \<Longrightarrow> 0 < c \<Longrightarrow> 0 < by_state s a b c"
  by (simp add: by_state_def)

lemma fill_changes [simp]:
  "n_lifecycle_state (fill_lifecycle n) = legacy_state (n_status n) (n_lifecycle_state n)"
  "n_status (fill_status n) =
     (if n_lifecycle_state n \<in> {''DORMANT'', ''RETIRED'', ''INVALID''} \<and> n_status n \<in> {''DEAD'', ''REMOVED''}
      then n_lifecycle_state n else n_status n)"
  "0 < n_health_alpha (fill_alpha n)" "0 < n_health_beta (fill_beta n)"
  "n_last_real_download_at (fill_download n) = coalesce2 (n_last_real_download_at n) (n_last_download_test_at n)"
  by (auto simp: fill_lifecycle_def fill_status_def fill_alpha_def fill_beta_def fill_download_def
      legacy_state_def) (cases "n_last_real_download_at n"; simp)

lemma fill_score_bounds:
  "0 < n_health_alpha n \<Longrightarrow> 0 < n_health_beta n \<Longrightarrow> 0 \<le> n_health_score (fill_score n) \<and> n_health_score (fill_score n) \<le> 1"
  by (auto simp: fill_score_def)

lemma recent_download_cong:
  "n_last_download_test_at m = n_last_download_test_at n \<Longrightarrow> recent_download now m = recent_download now n"
  by (simp add: recent_download_def)

lemma recent_download_mono: "recent_download now' n \<Longrightarrow> now \<le> now' \<Longrightarrow> recent_download now n"
  by (auto simp: recent_download_def split: option.splits)

lemma fill_lease_done:
  "n_lifecycle_state n = ''ACTIVE'' \<Longrightarrow> n_publication_lease_until (fill_lease now n) = None \<Longrightarrow>
     \<not> recent_download now n"
  by (auto simp: fill_lease_def split: if_splits)

text \<open>A row no statement of the backfill selects.\<close>

definition settled :: "instant \<Rightarrow> node \<Rightarrow> bool" where
  "settled now n \<longleftrightarrow>
     n_status n \<notin> {''DEAD'', ''REMOVED''} \<and> 0 < n_health_alpha n \<and> 0 < n_health_beta n \<and>
     0 \<le> n_health_score n \<and> n_health_score n \<le> 1 \<and>
     (n_last_real_download_at n = None \<longrightarrow> n_last_download_test_at n = None) \<and>
     (n_lifecycle_state n = ''ACTIVE'' \<and> n_publication_lease_until n = None \<longrightarrow> \<not> recent_download now n)"

lemma settled_fixpoint: "settled now n \<Longrightarrow> backfill_row now n = n"
proof -
  assume s: "settled now n"
  have "fill_lifecycle n = n"
    using s by (auto simp: settled_def fill_lifecycle_def legacy_state_def)
  moreover have "fill_status n = n" using s by (auto simp: settled_def fill_status_def)
  moreover have "fill_alpha n = n" using s by (simp add: settled_def fill_alpha_def)
  moreover have "fill_beta n = n" using s by (simp add: settled_def fill_beta_def)
  moreover have "fill_score n = n" using s by (simp add: settled_def fill_score_def)
  moreover have "fill_download n = n" using s by (auto simp: settled_def fill_download_def)
  moreover have "fill_lease now n = n" using s by (auto simp: settled_def fill_lease_def)
  ultimately show ?thesis by (simp add: backfill_row_def)
qed

lemma settled_mono: "settled now n \<Longrightarrow> now \<le> now' \<Longrightarrow> settled now' n"
  by (auto simp: settled_def dest: recent_download_mono)

lemma settled_backfill: "settled now (backfill_row now n)"
proof -
  define m where "m = fill_beta (fill_alpha (fill_status (fill_lifecycle n)))"
  define m' where "m' = fill_download (fill_score m)"
  have m: "0 < n_health_alpha m" "0 < n_health_beta m" "n_status m \<notin> {''DEAD'', ''REMOVED''}"
    by (auto simp: m_def legacy_state_def)
  then have m': "0 < n_health_alpha m'" "0 < n_health_beta m'" "n_status m' \<notin> {''DEAD'', ''REMOVED''}"
      "0 \<le> n_health_score m'" "n_health_score m' \<le> 1"
      "n_last_real_download_at m' = None \<longrightarrow> n_last_download_test_at m' = None"
    using fill_score_bounds [of m] by (auto simp: m'_def)
  have "backfill_row now n = fill_lease now m'" by (simp add: backfill_row_def m'_def m_def)
  with m' fill_lease_done [of m' now] show ?thesis
    by (auto simp: settled_def recent_download_cong [of "fill_lease now m'" m'])
qed

lemma backfill_row_frame [simp]:
  "n_id (backfill_row now n) = n_id n" "n_config_hash (backfill_row now n) = n_config_hash n"
  "n_raw_config (backfill_row now n) = n_raw_config n"
  "n_source_subs (backfill_row now n) = n_source_subs n"
  "n_lifecycle_state (backfill_row now n) = legacy_state (n_status n) (n_lifecycle_state n)"
  by (simp_all add: backfill_row_def)

lemma backfill_lease:
  "n_publication_lease_until (backfill_row now n) = n_publication_lease_until n \<or>
   n_publication_lease_until n = None \<and> legacy_state (n_status n) (n_lifecycle_state n) = ''ACTIVE'' \<and>
   recent_download now n \<and> n_publication_lease_until (backfill_row now n) = Some (now + hours 6)"
proof -
  define m where "m = fill_download (fill_score (fill_beta (fill_alpha (fill_status (fill_lifecycle n)))))"
  have "n_lifecycle_state m = legacy_state (n_status n) (n_lifecycle_state n)"
    "n_publication_lease_until m = n_publication_lease_until n"
    "recent_download now m = recent_download now n"
    by (auto simp: m_def intro!: recent_download_cong)
  moreover have "backfill_row now n = fill_lease now m" by (simp add: backfill_row_def m_def)
  ultimately show ?thesis by (auto simp: fill_lease_def)
qed

lemma migrate_nodes [simp]: "db_nodes (migrate now d) = map (backfill_row now) (db_nodes d)"
  by (simp add: migrate_def backfill_def)

interpretation seeded: node_update seedable "seed_row now h" for now h
  by unfold_locales (simp_all add: seed_row_def)

section \<open>Properties\<close>

text \<open>C40. The migration keeps every proxy and repeats harmlessly: identities and raw
  configurations survive, names of the previous program become DORMANT and RETIRED,
  the evidence columns hold usable values, a lease is granted to nobody but an ACTIVE
  node without one that downloaded in the last day, and running the migration again at
  any later time changes nothing.\<close>

theorem migration_idempotent:
  "node_keys (migrate now d) = node_keys d \<and>
   map n_raw_config (db_nodes (migrate now d)) = map n_raw_config (db_nodes d) \<and>
   (\<forall>n \<in> set (db_nodes (migrate now d)).
      n_status n \<notin> {''DEAD'', ''REMOVED''} \<and> 0 < n_health_alpha n \<and> 0 < n_health_beta n \<and>
      n_health_score n \<in> {0..1}) \<and>
   (\<forall>n \<in> set (db_nodes d).
      n_publication_lease_until (backfill_row now n) = n_publication_lease_until n \<or>
      n_publication_lease_until n = None \<and> n_lifecycle_state (backfill_row now n) = ''ACTIVE'' \<and>
      recent_download now n) \<and>
   (\<forall>now'. now \<le> now' \<longrightarrow> db_nodes (migrate now' (migrate now d)) = db_nodes (migrate now d))"
proof (intro conjI ballI allI impI)
  show "node_keys (migrate now d) = node_keys d"
    by (simp add: node_keys_def)
  show "map n_raw_config (db_nodes (migrate now d)) = map n_raw_config (db_nodes d)"
    by simp
  fix now' assume "now \<le> now'"
  then show "db_nodes (migrate now' (migrate now d)) = db_nodes (migrate now d)"
    using settled_fixpoint [OF settled_mono [OF settled_backfill]] by simp
next
  fix n assume "n \<in> set (db_nodes (migrate now d))"
  then have "settled now n" using settled_backfill by auto
  then show "n_status n \<notin> {''DEAD'', ''REMOVED''}" "0 < n_health_alpha n" "0 < n_health_beta n"
    "n_health_score n \<in> {0..1}"
    by (auto simp: settled_def)
next
  fix n
  show "n_publication_lease_until (backfill_row now n) = n_publication_lease_until n \<or>
      n_publication_lease_until n = None \<and> n_lifecycle_state (backfill_row now n) = ''ACTIVE'' \<and>
      recent_download now n"
    using backfill_lease [of now n] by auto
qed

theorem migration_idempotent_witness:
  "db_nodes (migrate (hours 5) (migrate 0 (empty_db\<lparr>db_nodes := [(new_node ''a'' ''h'' 0)\<lparr>n_status := ''DEAD''\<rparr>]\<rparr>)))
     = db_nodes (migrate 0 (empty_db\<lparr>db_nodes := [(new_node ''a'' ''h'' 0)\<lparr>n_status := ''DEAD''\<rparr>]\<rparr>))"
  using migration_idempotent [of 0 "empty_db\<lparr>db_nodes := [(new_node ''a'' ''h'' 0)\<lparr>n_status := ''DEAD''\<rparr>]\<rparr>"]
  by (auto simp: time_defs)

text \<open>C9. A start never waits for ever for the migration lock: attempts begin ninety seconds
  before the deadline and lie at least a hundred milliseconds apart, so after nine hundred
  and one attempts that do not find a stale lock file the start has become the leader or
  has failed. Attempts that find a stale lock file do not count: when the file cannot be
  removed, each attempt finds it again at once, and the loop, which looks at its deadline
  only after that test, is never left.\<close>

theorem leader_wait_ends:
  assumes "polls (deadline - seconds 90) fs" and "900 < length (filter (\<lambda>a. \<not> finds_stale a) fs)"
  shows "(\<exists>r. acquire_migration_leader deadline fs = Some r) \<and>
    (\<forall>gs. list_all finds_stale gs \<longrightarrow> acquire_migration_leader deadline gs = None)"
proof (intro conjI allI impI)
  have "deadline \<le> deadline - seconds 90 + millis 100 * int 900" by (simp add: time_defs)
  then show "\<exists>r. acquire_migration_leader deadline fs = Some r"
    using leader_in_time [OF assms(1) _ assms(2)] by blast
  fix gs
  show "list_all finds_stale gs \<Longrightarrow> acquire_migration_leader deadline gs = None"
  proof (induction gs)
    case (Cons a gs)
    then show ?case by (cases a; cases "snd a") (auto simp: finds_stale_def)
  qed simp
qed

lemma polls_locked: "polls t (map (\<lambda>i. (t + millis 100 * int i, Lock None)) [j ..< k])"
proof -
  have "t' \<le> t + millis 100 * int j \<Longrightarrow> polls t' (map (\<lambda>i. (t + millis 100 * int i, Lock None)) [j ..< k])" for t'
  proof (induction "k - j" arbitrary: j t')
    case (Suc n)
    then have "[j ..< k] = j # [Suc j ..< k]" by (simp add: upt_rec)
    with Suc show ?case by (simp add: finds_stale_def stale_lock_def algebra_simps)
  qed simp
  then show ?thesis by (simp add: time_defs)
qed

theorem leader_wait_ends_witness:
  "\<exists>r. acquire_migration_leader (seconds 90) (map (\<lambda>i. (millis 100 * int i, Lock None)) [0 ..< 901]) = Some r"
proof -
  let ?fs = "map (\<lambda>i. (millis 100 * int i, Lock None)) [0 ..< 901]"
  have "filter (\<lambda>a. \<not> finds_stale a) ?fs = ?fs"
    by (rule filter_True) (auto simp: finds_stale_def stale_lock_def)
  then have "900 < length (filter (\<lambda>a. \<not> finds_stale a) ?fs)" by (simp only: length_map length_upt)
  then show ?thesis
    using leader_wait_ends [of "seconds 90" ?fs] polls_locked [of 0 0 901] by simp
qed

text \<open>The legacy seed runs once: the first call grants leases only to ACTIVE, valid nodes
  with a recorded download and no lease; every later call, at any time and for any number
  of hours, seeds nothing and changes nothing, so no lease is ever extended by it.\<close>

theorem legacy_seed_runs_once:
  "(\<forall>k n. node_of k d = Some n \<and> n_publication_lease_until n \<noteq> None \<longrightarrow>
      node_of k (snd (seed_legacy_download_leases now h d)) = Some n) \<and>
   seed_legacy_download_leases now' h' (snd (seed_legacy_download_leases now h d))
     = (0, snd (seed_legacy_download_leases now h d))"
proof -
  let ?d = "snd (seed_legacy_download_leases now h d)"
  have "node_of k ?d = Some n" if "node_of k d = Some n" "n_publication_lease_until n \<noteq> None" for k n
    using that seeded.node_of_upd [of k now h d]
    by (auto simp: seed_legacy_download_leases_def Let_def node_of_def seedable_def)
  moreover have "service_state seed_key ?d \<noteq> None"
    by (auto simp: seed_legacy_download_leases_def Let_def service_state_def kv_get_def find_row_None
        insert_or_ignore_def list_ex_iff)
  ultimately show ?thesis by (auto simp: seed_legacy_download_leases_def)
qed

theorem legacy_seed_runs_once_witness:
  "seed_legacy_download_leases (hours 9) 24 (snd (seed_legacy_download_leases 0 6 empty_db))
     = (0, snd (seed_legacy_download_leases 0 6 empty_db))"
  using legacy_seed_runs_once [of empty_db 0 6 "hours 9" 24] by blast

end
