(* ===== verification/Leases.thy ===== *)
theory Leases
  imports Tables
begin

text \<open>
  The single-statement operations of the store on a node: giving a test lease back,
  waiting for a port, the main port, the metadata lease, revival, a manual test, removal
  of expired tombstones; and the log of system events.
\<close>

section \<open>Test leases and ports\<close>

definition release_row :: "instant \<Rightarrow> node \<Rightarrow> node" where
  "release_row now n =
     n\<lparr>n_lifecycle_state := coalesce (n_testing_from_state n) (n_lifecycle_state n),
       n_status := coalesce (n_testing_from_state n) (n_status n),
       n_testing_from_state := None, n_test_lease_until := None, n_updated_at := now\<rparr>"

definition release_test_lease :: "instant \<Rightarrow> string \<Rightarrow> db \<Rightarrow> db" where
  "release_test_lease now pid =
     on_nodes (update_where (\<lambda>n. n_id n = pid \<and> n_lifecycle_state n = ''TESTING'') (release_row now))"

definition waiting_row :: "instant \<Rightarrow> duration \<Rightarrow> node \<Rightarrow> node" where
  "waiting_row now retry_after n =
     n\<lparr>n_waiting_from_state := Some (n_lifecycle_state n),
       n_lifecycle_state := ''WAITING_FOR_PORT'', n_status := ''WAITING_FOR_PORT'',
       n_test_lease_until := None, n_testing_from_state := None,
       n_next_test_at := Some (now + max retry_after (seconds 1)),
       n_state_entered_at := Some now, n_updated_at := now\<rparr>"

definition mark_waiting_for_port :: "instant \<Rightarrow> string \<Rightarrow> duration \<Rightarrow> db \<Rightarrow> db" where
  "mark_waiting_for_port now pid retry_after =
     on_nodes (update_where (\<lambda>n. n_id n = pid \<and> n_structurally_valid n = 1) (waiting_row now retry_after))"

definition port_row :: "instant \<Rightarrow> int option \<Rightarrow> node \<Rightarrow> node" where
  "port_row now port n = n\<lparr>n_main_port := port, n_updated_at := now\<rparr>"

definition set_main_port :: "instant \<Rightarrow> string \<Rightarrow> u16 \<Rightarrow> db \<Rightarrow> db" where
  "set_main_port now pid port =
     on_nodes (update_where (\<lambda>n. n_id n = pid) (port_row now (Some (uint port))))"

definition clear_main_port :: "instant \<Rightarrow> string \<Rightarrow> db \<Rightarrow> db" where
  "clear_main_port now pid = on_nodes (update_where (\<lambda>n. n_id n = pid) (port_row now None))"

definition clear_stale_runtime_ports :: "instant \<Rightarrow> db \<Rightarrow> nat \<times> db" where
  "clear_stale_runtime_ports now d =
     (rows_affected (\<lambda>n. n_main_port n \<noteq> None) (db_nodes d),
      on_nodes (update_where (\<lambda>n. n_main_port n \<noteq> None) (port_row now None)) d)"

section \<open>Metadata\<close>

definition metadata_due :: "instant \<Rightarrow> duration \<Rightarrow> string \<Rightarrow> node \<Rightarrow> bool" where
  "metadata_due now cache_ttl pid n =
     (n_id n = pid \<and> null_or_le (n_metadata_lease_until n) now \<and>
      null_or_le (n_exit_info_fetched_at n) (now - cache_ttl))"

definition claim_metadata_refresh :: "instant \<Rightarrow> string \<Rightarrow> duration \<Rightarrow> duration \<Rightarrow> db \<Rightarrow> bool \<times> db" where
  "claim_metadata_refresh now pid cache_ttl lease d =
     (rows_affected (metadata_due now cache_ttl pid) (db_nodes d) = 1,
      on_nodes (update_where (metadata_due now cache_ttl pid)
        (\<lambda>n. n\<lparr>n_metadata_lease_until := Some (now + lease)\<rparr>)) d)"

definition metadata_row :: "instant \<Rightarrow> ExitMetadata \<Rightarrow> node \<Rightarrow> node" where
  "metadata_row now m n =
     n\<lparr>n_exit := m, n_exit_info_fetched_at := Some now, n_metadata_lease_until := None,
       n_updated_at := now\<rparr>"

definition record_exit_metadata :: "instant \<Rightarrow> string \<Rightarrow> ExitMetadata \<Rightarrow> db \<Rightarrow> db" where
  "record_exit_metadata now pid m =
     on_nodes (update_where (\<lambda>n. n_id n = pid) (metadata_row now m))"

definition release_metadata_lease :: "string \<Rightarrow> db \<Rightarrow> db" where
  "release_metadata_lease pid =
     on_nodes (update_where (\<lambda>n. n_id n = pid) (\<lambda>n. n\<lparr>n_metadata_lease_until := None\<rparr>))"

section \<open>Revival, manual tests, tombstones\<close>

definition probation_row :: "instant \<Rightarrow> node \<Rightarrow> node" where
  "probation_row now n =
     n\<lparr>n_lifecycle_state := ''PROBATION'', n_status := ''PROBATION'', n_next_test_at := Some now,
       n_updated_at := now\<rparr>"

definition dormant_valid :: "node \<Rightarrow> bool" where
  "dormant_valid n = (n_lifecycle_state n = ''DORMANT'' \<and> n_structurally_valid n = 1)"

definition revive_dormant :: "instant \<Rightarrow> db \<Rightarrow> nat \<times> db" where
  "revive_dormant now d =
     (rows_affected dormant_valid (db_nodes d),
      on_nodes (update_where dormant_valid (probation_row now)) d)"

definition revivable :: "string \<Rightarrow> node \<Rightarrow> bool" where
  "revivable pid n =
     (n_id n = pid \<and> n_lifecycle_state n \<in> {''DORMANT'', ''PROBATION'', ''CANDIDATE''} \<and>
      n_structurally_valid n = 1)"

definition revived_row :: "instant \<Rightarrow> node \<Rightarrow> node" where
  "revived_row now n = (probation_row now n)\<lparr>n_test_lease_until := None, n_testing_from_state := None\<rparr>"

definition revive_node :: "instant \<Rightarrow> string \<Rightarrow> db \<Rightarrow> (string + unit) \<times> db" where
  "revive_node now pid d =
     (ensure (rows_affected (revivable pid) (db_nodes d) = 1) ''node not found or cannot be revived'',
      on_nodes (update_where (revivable pid) (revived_row now)) d)"

definition schedulable :: "string \<Rightarrow> node \<Rightarrow> bool" where
  "schedulable pid n = (n_id n = pid \<and> n_lifecycle_state n \<noteq> ''TESTING'')"

definition due_row :: "instant \<Rightarrow> node \<Rightarrow> node" where
  "due_row now n = n\<lparr>n_next_test_at := Some now, n_updated_at := now\<rparr>"

definition schedule_manual_test :: "instant \<Rightarrow> string \<Rightarrow> db \<Rightarrow> (string + unit) \<times> db" where
  "schedule_manual_test now pid d =
     (let d' = on_nodes (update_where (schedulable pid) (due_row now)) d
      in if rows_affected (schedulable pid) (db_nodes d) = 0
         then (ensure (count_rows (\<lambda>n. n_id n = pid) (db_nodes d) = 1) ''node not found'', d')
         else (Inr (), d'))"

definition expired_tombstone :: "instant \<Rightarrow> node \<Rightarrow> bool" where
  "expired_tombstone now n = (n_lifecycle_state n = ''RETIRED'' \<and> sql_le (n_tombstone_until n) now)"

definition cleanup_retired :: "instant \<Rightarrow> db \<Rightarrow> nat \<times> db" where
  "cleanup_retired now d =
     (rows_affected (expired_tombstone now) (db_nodes d),
      on_nodes (filter (\<lambda>n. \<not> expired_tombstone now n)) d)"

section \<open>System events\<close>

definition record_system_event ::
  "instant \<Rightarrow> string \<Rightarrow> string \<Rightarrow> string \<Rightarrow> string \<Rightarrow> string \<Rightarrow> json \<Rightarrow> db \<Rightarrow> db" where
  "record_system_event now uid level component event message details d =
     d\<lparr>db_system_events := db_system_events d @
        [\<lparr>se_id = uid, se_created_at = now, se_level = level, se_component = component,
          se_event = event, se_message = message, se_details_json = Json details\<rparr>]\<rparr>"

definition record_invalid_config_rejections ::
  "instant \<Rightarrow> string \<Rightarrow> string \<Rightarrow> string list \<Rightarrow> db \<Rightarrow> db" where
  "record_invalid_config_rejections now uid source rejected d =
     (if rejected = [] then d
      else record_system_event now uid ''WARN'' ''parser'' ''INVALID_CONFIG''
             (show_nat (length rejected) @ '' invalid configuration line(s) from '' @ source)
             (json_obj [(''source'', JStr source), (''count'', JInt (int (length rejected))),
                        (''samples'', JArr (map JStr (take 5 rejected)))]) d)"

text \<open>The newest events are kept; the limit is at least a hundred.\<close>

definition newest_events :: "nat \<Rightarrow> system_event list \<Rightarrow> system_event list" where
  "newest_events k es = take k (sort_key (\<lambda>e. - se_created_at e) es)"

definition prune_system_events :: "nat \<Rightarrow> db \<Rightarrow> nat \<times> db" where
  "prune_system_events max_rows d =
     (let kept = set (map se_id (newest_events (max max_rows 100) (db_system_events d)));
          gone = (\<lambda>e. se_id e \<notin> kept)
      in (rows_affected gone (db_system_events d),
          d\<lparr>db_system_events := filter (\<lambda>e. \<not> gone e) (db_system_events d)\<rparr>))"

section \<open>Lemmas\<close>

interpretation release: node_update "\<lambda>n. n_id n = pid \<and> n_lifecycle_state n = ''TESTING''" "release_row now" for pid now
  by unfold_locales (simp_all add: release_row_def)

interpretation waiting: node_update "\<lambda>n. n_id n = pid \<and> n_structurally_valid n = 1" "waiting_row now r" for pid now r
  by unfold_locales (simp_all add: waiting_row_def)

interpretation port: node_update sel "port_row now p" for sel now p
  by unfold_locales (simp_all add: port_row_def)

interpretation metadata_claim: node_update sel "\<lambda>n. n\<lparr>n_metadata_lease_until := t\<rparr>" for sel t
  by unfold_locales simp_all

interpretation metadata: node_update sel "metadata_row now m" for sel now m
  by unfold_locales (simp_all add: metadata_row_def)

interpretation revive_all: node_update sel "probation_row now" for sel now
  by unfold_locales (simp_all add: probation_row_def)

interpretation revive_one: node_update sel "revived_row now" for sel now
  by unfold_locales (simp_all add: revived_row_def probation_row_def)

interpretation manual: node_update sel "due_row now" for sel now
  by unfold_locales (simp_all add: due_row_def)

lemma unique_cleanup: "unique_nodes d \<Longrightarrow> unique_nodes (snd (cleanup_retired now d))"
  by (auto simp: cleanup_retired_def unique_nodes_def distinct_map_filter)

lemma newest_events_subset: "set (newest_events k es) \<subseteq> set es"
  by (auto simp: newest_events_def dest: in_set_takeD)

lemma sorted_take_drop_key:
  fixes f :: "'a \<Rightarrow> 'b::linorder"
  assumes "x \<in> set (take k (sort_key f xs))" and "y \<in> set (drop k (sort_key f xs))"
  shows "f x \<le> f y"
proof -
  have "sorted (map f (take k (sort_key f xs)) @ map f (drop k (sort_key f xs)))"
    by (metis append_take_drop_id map_append sorted_sort_key)
  then show ?thesis using assms by (auto simp: sorted_append)
qed

section \<open>Properties\<close>

text \<open>The event log stays bounded and keeps the newest: with distinct event identifiers,
  pruning leaves exactly the smaller of the log's length and the limit (at least a
  hundred), keeps the order of what is left, removes as many as it reports, and every
  event it removes is no newer than every event it keeps.\<close>

theorem prune_keeps_newest:
  assumes "distinct (map se_id (db_system_events d))"
  shows "length (db_system_events (snd (prune_system_events max_rows d)))
      = min (length (db_system_events d)) (max max_rows 100) \<and>
    fst (prune_system_events max_rows d) + length (db_system_events (snd (prune_system_events max_rows d)))
      = length (db_system_events d) \<and>
    subseq (db_system_events (snd (prune_system_events max_rows d))) (db_system_events d) \<and>
    (\<forall>e \<in> set (db_system_events (snd (prune_system_events max_rows d))).
     \<forall>e' \<in> set (db_system_events d) - set (db_system_events (snd (prune_system_events max_rows d))).
       se_created_at e' \<le> se_created_at e)"
proof -
  let ?es = "db_system_events d" and ?k = "max max_rows 100"
  let ?s = "sort_key (\<lambda>e. - se_created_at e) ?es"
  let ?kept = "filter (\<lambda>e. se_id e \<in> set (map se_id (take ?k ?s))) ?es"
  have inj: "inj_on se_id (set ?es)" and dist: "distinct ?es"
    using assms by (auto simp: distinct_map)
  have kept: "set ?kept = set (take ?k ?s)"
  proof (intro set_eqI iffI)
    fix e assume "e \<in> set ?kept"
    then obtain e' where e': "e' \<in> set (take ?k ?s)" "se_id e = se_id e'" and e: "e \<in> set ?es"
      by auto
    have "e' \<in> set ?es" using in_set_takeD [OF e'(1)] by simp
    with inj e e'(2) have "e = e'" by (simp add: inj_on_def)
    with e'(1) show "e \<in> set (take ?k ?s)" by simp
  next
    fix e assume e: "e \<in> set (take ?k ?s)"
    have "e \<in> set ?es" using in_set_takeD [OF e] by simp
    with e show "e \<in> set ?kept" by simp
  qed
  have eq: "db_system_events (snd (prune_system_events max_rows d)) = ?kept"
    by (simp add: prune_system_events_def Let_def newest_events_def)
  have "length ?kept = card (set ?kept)" by (rule distinct_card [symmetric]) (use dist in simp)
  also have "\<dots> = length (take ?k ?s)" unfolding kept using dist by (intro distinct_card) simp
  finally have len: "length ?kept = min (length ?es) ?k" by simp
  have "set ?es - set ?kept \<subseteq> set (drop ?k ?s)"
  proof
    fix e assume "e \<in> set ?es - set ?kept"
    then have "e \<in> set (take ?k ?s @ drop ?k ?s)" "e \<notin> set (take ?k ?s)" using kept by auto
    then show "e \<in> set (drop ?k ?s)" by (simp only: set_append) blast
  qed
  then have "\<forall>e \<in> set ?kept. \<forall>e' \<in> set ?es - set ?kept. se_created_at e' \<le> se_created_at e"
    using sorted_take_drop_key [of _ ?k "\<lambda>e. - se_created_at e" ?es] kept by fastforce
  moreover have "fst (prune_system_events max_rows d) + length ?kept = length ?es"
    using sum_length_filter_compl [of "\<lambda>e. se_id e \<in> set (map se_id (take ?k ?s))" ?es]
    by (simp add: prune_system_events_def Let_def newest_events_def rows_affected_def)
  ultimately show ?thesis using len unfolding eq by (auto simp: subseq_filter_left)
qed

theorem prune_keeps_newest_witness:
  "length (db_system_events (snd (prune_system_events 0 (record_system_event 0 ''e1'' ''INFO'' ''app'' ''X'' ''m'' JNull empty_db)))) = 1"
  using prune_keeps_newest [of "record_system_event 0 ''e1'' ''INFO'' ''app'' ''X'' ''m'' JNull empty_db" 0]
  by (simp add: record_system_event_def empty_db_def)

definition health_view :: "node \<Rightarrow> string \<times> string \<times> int \<times> real \<times> real \<times> real \<times> int \<times> int \<times> instant option \<times> instant option" where
  "health_view n = (n_lifecycle_state n, n_status n, n_structurally_valid n, n_health_alpha n, n_health_beta n,
     n_health_score n, n_failure_streak n, n_independent_failure_count n, n_publication_lease_until n, n_next_test_at n)"

lemma health_view_update:
  "(\<And>n. health_view (f n) = health_view n) \<Longrightarrow>
     map health_view (db_nodes (on_nodes (update_where p f) d)) = map health_view (db_nodes d)"
  by (simp add: map_update_where)

text \<open>A metadata lookup is exclusive and has no health effect: between a successful claim and
  the end of its lease no second claim succeeds; and neither the claim, nor its release,
  nor recording the metadata changes the node's state, evidence, leases or schedule.\<close>

theorem metadata_claim_exclusive:
  assumes "claim_metadata_refresh now pid ttl lease d = (True, d1)" and "unique_nodes d"
    and "now \<le> now'" and "now' < now + lease"
  shows "\<not> fst (claim_metadata_refresh now' pid ttl' lease' d1) \<and>
    map health_view (db_nodes d1) = map health_view (db_nodes d) \<and>
    map health_view (db_nodes (release_metadata_lease pid d1)) = map health_view (db_nodes d) \<and>
    map health_view (db_nodes (record_exit_metadata now' pid m d1)) = map health_view (db_nodes d)"
proof -
  have d1: "d1 = on_nodes (update_where (metadata_due now ttl pid)
      (\<lambda>n. n\<lparr>n_metadata_lease_until := Some (now + lease)\<rparr>)) d"
    and one: "rows_affected (metadata_due now ttl pid) (db_nodes d) = 1"
    using assms(1) by (simp_all add: claim_metadata_refresh_def)
  then obtain n where n: "n \<in> set (db_nodes d)" "metadata_due now ttl pid n"
    using rows_affected_zero [of "metadata_due now ttl pid" "db_nodes d"] by auto
  have "inj_on n_id (set (db_nodes d))"
    using assms(2) by (simp add: unique_nodes_def distinct_map)
  then have only: "m = n" if "m \<in> set (db_nodes d)" "n_id m = pid" for m
    using n that by (auto simp: inj_on_def metadata_due_def)
  have "\<not> metadata_due now' ttl' pid m" if "m \<in> set (db_nodes d1)" for m
    using that n(2) only assms(4) by (auto simp: d1 set_update_where metadata_due_def split: if_splits)
  then have "rows_affected (metadata_due now' ttl' pid) (db_nodes d1) = 0"
    by (simp add: rows_affected_zero)
  then have "\<not> fst (claim_metadata_refresh now' pid ttl' lease' d1)"
    by (simp add: claim_metadata_refresh_def)
  moreover have h: "map health_view (db_nodes d1) = map health_view (db_nodes d)"
    unfolding d1 by (rule health_view_update) (simp add: health_view_def)
  moreover have "map health_view (db_nodes (release_metadata_lease pid d1)) = map health_view (db_nodes d1)"
    unfolding release_metadata_lease_def by (rule health_view_update) (simp add: health_view_def)
  moreover have "map health_view (db_nodes (record_exit_metadata now' pid m d1)) = map health_view (db_nodes d1)"
    unfolding record_exit_metadata_def by (rule health_view_update) (simp add: health_view_def metadata_row_def)
  ultimately show ?thesis by simp
qed

theorem metadata_claim_exclusive_witness:
  "\<not> fst (claim_metadata_refresh (seconds 5) ''a'' (days 1) (seconds 30)
      (snd (claim_metadata_refresh 0 ''a'' (days 1) (seconds 30) (empty_db\<lparr>db_nodes := [new_node ''a'' ''h'' 0]\<rparr>))))"
proof -
  let ?d = "empty_db\<lparr>db_nodes := [new_node ''a'' ''h'' 0]\<rparr>"
  obtain d1 where "claim_metadata_refresh 0 ''a'' (days 1) (seconds 30) ?d = (True, d1)"
    by (simp add: claim_metadata_refresh_def rows_affected_def metadata_due_def new_node_def)
  moreover have "unique_nodes ?d" by (simp add: unique_nodes_def)
  ultimately show ?thesis
    using metadata_claim_exclusive [of 0 "''a''" "days 1" "seconds 30" ?d d1 "seconds 5"]
    by (simp add: time_defs)
qed

text \<open>Waiting for a port gives the state back: a valid node that was waiting remembers the
  state it was in when the port was refused, carries no test lease any more, and is due
  again no earlier than one second later; nothing else of its health changes.\<close>

theorem waiting_for_port_remembers:
  assumes "node_of k d = Some n" and "n_structurally_valid n = 1"
  shows "\<exists>m. node_of k (mark_waiting_for_port now k r d) = Some m \<and>
    n_lifecycle_state m = ''WAITING_FOR_PORT'' \<and> n_waiting_from_state m = Some (n_lifecycle_state n) \<and>
    n_test_lease_until m = None \<and> (\<exists>t. n_next_test_at m = Some t \<and> now + seconds 1 \<le> t) \<and>
    n_health_score m = n_health_score n \<and> n_failure_streak m = n_failure_streak n \<and>
    n_publication_lease_until m = n_publication_lease_until n"
proof -
  have "n_id n = k" using assms(1) unfolding node_of_def by (auto dest: find_row_Some)
  with assms show ?thesis
    by (simp add: mark_waiting_for_port_def waiting.node_of_upd waiting_row_def)
qed

theorem waiting_for_port_remembers_witness:
  "\<exists>m. node_of ''a'' (mark_waiting_for_port 0 ''a'' 0 (empty_db\<lparr>db_nodes := [new_node ''a'' ''h'' 0]\<rparr>)) = Some m \<and>
     n_waiting_from_state m = Some ''CANDIDATE''"
proof -
  have "node_of ''a'' (empty_db\<lparr>db_nodes := [new_node ''a'' ''h'' 0]\<rparr>) = Some (new_node ''a'' ''h'' 0)"
    by (simp add: node_of_def find_row_def new_node_def)
  from waiting_for_port_remembers [OF this, of 0 0] show ?thesis by (auto simp: new_node_def)
qed

end
