(* ===== verification/Scheduler.thy ===== *)
theory Scheduler
  imports Probe Migration Leases
begin

text \<open>
  The test scheduler (\<open>src/src/scheduler/mod.rs\<close>): the quota of each queue, the credits
  it keeps, the claim of due nodes in two passes over the queues, the pressure signal, and
  the test that tells a shared incident from individual failures.
\<close>

section \<open>Jobs, quotas and credits\<close>

record TestJob =
  tj_id :: string
  tj_raw_config :: string
  tj_lifecycle_state :: string
  tj_reason :: string
  tj_download_due :: bool

record QueueQuota =
  qq_new :: nat
  qq_successful_probation :: nat
  qq_recoverable_dormant :: nat
  qq_exploration :: nat

definition queue_order :: "(string \<times> string) list" where
  "queue_order =
     [(''CANDIDATE'', ''new''), (''PROBATION'', ''successful_probation''),
      (''DORMANT'', ''recoverable_dormant''), (''ACTIVE'', ''active_revalidation'')]"

text \<open>A share is a whole number of slots, a remainder and a priority.\<close>

definition shares :: "nat \<Rightarrow> (nat \<times> nat \<times> nat) list" where
  "shares capacity =
     [(capacity * 40 div 100, capacity * 40 mod 100, 0),
      (capacity * 30 div 100, capacity * 30 mod 100, 1),
      (capacity * 20 div 100, capacity * 20 mod 100, 2),
      (capacity * 10 div 100, capacity * 10 mod 100, 3)]"

fun bump_first :: "nat \<Rightarrow> (nat \<times> nat \<times> nat) list \<Rightarrow> (nat \<times> nat \<times> nat) list" where
  "bump_first 0 qs = qs"
| "bump_first (Suc k) [] = []"
| "bump_first (Suc k) ((w, r, p) # qs) = (Suc w, r, p) # bump_first k qs"

definition for_capacity :: "nat \<Rightarrow> QueueQuota" where
  "for_capacity capacity =
     (let allocated = sum_list (map fst (shares capacity));
          by_remainder = sort_key (\<lambda>(w, r, p). (- int r, p)) (shares capacity);
          q = sort_key (\<lambda>(w, r, p). p) (bump_first (capacity - allocated) by_remainder)
      in \<lparr>qq_new = fst (q ! 0), qq_successful_probation = fst (q ! 1),
          qq_recoverable_dormant = fst (q ! 2), qq_exploration = fst (q ! 3)\<rparr>)"

definition quota_of :: "QueueQuota \<Rightarrow> string \<Rightarrow> nat" where
  "quota_of q state =
     (if state = ''CANDIDATE'' then qq_new q
      else if state = ''PROBATION'' then qq_successful_probation q
      else if state = ''DORMANT'' then qq_recoverable_dormant q
      else if state = ''ACTIVE'' then qq_exploration q else 0)"

record QueueDebt =
  qd_candidate :: real
  qd_probation :: real
  qd_dormant :: real
  qd_active :: real

definition no_debt :: QueueDebt where
  "no_debt = \<lparr>qd_candidate = 0, qd_probation = 0, qd_dormant = 0, qd_active = 0\<rparr>"

fun json_real :: "json \<Rightarrow> real option" where
  "json_real (JInt n) = Some (real_of_int n)"
| "json_real (JReal x) = Some x"
| "json_real _ = None"

text \<open>What \<open>serde\<close> reads: an object, absent fields being 0, or a list of at most four numbers.\<close>

definition debt_field :: "json option \<Rightarrow> real option" where
  "debt_field j = (case j of None \<Rightarrow> Some 0 | Some v \<Rightarrow> json_real v)"

definition debt_of_fields :: "(nat \<Rightarrow> json option) \<Rightarrow> QueueDebt option" where
  "debt_of_fields f =
     (case (debt_field (f 0), debt_field (f 1), debt_field (f 2), debt_field (f 3)) of
        (Some a, Some b, Some c, Some d) \<Rightarrow>
          Some \<lparr>qd_candidate = a, qd_probation = b, qd_dormant = c, qd_active = d\<rparr>
      | _ \<Rightarrow> None)"

definition debt_names :: "string list" where
  "debt_names = [''candidate'', ''probation'', ''dormant'', ''active'']"

fun debt_of_json :: "json \<Rightarrow> QueueDebt option" where
  "debt_of_json (JObj m) = debt_of_fields (\<lambda>k. map_of m (debt_names ! k))"
| "debt_of_json (JArr xs) =
     (if length xs \<le> 4 then debt_of_fields (\<lambda>k. if k < length xs then Some (xs ! k) else None) else None)"
| "debt_of_json _ = None"

definition debt_from_value :: "json option \<Rightarrow> QueueDebt" where
  "debt_from_value v = coalesce (Option.bind v debt_of_json) no_debt"

definition accrue :: "nat \<Rightarrow> QueueDebt \<Rightarrow> QueueDebt" where
  "accrue capacity d =
     (let c = real (max capacity 1); grow = (\<lambda>x share. clamp (-1) (c * 4) (x + c * share))
      in \<lparr>qd_candidate = grow (qd_candidate d) (40 / 100), qd_probation = grow (qd_probation d) (30 / 100),
          qd_dormant = grow (qd_dormant d) (20 / 100), qd_active = grow (qd_active d) (10 / 100)\<rparr>)"

definition consume :: "string \<Rightarrow> QueueDebt \<Rightarrow> QueueDebt" where
  "consume state d =
     (if state = ''CANDIDATE'' then d\<lparr>qd_candidate := qd_candidate d - 1\<rparr>
      else if state = ''PROBATION'' then d\<lparr>qd_probation := qd_probation d - 1\<rparr>
      else if state = ''DORMANT'' then d\<lparr>qd_dormant := qd_dormant d - 1\<rparr>
      else if state = ''ACTIVE'' then d\<lparr>qd_active := qd_active d - 1\<rparr> else d)"

definition debt_json :: "QueueDebt \<Rightarrow> json" where
  "debt_json d =
     json_obj [(''candidate'', JReal (qd_candidate d)), (''probation'', JReal (qd_probation d)),
               (''dormant'', JReal (qd_dormant d)), (''active'', JReal (qd_active d))]"

section \<open>The pressure signal\<close>

datatype meminfo_line = MemTotal real | MemAvailable real | OtherLine

definition load_component :: "nat option \<Rightarrow> real option \<Rightarrow> real" where
  "load_component cores loadavg =
     (case loadavg of None \<Rightarrow> 0
      | Some v \<Rightarrow> clamp 0 1 (v / (case cores of None \<Rightarrow> 1 | Some n \<Rightarrow> real n)))"

fun last_total :: "meminfo_line list \<Rightarrow> real \<times> real \<Rightarrow> real \<times> real" where
  "last_total [] acc = acc"
| "last_total (MemTotal v # ls) acc = last_total ls (v, snd acc)"
| "last_total (MemAvailable v # ls) acc = last_total ls (fst acc, v)"
| "last_total (OtherLine # ls) acc = last_total ls acc"

definition memory_component :: "meminfo_line list option \<Rightarrow> real" where
  "memory_component meminfo =
     (case meminfo of None \<Rightarrow> 0
      | Some ls \<Rightarrow> (case last_total ls (0, 0) of (all, available) \<Rightarrow>
          if 0 < all then clamp 0 1 (1 - available / all) else 0))"

definition system_pressure :: "nat option \<Rightarrow> real option \<Rightarrow> meminfo_line list option \<Rightarrow> real" where
  "system_pressure cores loadavg meminfo = max (load_component cores loadavg) (memory_component meminfo)"

lemma system_pressure_unit: "0 \<le> system_pressure c l m \<and> system_pressure c l m \<le> 1"
proof -
  have "0 \<le> load_component c l" "load_component c l \<le> 1"
    using clamp_bounds [of 0 "1 :: real"] by (auto simp: load_component_def split: option.splits)
  moreover have "0 \<le> memory_component m" "memory_component m \<le> 1"
    using clamp_bounds [of 0 "1 :: real"] by (auto simp: memory_component_def split: option.splits prod.splits)
  ultimately show ?thesis by (simp add: system_pressure_def)
qed

section \<open>Claims\<close>

record ClaimParams =
  cl_state :: string
  cl_queue_limit :: nat
  cl_reason :: string
  cl_now :: instant
  cl_lease :: duration
  cl_active_download_interval :: duration
  cl_pressure :: real

definition test_due :: "instant \<Rightarrow> node \<Rightarrow> bool" where
  "test_due now n =
     (n_structurally_valid n = 1 \<and> null_or_le (n_next_test_at n) now \<and> null_or_le (n_test_lease_until n) now)"

text \<open>The rows of a queue with the state they count as: those in the state, then those that wait
  for a port and came from it.\<close>

definition eligible :: "string \<Rightarrow> instant \<Rightarrow> node list \<Rightarrow> (node \<times> string) list" where
  "eligible state now ns =
     map (\<lambda>n. (n, n_lifecycle_state n))
       (filter (\<lambda>n. n_lifecycle_state n = state \<and> test_due now n) ns) @
     map (\<lambda>n. (n, state))
       (filter (\<lambda>n. n_lifecycle_state n = ''WAITING_FOR_PORT'' \<and> n_waiting_from_state n = Some state \<and>
          test_due now n) ns)"

definition points :: "bool \<Rightarrow> int \<Rightarrow> int" where
  "points b k = (if b then k else 0)"

definition claim_score :: "instant \<Rightarrow> real \<Rightarrow> node \<Rightarrow> int" where
  "claim_score now pressure n =
     points (sql_le (n_publication_lease_until n) (now + hours 1)) 100
     + points (n_last_real_download_at n \<noteq> None) 80
     + points (n_last_failure_class n = Some ''TLS_TIMEOUT'') 50
     + points (null_or_le (n_last_test_at n) (now - hours 1)) 40
     + points (n_last_seen_generation n \<noteq> None) 30
     - points (n_last_real_download_at n = None \<and> 5 \<le> n_failure_streak n) 80
     - points (3 / 4 \<le> clamp 0 1 pressure \<and> n_last_real_download_at n = None) 100"

text \<open>NULL sorts before every value; \<open>unicode\<close> of an empty text is NULL.\<close>

definition hash_bucket :: "string \<Rightarrow> int \<times> int" where
  "hash_bucket h =
     (case h of
        a # b # _ \<Rightarrow> (1, (int (code a) * 31 + int (code b)) mod 17)
      | _ \<Rightarrow> (0, 0))"

definition null_first :: "instant option \<Rightarrow> int \<times> int" where
  "null_first t = (case t of None \<Rightarrow> (0, 0) | Some t \<Rightarrow> (1, t))"

definition claim_order :: "instant \<Rightarrow> real \<Rightarrow> node \<Rightarrow> int \<times> (int \<times> int) \<times> string \<times> int \<times> int" where
  "claim_order now pressure n =
     (- claim_score now pressure n, hash_bucket (n_config_hash n), n_config_hash n,
      null_first (n_next_test_at n))"

definition claimed_row :: "instant \<Rightarrow> duration \<Rightarrow> node \<Rightarrow> node" where
  "claimed_row now lease n =
     n\<lparr>n_testing_from_state := Some (if n_lifecycle_state n = ''WAITING_FOR_PORT''
         then coalesce (n_waiting_from_state n) ''CANDIDATE'' else n_lifecycle_state n),
       n_waiting_from_state := None, n_lifecycle_state := ''TESTING'', n_status := ''TESTING'',
       n_test_lease_until := Some (now + lease), n_updated_at := now\<rparr>"

definition job_of :: "ClaimParams \<Rightarrow> node \<times> string \<Rightarrow> TestJob" where
  "job_of ps row =
     (case row of (n, state) \<Rightarrow>
       \<lparr>tj_id = n_id n, tj_raw_config = n_raw_config n, tj_lifecycle_state = state,
        tj_reason = cl_reason ps,
        tj_download_due = (state \<noteq> ''ACTIVE'' \<or>
          null_or_le (n_last_real_download_at n) (cl_now ps - cl_active_download_interval ps))\<rparr>)"

text \<open>The update that takes the lease of one selected row, if nobody has it meanwhile.\<close>

definition lease_free :: "instant \<Rightarrow> string \<Rightarrow> node \<Rightarrow> bool" where
  "lease_free now pid n = (n_id n = pid \<and> null_or_le (n_test_lease_until n) now)"

definition claim_row ::
  "ClaimParams \<Rightarrow> node \<times> string \<Rightarrow> TestJob list \<times> db \<Rightarrow> TestJob list \<times> db" where
  "claim_row ps row s =
     (case s of (jobs, d) \<Rightarrow>
       let free = lease_free (cl_now ps) (n_id (fst row));
           d' = on_nodes (update_where free (claimed_row (cl_now ps) (cl_lease ps))) d
       in (if rows_affected free (db_nodes d) = 1 then jobs @ [job_of ps row] else jobs, d'))"

definition selected :: "ClaimParams \<Rightarrow> nat \<Rightarrow> node list \<Rightarrow> (node \<times> string) list" where
  "selected ps remaining ns =
     take remaining (sort_key (\<lambda>r. claim_order (cl_now ps) (cl_pressure ps) (fst r))
       (eligible (cl_state ps) (cl_now ps) ns))"

definition append_claims :: "nat \<Rightarrow> ClaimParams \<Rightarrow> TestJob list \<times> db \<Rightarrow> TestJob list \<times> db" where
  "append_claims total_limit ps s =
     (case s of (jobs, d) \<Rightarrow>
       if cl_queue_limit ps = 0 \<or> total_limit \<le> length jobs then (jobs, d)
       else fold (claim_row ps)
              (selected ps (min (cl_queue_limit ps) (total_limit - length jobs)) (db_nodes d)) (jobs, d))"

record claim_env =
  ce_now :: instant
  ce_lease :: duration
  ce_active_download_interval :: duration
  ce_pressure :: real

definition claim_params :: "claim_env \<Rightarrow> string \<times> string \<Rightarrow> nat \<Rightarrow> ClaimParams" where
  "claim_params e queue limit =
     \<lparr>cl_state = fst queue, cl_queue_limit = limit, cl_reason = snd queue, cl_now = ce_now e,
      cl_lease = ce_lease e, cl_active_download_interval = ce_active_download_interval e,
      cl_pressure = ce_pressure e\<rparr>"

definition consume_claims :: "string \<Rightarrow> nat \<Rightarrow> QueueDebt \<Rightarrow> QueueDebt" where
  "consume_claims state k debt = (consume state ^^ k) debt"

text \<open>The first pass: each queue up to its quota.\<close>

fun quota_pass ::
  "claim_env \<Rightarrow> nat \<Rightarrow> QueueQuota \<Rightarrow> (string \<times> string) list \<Rightarrow>
   (TestJob list \<times> db) \<times> QueueDebt \<Rightarrow> (TestJob list \<times> db) \<times> QueueDebt" where
  "quota_pass e capacity q [] s = s"
| "quota_pass e capacity q (queue # queues) (s, debt) =
     (let s' = append_claims capacity (claim_params e queue (quota_of q (fst queue))) s
      in quota_pass e capacity q queues
           (s', consume_claims (fst queue) (length (fst s') - length (fst s)) debt))"

text \<open>The second pass: what is left of the capacity, in the order of the queues.\<close>

fun overflow_pass ::
  "claim_env \<Rightarrow> nat \<Rightarrow> (string \<times> string) list \<Rightarrow>
   (TestJob list \<times> db) \<times> QueueDebt \<Rightarrow> (TestJob list \<times> db) \<times> QueueDebt" where
  "overflow_pass e capacity [] s = s"
| "overflow_pass e capacity (queue # queues) (s, debt) =
     (if length (fst s) = capacity then (s, debt)
      else let s' = append_claims capacity (claim_params e queue (capacity - length (fst s))) s
           in overflow_pass e capacity queues
                (s', consume_claims (fst queue) (length (fst s') - length (fst s)) debt))"

definition claim_due :: "claim_env \<Rightarrow> nat \<Rightarrow> db \<Rightarrow> TestJob list \<times> db" where
  "claim_due e capacity0 d =
     (let capacity = max capacity0 1;
          debt = accrue capacity (debt_from_value (scheduler_state ''quota_debt'' d));
          r1 = quota_pass e capacity (for_capacity capacity) queue_order (([], d), debt);
          ((jobs, d'), debt') = overflow_pass e capacity queue_order r1
      in (jobs, if jobs = [] then d'
                else set_scheduler_state (ce_now e) ''quota_debt'' (debt_json debt') d'))"

section \<open>Lemmas: quotas\<close>

lemma sum_bump_first:
  "k \<le> length qs \<Longrightarrow> sum_list (map fst (bump_first k qs)) = sum_list (map fst qs) + k"
  by (induction k qs rule: bump_first.induct) auto

lemma map_priority_bump_first: "map (\<lambda>(w, r, p). p) (bump_first k qs) = map (\<lambda>(w, r, p). p) qs"
  by (induction k qs rule: bump_first.induct) auto

lemma bump_first_mem:
  "(w, r, p) \<in> set (bump_first k qs) \<Longrightarrow> \<exists>w0. (w0, r, p) \<in> set qs \<and> w0 \<le> w \<and> w \<le> Suc w0"
proof (induction k qs rule: bump_first.induct)
  case (1 qs)
  then show ?case by (intro exI [of _ w]) simp
next
  case (3 k w' r' p' qs)
  show ?case
  proof (cases "(w, r, p) = (Suc w', r', p')")
    case True
    then show ?thesis by (intro exI [of _ w']) auto
  next
    case False
    with 3 show ?thesis by auto
  qed
qed auto

lemma mset_map_sort_key: "mset (map f (sort_key k xs)) = mset (map f xs)"
  by simp

lemma sum_list_sort_key: "sum_list (map f (sort_key k xs)) = sum_list (map f (xs :: 'b list))"
  for f :: "'b \<Rightarrow> nat"
  by (metis mset_map mset_sort sum_mset_sum_list)

definition allotted :: "nat \<Rightarrow> (nat \<times> nat \<times> nat) list" where
  "allotted capacity = sort_key (\<lambda>(w, r, p). p)
     (bump_first (capacity - sum_list (map fst (shares capacity)))
       (sort_key (\<lambda>(w, r, p). (- int r, p)) (shares capacity)))"

lemma div100: "n div 100 * 100 \<le> n \<and> n < n div 100 * 100 + (100 :: nat)"
  using div_mult_mod_eq [of n 100] mod_less_divisor [of 100 n] by linarith

lemma shares_sum: "sum_list (map fst (shares c)) \<le> c \<and> c - sum_list (map fst (shares c)) \<le> 4"
  using div100 [of "c * 40"] div100 [of "c * 30"] div100 [of "c * 20"] div100 [of "c * 10"]
  by (simp add: shares_def) linarith

lemma allotted_sum: "sum_list (map fst (allotted c)) = c"
proof -
  let ?r = "sort_key (\<lambda>(w, r, p). (- int r, p)) (shares c)"
  have "length ?r = 4" by (simp add: shares_def)
  then have "sum_list (map fst (bump_first (c - sum_list (map fst (shares c))) ?r))
      = sum_list (map fst (shares c)) + (c - sum_list (map fst (shares c)))"
    using shares_sum [of c] by (subst sum_bump_first) (simp_all add: sum_list_sort_key)
  then show ?thesis using shares_sum [of c] by (simp add: allotted_def sum_list_sort_key)
qed

lemma allotted_priority: "map (\<lambda>(w, r, p). p) (allotted c) = [0, 1, 2, 3]"
proof -
  let ?p = "\<lambda>(w :: nat, r :: nat, p :: nat). p"
  have "mset (map ?p (allotted c)) = mset (map ?p (shares c))"
    by (simp only: allotted_def mset_map_sort_key map_priority_bump_first)
  moreover have "map ?p (shares c) = [0, 1, 2, 3]" by (simp add: shares_def)
  ultimately have "mset (map ?p (allotted c)) = mset [0, 1, 2, 3]" by simp
  moreover have "sorted (map ?p (allotted c))" by (simp add: allotted_def)
  ultimately have "map ?p (allotted c) = sort [0, 1, 2, 3]" by (rule properties_for_sort [symmetric])
  then show ?thesis by simp
qed

lemma quota_entries:
  "\<exists>r0 r1 r2 r3. allotted c = [(qq_new (for_capacity c), r0, 0),
     (qq_successful_probation (for_capacity c), r1, 1),
     (qq_recoverable_dormant (for_capacity c), r2, 2), (qq_exploration (for_capacity c), r3, 3)]"
proof -
  have q: "for_capacity c =
      \<lparr>qq_new = fst (allotted c ! 0), qq_successful_probation = fst (allotted c ! 1),
       qq_recoverable_dormant = fst (allotted c ! 2), qq_exploration = fst (allotted c ! 3)\<rparr>"
    by (simp add: for_capacity_def allotted_def Let_def)
  obtain a0 a1 a2 a3 where a: "allotted c = [a0, a1, a2, a3]"
    and p: "(\<lambda>(w, r, p). p) a0 = 0" "(\<lambda>(w, r, p). p) a1 = 1" "(\<lambda>(w, r, p). p) a2 = 2" "(\<lambda>(w, r, p). p) a3 = 3"
    using allotted_priority [of c] by (auto simp: map_eq_Cons_conv)
  then show ?thesis by (cases a0; cases a1; cases a2; cases a3) (auto simp: q)
qed

lemma quota_sum:
  "qq_new (for_capacity c) + qq_successful_probation (for_capacity c) +
   qq_recoverable_dormant (for_capacity c) + qq_exploration (for_capacity c) = c"
  using quota_entries [of c] allotted_sum [of c] by auto

lemma allotted_near:
  assumes "(w, r, p) \<in> set (allotted c)"
  shows "\<exists>w0. (w0, r, p) \<in> set (shares c) \<and> w0 \<le> w \<and> w \<le> Suc w0"
  using assms unfolding allotted_def set_sort by (auto dest!: bump_first_mem)

lemma quota_near:
  "qq_new (for_capacity c) \<in> {c * 40 div 100, c * 40 div 100 + 1} \<and>
   qq_successful_probation (for_capacity c) \<in> {c * 30 div 100, c * 30 div 100 + 1} \<and>
   qq_recoverable_dormant (for_capacity c) \<in> {c * 20 div 100, c * 20 div 100 + 1} \<and>
   qq_exploration (for_capacity c) \<in> {c * 10 div 100, c * 10 div 100 + 1}"
proof -
  obtain r0 r1 r2 r3 where a: "allotted c = [(qq_new (for_capacity c), r0, 0),
     (qq_successful_probation (for_capacity c), r1, 1),
     (qq_recoverable_dormant (for_capacity c), r2, 2), (qq_exploration (for_capacity c), r3, 3)]"
    using quota_entries by blast
  have near: "(w, r, p) \<in> set (allotted c) \<Longrightarrow>
      \<exists>w0. (w0, r, p) \<in> set (shares c) \<and> (w = w0 \<or> w = w0 + 1)" for w r p
    using allotted_near [of w r p c] by (auto simp: le_Suc_eq)
  show ?thesis
    using near [of "qq_new (for_capacity c)" r0 0] near [of "qq_successful_probation (for_capacity c)" r1 1]
      near [of "qq_recoverable_dormant (for_capacity c)" r2 2] near [of "qq_exploration (for_capacity c)" r3 3]
    by (auto simp: a shares_def)
qed

section \<open>Lemmas: claims\<close>

lemma claimed_row_simps [simp]:
  "n_id (claimed_row now l n) = n_id n" "n_lifecycle_state (claimed_row now l n) = ''TESTING''"
  "n_config_hash (claimed_row now l n) = n_config_hash n"
  "n_test_lease_until (claimed_row now l n) = Some (now + l)"
  by (simp_all add: claimed_row_def)

text \<open>The nodes after a set of identifiers has been claimed.\<close>

definition claim_ids :: "instant \<Rightarrow> duration \<Rightarrow> string set \<Rightarrow> node list \<Rightarrow> node list" where
  "claim_ids now l ids ns = map (\<lambda>n. if n_id n \<in> ids then claimed_row now l n else n) ns"

lemma claim_ids_empty [simp]: "claim_ids now l {} ns = ns"
  by (simp add: claim_ids_def)

lemma claim_ids_claim:
  "I \<inter> J = {} \<Longrightarrow> claim_ids now l J (claim_ids now l I ns) = claim_ids now l (I \<union> J) ns"
  by (auto simp: claim_ids_def)

lemma map_id_claim_ids [simp]: "map n_id (claim_ids now l ids ns) = map n_id ns"
  by (auto simp: claim_ids_def)

lemma eligible_mem:
  "(n, s) \<in> set (eligible state now ns) \<Longrightarrow> state \<notin> {''TESTING'', ''WAITING_FOR_PORT''} \<Longrightarrow>
     n \<in> set ns \<and> s = state \<and> test_due now n \<and>
     (n_lifecycle_state n = state \<or> n_lifecycle_state n = ''WAITING_FOR_PORT'' \<and> n_waiting_from_state n = Some state)"
  by (auto simp: eligible_def)

lemma eligible_snd: "r \<in> set (eligible state now ns) \<Longrightarrow> snd r = state"
  by (auto simp: eligible_def)

lemma distinct_eligible:
  "distinct (map n_id ns) \<Longrightarrow> state \<noteq> ''WAITING_FOR_PORT'' \<Longrightarrow>
     distinct (map (\<lambda>r. n_id (fst r)) (eligible state now ns))"
proof (induction ns)
  case (Cons n ns)
  have "n_id (fst r) \<in> set (map n_id ns)" if "r \<in> set (eligible state now ns)" for r
    using that by (auto simp: eligible_def)
  with Cons have "n_id n \<notin> (\<lambda>r. n_id (fst r)) ` set (eligible state now ns)" by auto
  with Cons show ?case by (auto simp: eligible_def)
qed (simp add: eligible_def)

lemma filter_single:
  "distinct xs \<Longrightarrow> x \<in> set xs \<Longrightarrow> (\<And>y. y \<in> set xs \<Longrightarrow> P y \<longleftrightarrow> y = x) \<Longrightarrow> filter P xs = [x]"
  by (induction xs) (auto simp: filter_empty_conv)

lemma claim_row_free:
  assumes "distinct (map n_id (db_nodes d))" and "fst r \<in> set (db_nodes d)"
    and "null_or_le (n_test_lease_until (fst r)) (cl_now ps)"
  shows "claim_row ps r (jobs, d) =
    (jobs @ [job_of ps r], on_nodes (claim_ids (cl_now ps) (cl_lease ps) {n_id (fst r)}) d)"
proof -
  let ?free = "lease_free (cl_now ps) (n_id (fst r))"
  have free: "?free n \<longleftrightarrow> n = fst r" "?free n \<longleftrightarrow> n_id n = n_id (fst r)" if "n \<in> set (db_nodes d)" for n
    using that assms by (auto simp: lease_free_def distinct_map inj_on_def)
  have "filter ?free (db_nodes d) = [fst r]"
    using assms(1,2) free(1) by (intro filter_single) (auto simp: distinct_map)
  moreover have "update_where ?free (claimed_row (cl_now ps) (cl_lease ps)) (db_nodes d) =
      claim_ids (cl_now ps) (cl_lease ps) {n_id (fst r)} (db_nodes d)"
    using free(2) by (auto simp: update_where_def claim_ids_def)
  ultimately show ?thesis
    by (simp add: claim_row_def rows_affected_def on_nodes_def Let_def)
qed

lemma fold_claim_row:
  assumes "distinct (map n_id (db_nodes d))" and "distinct (map (\<lambda>r. n_id (fst r)) rows)"
    and "\<forall>r \<in> set rows. fst r \<in> set (db_nodes d) \<and> null_or_le (n_test_lease_until (fst r)) (cl_now ps)"
  shows "fold (claim_row ps) rows (jobs, d) =
    (jobs @ map (job_of ps) rows,
     on_nodes (claim_ids (cl_now ps) (cl_lease ps) ((\<lambda>r. n_id (fst r)) ` set rows)) d)"
  using assms
proof (induction rows arbitrary: jobs d)
  case (Cons r rows)
  let ?d = "on_nodes (claim_ids (cl_now ps) (cl_lease ps) {n_id (fst r)}) d"
  have step: "claim_row ps r (jobs, d) = (jobs @ [job_of ps r], ?d)"
    using Cons.prems by (intro claim_row_free) auto
  have "\<forall>r' \<in> set rows. fst r' \<in> set (db_nodes ?d) \<and> null_or_le (n_test_lease_until (fst r')) (cl_now ps)"
  proof (intro ballI conjI)
    fix r' assume r': "r' \<in> set rows"
    have "n_id (fst r) \<notin> (\<lambda>r. n_id (fst r)) ` set rows" using Cons.prems(2) by simp
    with imageI [OF r', of "\<lambda>r. n_id (fst r)"] have "n_id (fst r') \<noteq> n_id (fst r)" by metis
    moreover have "fst r' \<in> set (db_nodes d)" using r' Cons.prems(3) by auto
    ultimately show "fst r' \<in> set (db_nodes ?d)" by (force simp: on_nodes_def claim_ids_def)
    show "null_or_le (n_test_lease_until (fst r')) (cl_now ps)" using r' Cons.prems(3) by auto
  qed
  with Cons have "fold (claim_row ps) rows (jobs @ [job_of ps r], ?d) =
      ((jobs @ [job_of ps r]) @ map (job_of ps) rows,
       on_nodes (claim_ids (cl_now ps) (cl_lease ps) ((\<lambda>r. n_id (fst r)) ` set rows)) ?d)"
    by (intro Cons.IH) (simp_all add: on_nodes_def)
  moreover have "{n_id (fst r)} \<inter> (\<lambda>r. n_id (fst r)) ` set rows = {}" using Cons.prems(2) by auto
  ultimately show ?case
    by (simp add: step on_nodes_def claim_ids_claim)
qed (simp add: on_nodes_def)

text \<open>What an append to the jobs does, in a queue that is not an execution state.\<close>

definition queue_state :: "string \<Rightarrow> bool" where
  "queue_state s \<longleftrightarrow> s \<notin> {''TESTING'', ''WAITING_FOR_PORT''}"

lemma selected_subset: "set (selected ps k ns) \<subseteq> set (eligible (cl_state ps) (cl_now ps) ns)"
  unfolding selected_def by (metis set_sort set_take_subset)

lemma distinct_selected:
  "distinct (map n_id ns) \<Longrightarrow> queue_state (cl_state ps) \<Longrightarrow>
     distinct (map (\<lambda>r. n_id (fst r)) (selected ps k ns))"
proof -
  assume d: "distinct (map n_id ns)" "queue_state (cl_state ps)"
  let ?e = "eligible (cl_state ps) (cl_now ps) ns"
  let ?s = "sort_key (\<lambda>r. claim_order (cl_now ps) (cl_pressure ps) (fst r)) ?e"
  have "distinct (map (\<lambda>r. n_id (fst r)) ?e)" using d by (intro distinct_eligible) (auto simp: queue_state_def)
  then have "distinct (map (\<lambda>r. n_id (fst r)) ?s)" by (simp add: distinct_map)
  then show ?thesis unfolding selected_def take_map [symmetric] by (rule distinct_take)
qed

lemma append_claims_eq:
  assumes "distinct (map n_id (db_nodes d))" and "queue_state (cl_state ps)"
    and "rows = (if cl_queue_limit ps = 0 \<or> limit \<le> length jobs then []
      else selected ps (min (cl_queue_limit ps) (limit - length jobs)) (db_nodes d))"
  shows "append_claims limit ps (jobs, d) =
    (jobs @ map (job_of ps) rows,
     on_nodes (claim_ids (cl_now ps) (cl_lease ps) ((\<lambda>r. n_id (fst r)) ` set rows)) d)"
proof (cases "cl_queue_limit ps = 0 \<or> limit \<le> length jobs")
  case False
  then have rows: "rows = selected ps (min (cl_queue_limit ps) (limit - length jobs)) (db_nodes d)"
    using assms(3) by simp
  have "\<forall>r \<in> set rows. fst r \<in> set (db_nodes d) \<and> null_or_le (n_test_lease_until (fst r)) (cl_now ps)"
    using eligible_mem assms(2) selected_subset unfolding rows
    by (fastforce simp: queue_state_def test_due_def)
  with False show ?thesis
    using fold_claim_row [OF assms(1) distinct_selected [OF assms(1,2)]] rows
    by (simp add: append_claims_def)
qed (use assms in \<open>simp add: append_claims_def on_nodes_def\<close>)

lemma length_sort_take [simp]: "length (selected ps k ns) = min k (length (eligible (cl_state ps) (cl_now ps) ns))"
  by (simp add: selected_def)

lemma selected_all:
  "length (eligible (cl_state ps) (cl_now ps) ns) \<le> k \<Longrightarrow>
     set (selected ps k ns) = set (eligible (cl_state ps) (cl_now ps) ns)"
  by (simp add: selected_def)

lemma eligible_claim_ids:
  "queue_state s \<Longrightarrow> eligible s now (claim_ids now' l ids ns) =
     filter (\<lambda>r. n_id (fst r) \<notin> ids) (eligible s now ns)"
proof -
  assume s: "queue_state s"
  have f: "filter P (claim_ids now' l ids ns) = filter (\<lambda>n. n_id n \<notin> ids) (filter P ns)"
    if "\<And>n. \<not> P (claimed_row now' l n)" for P
    using that by (induction ns) (auto simp: claim_ids_def)
  show ?thesis
    unfolding eligible_def using s
    by (subst (1 2) f) (auto simp: queue_state_def filter_map comp_def)
qed

text \<open>A claim: what a job says of the node it was made from.\<close>

definition claim_of :: "claim_env \<Rightarrow> node list \<Rightarrow> TestJob \<Rightarrow> bool" where
  "claim_of e ns j \<longleftrightarrow> (\<exists>queue \<in> set queue_order. \<exists>n.
     (n, fst queue) \<in> set (eligible (fst queue) (ce_now e) ns) \<and> j = job_of (claim_params e queue 0) (n, fst queue))"

definition claim_inv :: "claim_env \<Rightarrow> nat \<Rightarrow> db \<Rightarrow> TestJob list \<times> db \<Rightarrow> bool" where
  "claim_inv e capacity d0 s \<longleftrightarrow>
     snd s = on_nodes (claim_ids (ce_now e) (ce_lease e) (tj_id ` set (fst s))) d0 \<and>
     distinct (map tj_id (fst s)) \<and> length (fst s) \<le> capacity \<and>
     (\<forall>j \<in> set (fst s). claim_of e (db_nodes d0) j)"

lemma claim_params_simps [simp]:
  "cl_state (claim_params e q k) = fst q" "cl_queue_limit (claim_params e q k) = k"
  "cl_now (claim_params e q k) = ce_now e" "cl_lease (claim_params e q k) = ce_lease e"
  by (simp_all add: claim_params_def)

lemma job_of_limit: "job_of (claim_params e q k) r = job_of (claim_params e q k') r"
  by (simp add: claim_params_def job_of_def split: prod.splits)

lemma job_of_simps [simp]: "tj_id (job_of ps r) = n_id (fst r)" "tj_lifecycle_state (job_of ps r) = snd r"
  by (simp_all add: job_of_def split: prod.splits)

lemma queue_order_states: "queue \<in> set queue_order \<Longrightarrow> queue_state (fst queue)"
  by (auto simp: queue_order_def queue_state_def)

lemma claim_step:
  assumes u: "distinct (map n_id (db_nodes d0))" and inv: "claim_inv e capacity d0 (jobs, d)"
    and q: "queue \<in> set queue_order"
    and el: "el = eligible (fst queue) (ce_now e) (db_nodes d)"
  shows "\<exists>new d'. append_claims capacity (claim_params e queue limit) (jobs, d) = (jobs @ new, d') \<and>
    claim_inv e capacity d0 (jobs @ new, d') \<and>
    length new = min (min limit (capacity - length jobs)) (length el) \<and>
    (\<forall>j \<in> set new. tj_lifecycle_state j = fst queue) \<and>
    (\<exists>ids. d' = on_nodes (claim_ids (ce_now e) (ce_lease e) ids) d) \<and>
    (length el \<le> min limit (capacity - length jobs) \<longrightarrow>
       eligible (fst queue) (ce_now e) (db_nodes d') = [])"
proof -
  let ?ps = "claim_params e queue limit"
  define k where "k = min limit (capacity - length jobs)"
  have d: "d = on_nodes (claim_ids (ce_now e) (ce_lease e) (tj_id ` set jobs)) d0"
    and dj: "distinct (map tj_id jobs)" and lj: "length jobs \<le> capacity"
    and cj: "\<forall>j \<in> set jobs. claim_of e (db_nodes d0) j"
    using inv by (auto simp: claim_inv_def)
  have ud: "distinct (map n_id (db_nodes d))" using u by (simp add: d on_nodes_def)
  have qs: "queue_state (fst queue)" using q by (rule queue_order_states)
  define rows where "rows = (if limit = 0 \<or> capacity \<le> length jobs then []
      else selected ?ps (min limit (capacity - length jobs)) (db_nodes d))"
  have rows: "rows = selected ?ps k (db_nodes d)"
    using lj by (auto simp: rows_def k_def selected_def)
  have el0: "el = filter (\<lambda>r. n_id (fst r) \<notin> tj_id ` set jobs) (eligible (fst queue) (ce_now e) (db_nodes d0))"
    by (simp add: el d on_nodes_def eligible_claim_ids [OF qs])
  have sub: "set rows \<subseteq> set el"
    using selected_subset [of ?ps k "db_nodes d"] by (simp add: rows el)
  let ?ids = "(\<lambda>r. n_id (fst r)) ` set rows"
  define d' where "d' = on_nodes (claim_ids (ce_now e) (ce_lease e) ?ids) d"
  have eq: "append_claims capacity ?ps (jobs, d) = (jobs @ map (job_of ?ps) rows, d')"
    using append_claims_eq [OF ud, of ?ps rows capacity jobs] qs by (simp add: rows_def d'_def)
  have "n_id (fst r) \<notin> tj_id ` set jobs" if "r \<in> set rows" for r
    using that sub by (auto simp: el0)
  then have disj: "tj_id ` set jobs \<inter> ?ids = {}" unfolding disjoint_iff by blast
  have snds: "snd r = fst queue" "(fst r, fst queue) \<in> set (eligible (fst queue) (ce_now e) (db_nodes d0))"
    if "r \<in> set rows" for r
  proof -
    have r: "(fst r, snd r) \<in> set (eligible (fst queue) (ce_now e) (db_nodes d0))"
      using that sub el0 by auto
    then show "snd r = fst queue" using eligible_mem qs by (fastforce simp: queue_state_def)
    with r show "(fst r, fst queue) \<in> set (eligible (fst queue) (ce_now e) (db_nodes d0))" by simp
  qed
  have "claim_inv e capacity d0 (jobs @ map (job_of ?ps) rows, d')"
    unfolding claim_inv_def fst_conv snd_conv
  proof (intro conjI)
    show "d' = on_nodes (claim_ids (ce_now e) (ce_lease e) (tj_id ` set (jobs @ map (job_of ?ps) rows))) d0"
      using claim_ids_claim [OF disj] by (simp add: d'_def d on_nodes_def image_Un image_image)
    have "distinct (map (\<lambda>r. n_id (fst r)) rows)"
      unfolding rows by (rule distinct_selected) (simp_all add: ud qs)
    then show "distinct (map tj_id (jobs @ map (job_of ?ps) rows))"
      using dj disj by (simp add: comp_def image_image)
    show "length (jobs @ map (job_of ?ps) rows) \<le> capacity"
      using lj by (simp add: rows k_def)
    show "\<forall>j \<in> set (jobs @ map (job_of ?ps) rows). claim_of e (db_nodes d0) j"
    proof
      fix j assume "j \<in> set (jobs @ map (job_of ?ps) rows)"
      then consider "j \<in> set jobs" | r where "r \<in> set rows" "j = job_of ?ps r" by auto
      then show "claim_of e (db_nodes d0) j"
      proof cases
        case 1
        with cj show ?thesis by blast
      next
        case 2
        then have "j = job_of (claim_params e queue 0) (fst r, fst queue)"
          using snds(1) job_of_limit [of e queue limit r 0] by (metis prod.collapse)
        with 2 snds(2) q show ?thesis unfolding claim_of_def by blast
      qed
    qed
  qed
  moreover have "length rows = min k (length el)" by (simp add: rows el)
  moreover have "eligible (fst queue) (ce_now e) (db_nodes d') = []" if "length el \<le> k"
  proof -
    have "set rows = set el" using that selected_all [of ?ps "db_nodes d" k] by (simp add: rows el)
    then show ?thesis
      by (auto simp: d'_def on_nodes_def eligible_claim_ids [OF qs] el filter_empty_conv)
  qed
  ultimately show ?thesis
    using eq snds(1) d'_def by (intro exI [of _ "map (job_of ?ps) rows"] exI [of _ d']) (auto simp: k_def)
qed

text \<open>The two passes keep the invariant; the first one gives each queue its quota, the second
  leaves nothing due behind unless the capacity is used up.\<close>

definition jobs_in :: "string \<Rightarrow> TestJob list \<Rightarrow> nat" where
  "jobs_in state jobs = length (filter (\<lambda>j. tj_lifecycle_state j = state) jobs)"

lemma jobs_in_append [simp]: "jobs_in s (xs @ ys) = jobs_in s xs + jobs_in s ys"
  by (simp add: jobs_in_def)

lemma claim_of_eligible:
  assumes "distinct (map n_id ns)" and "claim_of e ns j" and "(n, s) \<in> set (eligible s now ns)"
    and "queue_state s" and "tj_lifecycle_state j \<noteq> s"
  shows "n_id n \<noteq> tj_id j"
proof
  assume same: "n_id n = tj_id j"
  from assms(2) obtain queue m where q: "queue \<in> set queue_order"
    "(m, fst queue) \<in> set (eligible (fst queue) (ce_now e) ns)" "j = job_of (claim_params e queue 0) (m, fst queue)"
    by (auto simp: claim_of_def)
  have m: "m \<in> set ns" "n_lifecycle_state m = fst queue \<or>
      n_lifecycle_state m = ''WAITING_FOR_PORT'' \<and> n_waiting_from_state m = Some (fst queue)"
    using eligible_mem [OF q(2)] queue_order_states [OF q(1)] by (auto simp: queue_state_def)
  have n: "n \<in> set ns" "n_lifecycle_state n = s \<or>
      n_lifecycle_state n = ''WAITING_FOR_PORT'' \<and> n_waiting_from_state n = Some s"
    using eligible_mem [OF assms(3)] assms(4) by (auto simp: queue_state_def)
  have "m = n" using assms(1) m(1) n(1) same q(3) by (auto simp: distinct_map inj_on_def)
  with m n q(3) assms(4,5) queue_order_states [OF q(1)] show False by (auto simp: queue_state_def)
qed

lemma quota_pass_claims:
  assumes "distinct (map n_id (db_nodes d0))" and "set queues \<subseteq> set queue_order"
    and "distinct (map fst queues)"
    and "claim_inv e capacity d0 (jobs, d)"
    and "\<forall>j \<in> set jobs. tj_lifecycle_state j \<notin> fst ` set queues"
    and "length jobs + sum_list (map (\<lambda>queue. quota_of q (fst queue)) queues) \<le> capacity"
    and "quota_pass e capacity q queues ((jobs, d), debt) = ((jobs', d'), debt')"
  shows "claim_inv e capacity d0 (jobs', d') \<and>
    (\<forall>queue \<in> set queues. min (quota_of q (fst queue)) (length (eligible (fst queue) (ce_now e) (db_nodes d0)))
       \<le> jobs_in (fst queue) jobs') \<and>
    (\<forall>s. jobs_in s jobs \<le> jobs_in s jobs')"
  using assms(2-7)
proof (induction queues arbitrary: jobs d debt)
  case (Cons queue queues)
  define el where "el = eligible (fst queue) (ce_now e) (db_nodes d)"
  have q: "queue \<in> set queue_order" using Cons.prems(1) by simp
  from claim_step [OF assms(1) Cons.prems(3) q el_def]
  obtain new d1 where step: "append_claims capacity (claim_params e queue (quota_of q (fst queue))) (jobs, d) = (jobs @ new, d1)"
    and inv: "claim_inv e capacity d0 (jobs @ new, d1)"
    and len: "length new = min (min (quota_of q (fst queue)) (capacity - length jobs)) (length el)"
    and states: "\<forall>j \<in> set new. tj_lifecycle_state j = fst queue" by blast
  have len': "length new = min (quota_of q (fst queue)) (length el)"
    using len Cons.prems(5) by simp
  have el: "el = eligible (fst queue) (ce_now e) (db_nodes d0)"
  proof -
    have claims: "\<forall>j \<in> set jobs. claim_of e (db_nodes d0) j"
      and d: "d = on_nodes (claim_ids (ce_now e) (ce_lease e) (tj_id ` set jobs)) d0"
      using Cons.prems(3) by (auto simp: claim_inv_def)
    have "n_id (fst r) \<notin> tj_id ` set jobs" if "r \<in> set (eligible (fst queue) (ce_now e) (db_nodes d0))" for r
    proof -
      have "(fst r, fst queue) \<in> set (eligible (fst queue) (ce_now e) (db_nodes d0))"
        using that eligible_snd [OF that] by (metis prod.collapse)
      then show ?thesis
        using claim_of_eligible [OF assms(1)] claims queue_order_states [OF q] Cons.prems(4) by fastforce
    qed
    then show ?thesis
      by (simp add: el_def d on_nodes_def eligible_claim_ids [OF queue_order_states [OF q]] filter_id_conv)
  qed
  have rest: "quota_pass e capacity q queues ((jobs @ new, d1), consume_claims (fst queue) (length new) debt)
      = ((jobs', d'), debt')"
    using Cons.prems(6) step by (simp add: Let_def)
  have "fst queue \<notin> fst ` set queues" "\<forall>j \<in> set jobs. tj_lifecycle_state j \<notin> fst ` set queues"
    using Cons.prems(2,4) by simp_all
  then have "\<forall>j \<in> set (jobs @ new). tj_lifecycle_state j \<notin> fst ` set queues"
    using states by (simp add: ball_Un)
  moreover have "length (jobs @ new) + sum_list (map (\<lambda>queue. quota_of q (fst queue)) queues) \<le> capacity"
    using Cons.prems(5) len' by simp
  ultimately have IH: "claim_inv e capacity d0 (jobs', d') \<and>
    (\<forall>queue \<in> set queues. min (quota_of q (fst queue)) (length (eligible (fst queue) (ce_now e) (db_nodes d0)))
       \<le> jobs_in (fst queue) jobs') \<and>
    (\<forall>s. jobs_in s (jobs @ new) \<le> jobs_in s jobs')"
    using Cons.IH [OF _ _ inv _ _ rest] Cons.prems(1,2) by simp
  moreover have "filter (\<lambda>j. tj_lifecycle_state j = fst queue) new = new" using states by (simp add: filter_id_conv)
  then have "jobs_in (fst queue) new = length new" by (simp add: jobs_in_def)
  then have "min (quota_of q (fst queue)) (length (eligible (fst queue) (ce_now e) (db_nodes d0))) \<le> jobs_in (fst queue) (jobs @ new)"
    by (simp add: len' el)
  moreover have "jobs_in s jobs \<le> jobs_in s jobs'" for s
    using IH by (metis jobs_in_append add_leD1)
  ultimately show ?case by (auto intro: order_trans)
qed simp

lemma overflow_pass_claims:
  assumes "distinct (map n_id (db_nodes d0))" and "set queues \<subseteq> set queue_order"
    and "claim_inv e capacity d0 (jobs, d)"
    and "overflow_pass e capacity queues ((jobs, d), debt) = ((jobs', d'), debt')"
  shows "claim_inv e capacity d0 (jobs', d') \<and>
    (\<forall>s. jobs_in s jobs \<le> jobs_in s jobs') \<and> length jobs \<le> length jobs' \<and>
    (\<forall>s now. queue_state s \<and> eligible s now (db_nodes d) = [] \<longrightarrow> eligible s now (db_nodes d') = []) \<and>
    (length jobs' < capacity \<longrightarrow>
       (\<forall>queue \<in> set queues. eligible (fst queue) (ce_now e) (db_nodes d') = []))"
  using assms(2-4)
proof (induction queues arbitrary: jobs d debt)
  case (Cons queue queues)
  show ?case
  proof (cases "length jobs = capacity")
    case True
    with Cons.prems show ?thesis by auto
  next
    case False
    define el where "el = eligible (fst queue) (ce_now e) (db_nodes d)"
    have q: "queue \<in> set queue_order" using Cons.prems(1) by simp
    from claim_step [OF assms(1) Cons.prems(2) q el_def, of "capacity - length jobs"]
    obtain new d1 where step: "append_claims capacity (claim_params e queue (capacity - length jobs)) (jobs, d) = (jobs @ new, d1)"
      and inv: "claim_inv e capacity d0 (jobs @ new, d1)"
      and len: "length new = min (capacity - length jobs) (length el)"
      and ids: "\<exists>ids. d1 = on_nodes (claim_ids (ce_now e) (ce_lease e) ids) d"
      and fin: "length el \<le> capacity - length jobs \<longrightarrow> eligible (fst queue) (ce_now e) (db_nodes d1) = []"
      by auto
    have rest: "overflow_pass e capacity queues ((jobs @ new, d1), consume_claims (fst queue) (length new) debt)
        = ((jobs', d'), debt')"
      using Cons.prems(3) step False by (simp add: Let_def)
    have IH: "claim_inv e capacity d0 (jobs', d') \<and>
      (\<forall>s. jobs_in s (jobs @ new) \<le> jobs_in s jobs') \<and> length (jobs @ new) \<le> length jobs' \<and>
      (\<forall>s now. queue_state s \<and> eligible s now (db_nodes d1) = [] \<longrightarrow> eligible s now (db_nodes d') = []) \<and>
      (length jobs' < capacity \<longrightarrow>
         (\<forall>queue \<in> set queues. eligible (fst queue) (ce_now e) (db_nodes d') = []))"
      using Cons.IH [OF _ inv rest] Cons.prems(1) by simp
    have more: "jobs_in s jobs \<le> jobs_in s jobs'" for s
      using IH by (metis jobs_in_append add_leD1)
    have keep: "eligible s now (db_nodes d1) = []" if "queue_state s" "eligible s now (db_nodes d) = []" for s now
      using ids that by (auto simp: on_nodes_def eligible_claim_ids)
    have "length el \<le> capacity - length jobs" if "length jobs' < capacity"
      using that IH len by auto
    with IH fin have "\<forall>queue' \<in> set (queue # queues). eligible (fst queue') (ce_now e) (db_nodes d') = []"
      if "length jobs' < capacity"
      using that queue_order_states [OF q] by auto
    with IH keep more show ?thesis by auto
  qed
qed simp

lemma claim_due_passes:
  assumes "distinct (map n_id (db_nodes d))" and "claim_due e capacity0 d = (jobs, d')"
    and "capacity = max capacity0 1"
  shows "\<exists>d1. claim_inv e capacity d (jobs, d1) \<and> db_nodes d' = db_nodes d1 \<and>
    (\<exists>s. d' = d1\<lparr>db_scheduler_state := s\<rparr>) \<and>
    (\<forall>queue \<in> set queue_order. min (quota_of (for_capacity capacity) (fst queue))
       (length (eligible (fst queue) (ce_now e) (db_nodes d))) \<le> jobs_in (fst queue) jobs) \<and>
    (length jobs < capacity \<longrightarrow> (\<forall>queue \<in> set queue_order. eligible (fst queue) (ce_now e) (db_nodes d1) = []))"
proof -
  define debt where "debt = accrue capacity (debt_from_value (scheduler_state ''quota_debt'' d))"
  obtain j1 d1 debt1 where p1: "quota_pass e capacity (for_capacity capacity) queue_order (([], d), debt) = ((j1, d1), debt1)"
    by (metis surj_pair)
  obtain j2 d2 debt2 where p2: "overflow_pass e capacity queue_order ((j1, d1), debt1) = ((j2, d2), debt2)"
    by (metis surj_pair)
  have "claim_inv e capacity d ([], d)" by (simp add: claim_inv_def on_nodes_def)
  moreover have "distinct (map fst queue_order)" by (simp add: queue_order_def)
  moreover have "sum_list (map (\<lambda>queue. quota_of (for_capacity capacity) (fst queue)) queue_order) = capacity"
    using quota_sum [of capacity] by (simp add: queue_order_def quota_of_def)
  ultimately have one: "claim_inv e capacity d (j1, d1) \<and>
    (\<forall>queue \<in> set queue_order. min (quota_of (for_capacity capacity) (fst queue))
       (length (eligible (fst queue) (ce_now e) (db_nodes d))) \<le> jobs_in (fst queue) j1)"
    using quota_pass_claims [OF assms(1) subset_refl _ _ _ _ p1] by simp
  then have two: "claim_inv e capacity d (j2, d2)" "\<forall>s. jobs_in s j1 \<le> jobs_in s j2"
    "length j2 < capacity \<longrightarrow> (\<forall>queue \<in> set queue_order. eligible (fst queue) (ce_now e) (db_nodes d2) = [])"
    using overflow_pass_claims [OF assms(1) subset_refl _ p2] by auto
  have jobs: "jobs = j2" and d': "d' = (if j2 = [] then d2
      else set_scheduler_state (ce_now e) ''quota_debt'' (debt_json debt2) d2)"
    using assms(2) p1 p2 by (auto simp: claim_due_def Let_def debt_def assms(3))
  have "\<exists>s. d' = d2\<lparr>db_scheduler_state := s\<rparr>"
  proof (cases "j2 = []")
    case True
    then have "d' = d2\<lparr>db_scheduler_state := db_scheduler_state d2\<rparr>" by (simp add: d')
    then show ?thesis by blast
  qed (auto simp: d' set_scheduler_state_def)
  moreover from this have "db_nodes d' = db_nodes d2" by auto
  moreover have "\<forall>queue \<in> set queue_order. min (quota_of (for_capacity capacity) (fst queue))
       (length (eligible (fst queue) (ce_now e) (db_nodes d))) \<le> jobs_in (fst queue) j2"
    using one two(2) by (meson order_trans)
  ultimately show ?thesis
    unfolding jobs by (intro exI [of _ d2] conjI two(1,3))
qed

text \<open>A queue without a quota gets nothing in the first pass, and the second pass fills the rest of
  the capacity from the first queue that still has enough due rows.\<close>

lemma jobs_in_new: "\<forall>j \<in> set new. tj_lifecycle_state j = q \<Longrightarrow> jobs_in s new = (if s = q then length new else 0)"
  by (auto simp: jobs_in_def filter_id_conv filter_empty_conv)

lemma quota_pass_without_quota:
  assumes "distinct (map n_id (db_nodes d0))" and "set queues \<subseteq> set queue_order"
    and "claim_inv e capacity d0 (jobs, d)" and "quota_of q s = 0"
    and "quota_pass e capacity q queues ((jobs, d), debt) = ((jobs', d'), debt')"
  shows "jobs_in s jobs' = jobs_in s jobs"
  using assms(2,3,5)
proof (induction queues arbitrary: jobs d debt)
  case (Cons queue queues)
  have q: "queue \<in> set queue_order" using Cons.prems(1) by simp
  from claim_step [OF assms(1) Cons.prems(2) q refl]
  obtain new d1 where step: "append_claims capacity (claim_params e queue (quota_of q (fst queue))) (jobs, d) = (jobs @ new, d1)"
    and inv: "claim_inv e capacity d0 (jobs @ new, d1)"
    and len: "length new \<le> quota_of q (fst queue)"
    and states: "\<forall>j \<in> set new. tj_lifecycle_state j = fst queue" by fastforce
  have "jobs_in s new = 0" using len assms(4) by (auto simp: jobs_in_new [OF states])
  moreover have "jobs_in s jobs' = jobs_in s (jobs @ new)"
    by (rule Cons.IH [OF _ inv]) (use Cons.prems(1,3) step in \<open>simp_all add: Let_def\<close>)
  ultimately show ?case by simp
qed simp

lemma eligible_after_claims:
  assumes "distinct (map n_id (db_nodes d0))" and "claim_inv e capacity d0 (jobs, d)" and "queue_state s"
  shows "length (eligible s (ce_now e) (db_nodes d0)) \<le> length (eligible s (ce_now e) (db_nodes d)) + length jobs"
proof -
  let ?el = "eligible s (ce_now e) (db_nodes d0)"
  have d: "d = on_nodes (claim_ids (ce_now e) (ce_lease e) (tj_id ` set jobs)) d0"
    using assms(2) by (simp add: claim_inv_def)
  have "distinct (map (\<lambda>r. n_id (fst r)) ?el)"
    using assms(1,3) by (intro distinct_eligible) (auto simp: queue_state_def)
  then have "distinct (map (\<lambda>r. n_id (fst r)) (filter (\<lambda>r. n_id (fst r) \<in> tj_id ` set jobs) ?el))"
    by (rule distinct_map_filter)
  then have "length (filter (\<lambda>r. n_id (fst r) \<in> tj_id ` set jobs) ?el) =
      card ((\<lambda>r. n_id (fst r)) ` set (filter (\<lambda>r. n_id (fst r) \<in> tj_id ` set jobs) ?el))"
    using distinct_card by fastforce
  also have "\<dots> \<le> card (tj_id ` set jobs)" by (intro card_mono) auto
  also have "\<dots> \<le> length jobs" using card_length [of "map tj_id jobs"] by simp
  finally show ?thesis
    using sum_length_filter_compl [of "\<lambda>r. n_id (fst r) \<in> tj_id ` set jobs" ?el]
    by (simp add: d on_nodes_def eligible_claim_ids [OF assms(3)])
qed

lemma overflow_pass_fills_first:
  assumes "distinct (map n_id (db_nodes d0))" and "queue \<in> set queue_order" and "s \<noteq> fst queue"
    and "claim_inv e capacity d0 (jobs, d)" and "length jobs \<le> capacity"
    and "capacity \<le> length (eligible (fst queue) (ce_now e) (db_nodes d)) + length jobs"
    and "overflow_pass e capacity (queue # queues) ((jobs, d), debt) = ((jobs', d'), debt')"
  shows "jobs_in s jobs' = jobs_in s jobs"
proof (cases "length jobs = capacity")
  case False
  from claim_step [OF assms(1,4,2) refl, of "capacity - length jobs"]
  obtain new d1 where step: "append_claims capacity (claim_params e queue (capacity - length jobs)) (jobs, d) = (jobs @ new, d1)"
    and len: "length new = capacity - length jobs"
    and states: "\<forall>j \<in> set new. tj_lifecycle_state j = fst queue"
    using assms(5,6) by fastforce
  have full: "overflow_pass e capacity queues (s, debt) = (s, debt)" if "length (fst s) = capacity" for s debt
    using that by (cases queues) auto
  have "jobs' = jobs @ new"
    using assms(5,7) step len False by (simp add: Let_def full)
  then show ?thesis using assms(3) by (simp add: jobs_in_new [OF states])
qed (use assms(7) in simp)

lemma active_quota: "quota_of (for_capacity c) ''ACTIVE'' = 0 \<longleftrightarrow> c \<le> 5"
proof (cases "10 \<le> c")
  case True
  then have "1 \<le> c * 10 div 100" by simp
  then show ?thesis using True quota_near [of c] by (auto simp: quota_of_def)
next
  case False
  then have "c \<in> set [0..<10]" by auto
  moreover have "\<forall>c \<in> set [0..<10]. quota_of (for_capacity c) ''ACTIVE'' = 0 \<longleftrightarrow> c \<le> 5" by code_simp
  ultimately show ?thesis by blast
qed

lemma small_tick_passes_over_active:
  assumes "distinct (map n_id (db_nodes d))" and "claim_due e capacity0 d = (jobs, d')"
    and "capacity0 \<le> 5" and "max capacity0 1 \<le> length (eligible ''CANDIDATE'' (ce_now e) (db_nodes d))"
  shows "jobs_in ''ACTIVE'' jobs = 0"
proof -
  define capacity where "capacity = max capacity0 1"
  define debt where "debt = accrue capacity (debt_from_value (scheduler_state ''quota_debt'' d))"
  obtain j1 d1 debt1 where p1: "quota_pass e capacity (for_capacity capacity) queue_order (([], d), debt) = ((j1, d1), debt1)"
    by (metis surj_pair)
  obtain d2 debt2 where p2: "overflow_pass e capacity queue_order ((j1, d1), debt1) = ((jobs, d2), debt2)"
    using assms(2) p1 by (auto simp: claim_due_def Let_def debt_def capacity_def split: prod.splits)
  have inv0: "claim_inv e capacity d ([], d)" by (simp add: claim_inv_def on_nodes_def)
  have "distinct (map fst queue_order)" by (simp add: queue_order_def)
  moreover have "sum_list (map (\<lambda>queue. quota_of (for_capacity capacity) (fst queue)) queue_order) = capacity"
    using quota_sum [of capacity] by (simp add: queue_order_def quota_of_def)
  ultimately have inv1: "claim_inv e capacity d (j1, d1)"
    using quota_pass_claims [OF assms(1) subset_refl _ inv0 _ _ p1] by simp
  have "quota_of (for_capacity capacity) ''ACTIVE'' = 0" using assms(3) by (simp add: active_quota capacity_def)
  from quota_pass_without_quota [OF assms(1) subset_refl inv0 this p1]
  have "jobs_in ''ACTIVE'' j1 = 0" by (simp add: jobs_in_def)
  moreover obtain rest where order: "queue_order = (''CANDIDATE'', ''new'') # rest" by (simp add: queue_order_def)
  have "queue_state ''CANDIDATE''" by (simp add: queue_state_def)
  from eligible_after_claims [OF assms(1) inv1 this] assms(4)
  have "capacity \<le> length (eligible ''CANDIDATE'' (ce_now e) (db_nodes d1)) + length j1"
    by (simp add: capacity_def)
  moreover have "length j1 \<le> capacity" using inv1 by (simp add: claim_inv_def)
  ultimately show ?thesis
    using overflow_pass_fills_first [OF assms(1) _ _ inv1 _ _ p2 [unfolded order], of "''ACTIVE''"]
    by (simp add: order)
qed

text \<open>What a claim of a node means, spelt out.\<close>

lemma claim_of_iff:
  "claim_of e ns j \<Longrightarrow> \<exists>n \<in> set ns. tj_id j = n_id n \<and> tj_raw_config j = n_raw_config n \<and>
     test_due (ce_now e) n \<and> tj_lifecycle_state j \<in> fst ` set queue_order \<and>
     tj_lifecycle_state j = (if n_lifecycle_state n = ''WAITING_FOR_PORT''
       then coalesce (n_waiting_from_state n) ''CANDIDATE'' else n_lifecycle_state n)"
proof -
  assume "claim_of e ns j"
  then obtain queue n where q: "queue \<in> set queue_order"
    "(n, fst queue) \<in> set (eligible (fst queue) (ce_now e) ns)" "j = job_of (claim_params e queue 0) (n, fst queue)"
    by (auto simp: claim_of_def)
  have "n \<in> set ns" "test_due (ce_now e) n" "n_lifecycle_state n = fst queue \<or>
      n_lifecycle_state n = ''WAITING_FOR_PORT'' \<and> n_waiting_from_state n = Some (fst queue)"
    using eligible_mem [OF q(2)] queue_order_states [OF q(1)] by (auto simp: queue_state_def)
  moreover have "tj_raw_config j = n_raw_config n" by (simp add: q(3) job_of_def)
  moreover have "fst queue \<noteq> ''WAITING_FOR_PORT''" using queue_order_states [OF q(1)] by (simp add: queue_state_def)
  ultimately show ?thesis using q by (intro bexI [of _ n]) auto
qed

section \<open>Properties\<close>

text \<open>Quotas: for every capacity the four quotas add up to it exactly, and each is its share
  of 40, 30, 20 or 10 percent rounded down or one more.\<close>

theorem quota_largest_remainder:
  "qq_new (for_capacity c) + qq_successful_probation (for_capacity c) +
     qq_recoverable_dormant (for_capacity c) + qq_exploration (for_capacity c) = c \<and>
   qq_new (for_capacity c) \<in> {c * 40 div 100, c * 40 div 100 + 1} \<and>
   qq_successful_probation (for_capacity c) \<in> {c * 30 div 100, c * 30 div 100 + 1} \<and>
   qq_recoverable_dormant (for_capacity c) \<in> {c * 20 div 100, c * 20 div 100 + 1} \<and>
   qq_exploration (for_capacity c) \<in> {c * 10 div 100, c * 10 div 100 + 1}"
  using quota_sum quota_near by blast

text \<open>C39. Claims are sound: a tick hands out at most its capacity, never a node twice, and only
  nodes that were valid, due and free of a test lease, under the state they were in or,
  when they waited for a port, came from. Exactly the claimed nodes become TESTING,
  remember that state and are leased; every other node, and all but the scheduler's own
  state, is as before.\<close>

theorem claims_sound:
  assumes "distinct (map n_id (db_nodes d))" and "claim_due e capacity d = (jobs, d')"
  shows "length jobs \<le> max capacity 1 \<and> distinct (map tj_id jobs) \<and>
    (\<forall>j \<in> set jobs. \<exists>n \<in> set (db_nodes d). tj_id j = n_id n \<and> tj_raw_config j = n_raw_config n \<and>
       test_due (ce_now e) n \<and> tj_lifecycle_state j \<in> fst ` set queue_order \<and>
       tj_lifecycle_state j = (if n_lifecycle_state n = ''WAITING_FOR_PORT''
         then coalesce (n_waiting_from_state n) ''CANDIDATE'' else n_lifecycle_state n)) \<and>
    db_nodes d' = map (\<lambda>n. if n_id n \<in> tj_id ` set jobs
      then claimed_row (ce_now e) (ce_lease e) n else n) (db_nodes d) \<and>
    (\<exists>ns s. d' = d\<lparr>db_nodes := ns, db_scheduler_state := s\<rparr>)"
proof -
  obtain d1 s where 1: "claim_inv e (max capacity 1) d (jobs, d1)" "db_nodes d' = db_nodes d1"
    "d' = d1\<lparr>db_scheduler_state := s\<rparr>"
    using claim_due_passes [OF assms refl] by blast
  then have "d1 = on_nodes (claim_ids (ce_now e) (ce_lease e) (tj_id ` set jobs)) d"
    by (simp add: claim_inv_def)
  then have nodes: "db_nodes d' = map (\<lambda>n. if n_id n \<in> tj_id ` set jobs
      then claimed_row (ce_now e) (ce_lease e) n else n) (db_nodes d)"
    and frame: "\<exists>ns s. d' = d\<lparr>db_nodes := ns, db_scheduler_state := s\<rparr>"
    using 1(2,3) by (auto simp: on_nodes_def claim_ids_def)
  from 1(1) have "length jobs \<le> max capacity 1" "distinct (map tj_id jobs)"
    "\<forall>j \<in> set jobs. claim_of e (db_nodes d) j" by (simp_all add: claim_inv_def)
  then show ?thesis using claim_of_iff nodes frame by blast
qed

text \<open>C15. Claims are complete: when a tick uses less than its capacity, no due node of any queue is
  left; and whatever the other queues hold, each queue gets its quota of claims or as many
  as it has due nodes. A tick of six or more slots therefore always tests a due ACTIVE node.
  A tick of five or fewer (the service starts with four) tests none as long as there are
  enough due CANDIDATE nodes to fill it, whatever credits the queues have saved up.\<close>

theorem claims_complete:
  assumes "distinct (map n_id (db_nodes d))" and "claim_due e capacity d = (jobs, d')"
  shows "(length jobs < max capacity 1 \<longrightarrow>
      (\<forall>queue \<in> set queue_order. eligible (fst queue) (ce_now e) (db_nodes d') = [])) \<and>
    (\<forall>queue \<in> set queue_order. min (quota_of (for_capacity (max capacity 1)) (fst queue))
       (length (eligible (fst queue) (ce_now e) (db_nodes d))) \<le> jobs_in (fst queue) jobs) \<and>
    (6 \<le> capacity \<and> eligible ''ACTIVE'' (ce_now e) (db_nodes d) \<noteq> [] \<longrightarrow> 1 \<le> jobs_in ''ACTIVE'' jobs) \<and>
    (capacity \<le> 5 \<and> max capacity 1 \<le> length (eligible ''CANDIDATE'' (ce_now e) (db_nodes d)) \<longrightarrow>
       jobs_in ''ACTIVE'' jobs = 0)"
proof (intro conjI impI)
  from claim_due_passes [OF assms refl]
  show quotas: "\<forall>queue \<in> set queue_order. min (quota_of (for_capacity (max capacity 1)) (fst queue))
       (length (eligible (fst queue) (ce_now e) (db_nodes d))) \<le> jobs_in (fst queue) jobs"
    and "length jobs < max capacity 1 \<Longrightarrow>
      \<forall>queue \<in> set queue_order. eligible (fst queue) (ce_now e) (db_nodes d') = []" by auto
  assume "6 \<le> capacity \<and> eligible ''ACTIVE'' (ce_now e) (db_nodes d) \<noteq> []"
  then show "1 \<le> jobs_in ''ACTIVE'' jobs"
    using quotas active_quota [of "max capacity 1"]
    by (cases "length (eligible ''ACTIVE'' (ce_now e) (db_nodes d))") (auto simp: queue_order_def)
qed (use small_tick_passes_over_active [OF assms] in blast)

definition due_db :: db where
  "due_db = empty_db\<lparr>db_nodes :=
     [new_node ''a'' ''h1'' 0,
      (new_node ''b'' ''h2'' 0)\<lparr>n_lifecycle_state := ''ACTIVE''\<rparr>,
      (new_node ''c'' ''h3'' 0)\<lparr>n_lifecycle_state := ''WAITING_FOR_PORT'', n_waiting_from_state := Some ''DORMANT''\<rparr>]\<rparr>"

definition sample_env :: claim_env where
  "sample_env = \<lparr>ce_now = seconds 10, ce_lease = seconds 60,
     ce_active_download_interval = seconds 300, ce_pressure = 0\<rparr>"

lemma due_db_unique: "distinct (map n_id (db_nodes due_db))"
  by (simp add: due_db_def new_node_def)

theorem claims_sound_witness:
  "length (fst (claim_due sample_env 2 due_db)) \<le> 2 \<and>
   distinct (map tj_id (fst (claim_due sample_env 2 due_db)))"
  using claims_sound [OF due_db_unique surjective_pairing, of sample_env 2] by simp

theorem claims_complete_witness:
  "1 \<le> jobs_in ''CANDIDATE'' (fst (claim_due sample_env 1 due_db)) \<and>
   jobs_in ''ACTIVE'' (fst (claim_due sample_env 1 due_db)) = 0 \<and>
   1 \<le> jobs_in ''ACTIVE'' (fst (claim_due sample_env 6 due_db))"
proof -
  have quota: "(''CANDIDATE'', ''new'') \<in> set queue_order" "quota_of (for_capacity (max 1 1)) ''CANDIDATE'' = 1"
    by (simp add: queue_order_def) code_simp
  have rows: "length (eligible ''CANDIDATE'' (ce_now sample_env) (db_nodes due_db)) = 1"
    "length (eligible ''ACTIVE'' (ce_now sample_env) (db_nodes due_db)) = 1"
    by (simp_all add: due_db_def eligible_def test_due_def new_node_def)
  from claims_complete [OF due_db_unique surjective_pairing, of sample_env 1] quota rows(1)
  have "1 \<le> jobs_in ''CANDIDATE'' (fst (claim_due sample_env 1 due_db))"
    "jobs_in ''ACTIVE'' (fst (claim_due sample_env 1 due_db)) = 0" by force+
  moreover from claims_complete [OF due_db_unique surjective_pairing, of sample_env 6] rows(2)
  have "1 \<le> jobs_in ''ACTIVE'' (fst (claim_due sample_env 6 due_db))" by force
  ultimately show ?thesis by simp
qed

text \<open>A test lease is exclusive: whatever row a scheduler selected before, taking the lease
  of a node succeeds only if it is free in the store at that moment, and until it ends
  no second claim of the node succeeds, whatever else changes the node but its lease.\<close>

theorem test_lease_exclusive:
  assumes "distinct (map n_id (db_nodes d))" and "claim_row ps row (jobs, d) = (jobs @ [j], d')"
    and "node_of (tj_id j) d' = Some m"
    and "distinct (map n_id (db_nodes d''))" and "node_of (tj_id j) d'' = Some n"
    and "n_test_lease_until n = n_test_lease_until m"
    and "n_id (fst row') = tj_id j" and "cl_now qs < cl_now ps + cl_lease ps"
  shows "claim_row qs row' (jobs', d'') = (jobs', d'')"
proof -
  let ?free = "lease_free (cl_now ps) (n_id (fst row))"
  have one: "rows_affected ?free (db_nodes d) = 1" and j: "tj_id j = n_id (fst row)"
    and d': "d' = on_nodes (update_where ?free (claimed_row (cl_now ps) (cl_lease ps))) d"
    using assms(2) by (auto simp: claim_row_def Let_def split: if_splits)
  from one have "filter ?free (db_nodes d) \<noteq> []" by (auto simp: rows_affected_def)
  then obtain r where r: "r \<in> set (db_nodes d)" "?free r" by (auto simp: filter_empty_conv)
  obtain k where k: "node_of (tj_id j) d = Some k" "m = (if ?free k then claimed_row (cl_now ps) (cl_lease ps) k else k)"
    using assms(3) by (auto simp: d' node_of_def on_nodes_def find_row_update_key)
  then have "k \<in> set (db_nodes d)" "n_id k = tj_id j" unfolding node_of_def by (auto dest: find_row_Some)
  with r assms(1) j have "k = r" by (auto simp: lease_free_def distinct_map inj_on_def)
  with k(2) r(2) have lease: "n_test_lease_until n = Some (cl_now ps + cl_lease ps)" using assms(6) by simp
  have n: "n \<in> set (db_nodes d'')" "n_id n = tj_id j"
    using assms(5) unfolding node_of_def by (auto dest: find_row_Some)
  have none: "\<not> lease_free (cl_now qs) (n_id (fst row')) x" if "x \<in> set (db_nodes d'')" for x
  proof
    assume "lease_free (cl_now qs) (n_id (fst row')) x"
    moreover from this have "x = n" using that n assms(4,7) by (auto simp: lease_free_def distinct_map inj_on_def)
    ultimately show False using lease assms(8) by (simp add: lease_free_def)
  qed
  then have "update_where (lease_free (cl_now qs) (n_id (fst row'))) (claimed_row (cl_now qs) (cl_lease qs))
      (db_nodes d'') = db_nodes d''" by (rule update_where_none)
  moreover have "rows_affected (lease_free (cl_now qs) (n_id (fst row'))) (db_nodes d'') = 0"
    using none by (simp add: rows_affected_zero)
  ultimately show ?thesis by (simp add: claim_row_def on_nodes_def Let_def)
qed

theorem test_lease_exclusive_witness:
  "claim_row (claim_params sample_env (''CANDIDATE'', ''new'') 1) (new_node ''a'' ''h1'' 0, ''CANDIDATE'')
     ([], snd (claim_row (claim_params sample_env (''CANDIDATE'', ''new'') 1)
       (new_node ''a'' ''h1'' 0, ''CANDIDATE'') ([], due_db))) =
   ([], snd (claim_row (claim_params sample_env (''CANDIDATE'', ''new'') 1)
       (new_node ''a'' ''h1'' 0, ''CANDIDATE'') ([], due_db)))"
proof -
  let ?ps = "claim_params sample_env (''CANDIDATE'', ''new'') 1"
  let ?row = "(new_node ''a'' ''h1'' 0, ''CANDIDATE'')"
  have c: "claim_row ?ps ?row ([], due_db) = ([] @ [job_of ?ps ?row],
      on_nodes (claim_ids (ce_now sample_env) (ce_lease sample_env) {''a''}) due_db)"
    using claim_row_free [OF due_db_unique, of ?row ?ps "[]"] by (simp add: due_db_def new_node_def)
  let ?d = "on_nodes (claim_ids (ce_now sample_env) (ce_lease sample_env) {''a''}) due_db"
  have "distinct (map n_id (db_nodes ?d))" using due_db_unique by (simp add: on_nodes_def)
  moreover have "node_of (tj_id (job_of ?ps ?row)) ?d =
      Some (claimed_row (ce_now sample_env) (ce_lease sample_env) (new_node ''a'' ''h1'' 0))"
    by (simp add: node_of_def find_row_def on_nodes_def claim_ids_def due_db_def new_node_def)
  ultimately show ?thesis
    using test_lease_exclusive [OF due_db_unique c, of _ ?d _ ?row ?ps "[]"] c
    by (simp add: sample_env_def seconds_def)
qed

text \<open>The claims do not look at the credits.\<close>

definition with_credits :: "kv_row list \<Rightarrow> TestJob list \<times> db \<Rightarrow> TestJob list \<times> db" where
  "with_credits s js = (fst js, (snd js)\<lparr>db_scheduler_state := s\<rparr>)"

lemma fst_with_credits [simp]: "fst (with_credits s js) = fst js"
  by (simp add: with_credits_def)

lemma claim_row_credits: "claim_row ps row (with_credits s js) = with_credits s (claim_row ps row js)"
  by (simp add: claim_row_def with_credits_def on_nodes_def Let_def split: prod.splits)

lemma append_claims_credits: "append_claims k ps (with_credits s js) = with_credits s (append_claims k ps js)"
proof -
  have "fold (claim_row ps) rows (with_credits s js) = with_credits s (fold (claim_row ps) rows js)" for rows js
    by (induction rows arbitrary: js) (simp_all add: claim_row_credits)
  moreover obtain jobs d where js: "js = (jobs, d)" by (cases js)
  ultimately have f: "fold (claim_row ps) rows (jobs, d\<lparr>db_scheduler_state := s\<rparr>)
      = with_credits s (fold (claim_row ps) rows (jobs, d))" for rows
    by (metis fst_conv snd_conv with_credits_def)
  show ?thesis
    unfolding js by (simp add: append_claims_def with_credits_def [of s "(jobs, d)"] f)
qed

lemma quota_pass_credits:
  "fst (quota_pass e c q queues (with_credits s js, debt')) = with_credits s (fst (quota_pass e c q queues (js, debt)))"
  by (induction queues arbitrary: js debt debt') (simp_all add: append_claims_credits Let_def)

lemma overflow_pass_credits:
  "fst (overflow_pass e c queues (with_credits s js, debt')) = with_credits s (fst (overflow_pass e c queues (js, debt)))"
  by (induction queues arbitrary: js debt debt') (simp_all add: append_claims_credits Let_def)

text \<open>The stored credits decide nothing: the nodes claimed and the leases given are the same
  for every credit in the store, so unused credit never moves a claim from one queue to
  another, and with a capacity of at most five ACTIVE nodes have no guaranteed claim.\<close>

theorem credits_are_inert:
  "fst (claim_due e capacity (d\<lparr>db_scheduler_state := s\<rparr>)) = fst (claim_due e capacity d) \<and>
   db_nodes (snd (claim_due e capacity (d\<lparr>db_scheduler_state := s\<rparr>))) = db_nodes (snd (claim_due e capacity d)) \<and>
   list_all (\<lambda>c. qq_exploration (for_capacity c) = 0) [1, 2, 3, 4, 5]"
proof -
  define c where "c = max capacity 1"
  define run where "run js debt = overflow_pass e c queue_order (quota_pass e c (for_capacity c) queue_order (js, debt))" for js debt
  have run: "fst (run (with_credits s js) debt') = with_credits s (fst (run js debt))" for js debt debt'
  proof -
    obtain a b where "quota_pass e c (for_capacity c) queue_order (js, debt) = (a, b)" by fastforce
    moreover obtain b' where "quota_pass e c (for_capacity c) queue_order (with_credits s js, debt') = (with_credits s a, b')"
      using quota_pass_credits [of e c "for_capacity c" queue_order s js debt' debt] calculation
      by (metis fst_conv surjective_pairing)
    ultimately show ?thesis by (simp add: run_def overflow_pass_credits)
  qed
  have claim: "fst (claim_due e capacity x) = fst (fst (run ([], x) debt0)) \<and>
      db_nodes (snd (claim_due e capacity x)) = db_nodes (snd (fst (run ([], x) debt0)))"
    if "debt0 = accrue c (debt_from_value (scheduler_state ''quota_debt'' x))" for x debt0
    by (auto simp: claim_due_def run_def c_def that Let_def set_scheduler_state_def split: prod.splits)
  have w: "([], d\<lparr>db_scheduler_state := s\<rparr>) = with_credits s ([], d)" by (simp add: with_credits_def)
  let ?debt = "\<lambda>x. accrue c (debt_from_value (scheduler_state ''quota_debt'' x))"
  note same = claim [OF refl, of d] claim [OF refl, of "d\<lparr>db_scheduler_state := s\<rparr>"]
    run [of "([], d)" "?debt (d\<lparr>db_scheduler_state := s\<rparr>)" "?debt d"]
  show ?thesis
  proof (intro conjI)
    show "fst (claim_due e capacity (d\<lparr>db_scheduler_state := s\<rparr>)) = fst (claim_due e capacity d)"
      using same by (simp add: w)
    show "db_nodes (snd (claim_due e capacity (d\<lparr>db_scheduler_state := s\<rparr>))) = db_nodes (snd (claim_due e capacity d))"
      using same by (simp add: w) (simp add: with_credits_def)
    show "list_all (\<lambda>c. qq_exploration (for_capacity c) = 0) [1, 2, 3, 4, 5]" by code_simp
  qed
qed

section \<open>Shared incidents\<close>

definition report_failed :: "ProbeReport \<Rightarrow> bool" where
  "report_failed r =
     (let succeeded = list_ex (\<lambda>v. pv_class v = Success) (pr_events r);
          inconclusive_only = list_all (\<lambda>v. inconclusive (pv_class v) \<or> pv_class v = InvalidConfig) (pr_events r);
          structurally_invalid = list_ex (\<lambda>v. pv_class v = InvalidConfig) (pr_events r)
      in \<not> succeeded \<and> \<not> inconclusive_only \<and> \<not> structurally_invalid \<and> pr_events r \<noteq> [])"

definition count_class :: "FailureClass \<Rightarrow> (string \<times> ProbeReport) list \<Rightarrow> nat" where
  "count_class c failed =
     sum_list (map (\<lambda>(_, r). length (filter (\<lambda>v. pv_class v = c) (pr_events r))) failed)"

definition proxies_of :: "(string \<times> ProbeReport) list \<Rightarrow> ParsedProxy list" where
  "proxies_of failed = List.map_filter (\<lambda>(_, r). pr_proxy r) failed"

definition servers_of :: "(string \<times> ProbeReport) list \<Rightarrow> string set" where
  "servers_of failed =
     (\<lambda>(i, r). case pr_proxy r of Some p \<Rightarrow> pp_address p | None \<Rightarrow> i) ` set failed"

definition correlated_incident :: "(string \<times> ProbeReport) list \<Rightarrow> nat \<Rightarrow> string option" where
  "correlated_incident reports threshold_percent =
     (let failed = filter (\<lambda>(_, r). report_failed r) reports in
      if length reports < 3 then None
      else if length failed * 100 < length reports * threshold_percent then None
      else if \<not> (2 \<le> card (pp_source ` set (proxies_of failed)) \<or>
                  2 \<le> card (pp_protocol ` set (proxies_of failed)) \<or> 2 \<le> card (servers_of failed)) then None
      else if length failed \<le> count_class DnsFailure failed * 2 then Some ''dns_failure_cluster''
      else if length failed \<le> count_class EndpointFailure failed * 2 then Some ''endpoint_failure_cluster''
      else Some ''cross_source_failure_cluster'')"

definition is_mass_failure :: "(string \<times> ProbeReport) list \<Rightarrow> nat \<Rightarrow> bool" where
  "is_mass_failure reports threshold_percent = (correlated_incident reports threshold_percent \<noteq> None)"

lemma report_failed_events:
  "report_failed r \<Longrightarrow> (\<forall>v \<in> set (pr_events r). pv_class v \<notin> {Success, InvalidConfig}) \<and>
     (\<exists>v \<in> set (pr_events r). \<not> inconclusive (pv_class v))"
  by (auto simp: report_failed_def Let_def list_ex_iff list_all_iff)

lemma card_two: "2 \<le> card A \<longleftrightarrow> (\<exists>a b. a \<in> A \<and> b \<in> A \<and> a \<noteq> b)" if "finite A"
proof -
  have "2 \<le> card A \<longleftrightarrow> \<not> card A \<le> Suc 0" by linarith
  then show ?thesis using card_le_Suc0_iff_eq [OF that] by blast
qed

lemma two_images: "2 \<le> card (g ` A) \<Longrightarrow> finite A \<Longrightarrow> \<exists>x \<in> A. \<exists>y \<in> A. g x \<noteq> g y"
  by (subst (asm) card_two) auto

lemma proxies_of_mem: "p \<in> set (proxies_of failed) \<Longrightarrow> \<exists>x \<in> set failed. pr_proxy (snd x) = Some p"
  by (force simp: proxies_of_def List.map_filter_def)

lemma two_proxies:
  assumes "2 \<le> card (g ` set (proxies_of failed))"
  shows "\<exists>x \<in> set failed. \<exists>y \<in> set failed. map_option g (pr_proxy (snd x)) \<noteq> map_option g (pr_proxy (snd y))"
proof -
  obtain p q where "p \<in> set (proxies_of failed)" "q \<in> set (proxies_of failed)" "g p \<noteq> g q"
    using two_images [OF assms] by blast
  with proxies_of_mem [of p] proxies_of_mem [of q] show ?thesis by (metis option.map(2) option.inject)
qed

text \<open>A shared incident needs correlated evidence: it is declared only for at least three
  reports of which the configured share failed conclusively, none of those with a success
  or an invalid configuration, and when two of the failed proxies differ in their source,
  their protocol or their server; so a single bad server, and a cohort whose failures are
  only inconclusive ones, is never an incident.\<close>

theorem incident_needs_correlation:
  assumes "correlated_incident reports pct = Some k"
  shows "3 \<le> length reports \<and>
    length reports * pct \<le> length (filter (\<lambda>(_, r). report_failed r) reports) * 100 \<and>
    (\<exists>(i, r) \<in> set reports. \<exists>(i', r') \<in> set reports. report_failed r \<and> report_failed r' \<and>
       (map_option pp_source (pr_proxy r) \<noteq> map_option pp_source (pr_proxy r') \<or>
        map_option pp_protocol (pr_proxy r) \<noteq> map_option pp_protocol (pr_proxy r') \<or>
        (case pr_proxy r of Some p \<Rightarrow> pp_address p | None \<Rightarrow> i) \<noteq>
        (case pr_proxy r' of Some p \<Rightarrow> pp_address p | None \<Rightarrow> i'))) \<and>
    (\<forall>(i, r) \<in> set reports. report_failed r \<longrightarrow>
       (\<forall>v \<in> set (pr_events r). pv_class v \<notin> {Success, InvalidConfig}) \<and>
       (\<exists>v \<in> set (pr_events r). \<not> inconclusive (pv_class v)))"
proof -
  define failed where "failed = filter (\<lambda>(_, r). report_failed r) reports"
  from assms have "3 \<le> length reports" and share: "length reports * pct \<le> length failed * 100"
    and "2 \<le> card (pp_source ` set (proxies_of failed)) \<or>
         2 \<le> card (pp_protocol ` set (proxies_of failed)) \<or> 2 \<le> card (servers_of failed)"
    by (auto simp: correlated_incident_def failed_def Let_def split: if_splits)
  then obtain x y where x: "x \<in> set failed" and y: "y \<in> set failed" and
    "map_option pp_source (pr_proxy (snd x)) \<noteq> map_option pp_source (pr_proxy (snd y)) \<or>
     map_option pp_protocol (pr_proxy (snd x)) \<noteq> map_option pp_protocol (pr_proxy (snd y)) \<or>
     (case pr_proxy (snd x) of Some p \<Rightarrow> pp_address p | None \<Rightarrow> fst x) \<noteq>
     (case pr_proxy (snd y) of Some p \<Rightarrow> pp_address p | None \<Rightarrow> fst y)"
  proof (elim disjE)
    assume "2 \<le> card (servers_of failed)"
    from two_images [OF this [unfolded servers_of_def]] that show thesis
      by (auto simp: case_prod_unfold)
  qed (use two_proxies that in blast)+
  moreover have "x \<in> set reports \<and> report_failed (snd x)" "y \<in> set reports \<and> report_failed (snd y)"
    using x y by (auto simp: failed_def)
  ultimately have "\<exists>(i, r) \<in> set reports. \<exists>(i', r') \<in> set reports. report_failed r \<and> report_failed r' \<and>
       (map_option pp_source (pr_proxy r) \<noteq> map_option pp_source (pr_proxy r') \<or>
        map_option pp_protocol (pr_proxy r) \<noteq> map_option pp_protocol (pr_proxy r') \<or>
        (case pr_proxy r of Some p \<Rightarrow> pp_address p | None \<Rightarrow> i) \<noteq>
        (case pr_proxy r' of Some p \<Rightarrow> pp_address p | None \<Rightarrow> i'))"
    by (intro bexI [of _ x] bexI [of _ y]) (auto simp: case_prod_unfold)
  moreover have "\<forall>(i, r) \<in> set reports. report_failed r \<longrightarrow>
       (\<forall>v \<in> set (pr_events r). pv_class v \<notin> {Success, InvalidConfig}) \<and>
       (\<exists>v \<in> set (pr_events r). \<not> inconclusive (pv_class v))"
    using report_failed_events by blast
  ultimately show ?thesis
    using \<open>3 \<le> length reports\<close> share unfolding failed_def by (intro conjI)
qed

definition failing_report :: "string \<Rightarrow> string \<times> ProbeReport" where
  "failing_report i = (i, \<lparr>pr_proxy = Some (sample_proxy\<lparr>pp_address := i\<rparr>),
     pr_events = [event DnsTcp TcpTimeout None JNull]\<rparr>)"

theorem incident_needs_correlation_witness:
  "300 \<le> length (filter (\<lambda>(_, r). report_failed r) (map failing_report [''a'', ''b'', ''c''])) * 100"
proof -
  have "correlated_incident (map failing_report [''a'', ''b'', ''c'']) 100 \<noteq> None" by code_simp
  then obtain k where "correlated_incident (map failing_report [''a'', ''b'', ''c'']) 100 = Some k" by auto
  from incident_needs_correlation [OF this] show ?thesis by simp
qed

end
