(* ===== verification/Clients.thy ===== *)
theory Clients
  imports Tables Config
begin

text \<open>
  Serving clients: the candidates of the store for one client, weighted selection among
  a random sample of them (\<open>src/src/selection/mod.rs\<close>), the record of the assignment,
  the client's feedback with its circuit breaker, and the candidate for the VIP port.
\<close>

section \<open>Candidates\<close>

record CandidateForSelection =
  ca_id :: string
  ca_main_port :: "int option"
  ca_relay_delay_ms :: "int option"
  ca_download_kbps :: "int option"
  ca_health_score :: real
  ca_publication_lease_until :: "instant option"
  ca_active_assignments :: int
  ca_recent_global_usage :: int
  ca_recent_client_usage :: int
  ca_client_success_ewma :: "real option"
  ca_client_fail_streak :: int
  ca_client_rate_limit_streak :: int
  ca_circuit_open :: bool

definition client_row :: "string \<Rightarrow> string \<Rightarrow> db \<Rightarrow> client_node_state option" where
  "client_row client nid d =
     find_row (\<lambda>c. cn_client_id c = client \<and> cn_node_id c = nid) (db_clients d)"

definition servable :: "instant \<Rightarrow> node \<Rightarrow> bool" where
  "servable now n =
     (n_lifecycle_state n = ''ACTIVE'' \<and> n_main_port n \<noteq> None \<and> n_structurally_valid n = 1 \<and>
      sql_gt (n_publication_lease_until n) now)"

definition circuit_open :: "instant \<Rightarrow> client_node_state option \<Rightarrow> bool" where
  "circuit_open now c =
     (case c of None \<Rightarrow> False
      | Some r \<Rightarrow> cn_state r = ''OPEN'' \<and> sql_gt (cn_cooldown_until r) now)"

definition candidate_of :: "instant \<Rightarrow> nat \<Rightarrow> string \<Rightarrow> db \<Rightarrow> node \<Rightarrow> CandidateForSelection" where
  "candidate_of now ttl client d n =
     (let c = client_row client (n_id n) d
      in \<lparr>ca_id = n_id n, ca_main_port = n_main_port n, ca_relay_delay_ms = n_relay_delay_ms n,
          ca_download_kbps = n_download_kbps n, ca_health_score = n_health_score n,
          ca_publication_lease_until = n_publication_lease_until n,
          ca_active_assignments = int (count_rows (\<lambda>a. ae_node_id a = n_id n \<and>
             now - seconds (int ttl) \<le> ae_assigned_at a) (db_assignments d)),
          ca_recent_global_usage = int (count_rows (\<lambda>u. ue_node_id u = n_id n \<and>
             now - minutes 5 \<le> ue_created_at u) (db_usage d)),
          ca_recent_client_usage = int (count_rows (\<lambda>u. ue_node_id u = n_id n \<and>
             ue_client_id u = client \<and> now - minutes 30 \<le> ue_created_at u) (db_usage d)),
          ca_client_success_ewma = Option.bind c cn_success_rate_ewma,
          ca_client_fail_streak = coalesce (Option.bind c cn_fail_streak) 0,
          ca_client_rate_limit_streak = coalesce (Option.bind c cn_rate_limit_streak) 0,
          ca_circuit_open = circuit_open now c\<rparr>)"

definition candidates_for_client :: "instant \<Rightarrow> nat \<Rightarrow> string \<Rightarrow> db \<Rightarrow> CandidateForSelection list" where
  "candidates_for_client now ttl client d =
     filter (\<lambda>c. \<not> ca_circuit_open c)
       (map (candidate_of now ttl client d) (filter (servable now) (db_nodes d)))"

section \<open>The score\<close>

definition score :: "instant \<Rightarrow> AppConfig \<Rightarrow> CandidateForSelection \<Rightarrow> real" where
  "score now cfg c =
     (let max_delay = hc_max_relay_delay_ms (cfg_health cfg);
          w = sel_weights (cfg_selection cfg);
          latency = clamp 0 1 (1 - real_of_int (coalesce (ca_relay_delay_ms c) (int max_delay))
                                   / real (max max_delay 1));
          download = clamp 0 1 (real_of_int (coalesce (ca_download_kbps c) 0)
                                / real (max (dt_target_download_kbps (cfg_download_test cfg)) 1));
          fairness = 1 / (1 + real_of_int (ca_active_assignments c) + real_of_int (ca_recent_global_usage c)
                            + real_of_int (ca_recent_client_usage c));
          history = coalesce (ca_client_success_ewma c) (1 / 2);
          lease_freshness = clamp 0 1
            (case ca_publication_lease_until c of None \<Rightarrow> 0
             | Some t \<Rightarrow> real_of_int (max (num_seconds (t - now)) 0) / real_of_int (num_seconds (hours 12)));
          availability = ca_health_score c * (75 / 100 + 25 / 100 * lease_freshness);
          penalty = min (real_of_int (ca_client_fail_streak c) * (15 / 100)
                         + real_of_int (ca_client_rate_limit_streak c) * (25 / 100)) (1 / 2)
      in w_latency w * latency + w_download w * download + w_availability w * availability
         + w_fairness w * fairness + w_client_history w * history - penalty)"

text \<open>\<open>Iterator::max_by\<close>: the last of the maximal elements.\<close>

fun max_by :: "('a \<Rightarrow> real) \<Rightarrow> 'a list \<Rightarrow> 'a option" where
  "max_by f [] = None"
| "max_by f (x # xs) =
     (case max_by f xs of None \<Rightarrow> Some x | Some y \<Rightarrow> if f y < f x then Some x else Some y)"

section \<open>Assignment\<close>

record BestDecision =
  bd_node_id :: string
  bd_port :: u16
  bd_assignment_id :: string
  bd_relay_delay_ms :: "int option"
  bd_expires_in_seconds :: nat

definition empty_client_row :: "string \<Rightarrow> string \<Rightarrow> client_node_state" where
  "empty_client_row client nid =
     \<lparr>cn_client_id = client, cn_node_id = nid, cn_state = ''CLOSED'', cn_fail_streak = Some 0,
      cn_rate_limit_streak = Some 0, cn_cooldown_until = None, cn_usage_count = Some 0,
      cn_success_count = Some 0, cn_broken_count = Some 0, cn_rate_limited_count = Some 0,
      cn_success_rate_ewma = Some (1 / 2), cn_last_assigned_at = None,
      cn_last_feedback_at = None, cn_last_failure_at = None, cn_last_success_at = None\<rparr>"

definition is_client_row :: "string \<Rightarrow> string \<Rightarrow> client_node_state \<Rightarrow> bool" where
  "is_client_row client nid c = (cn_client_id c = client \<and> cn_node_id c = nid)"

definition record_assignment ::
  "instant \<Rightarrow> string \<Rightarrow> string \<Rightarrow> string \<Rightarrow> string \<Rightarrow> u16 \<Rightarrow> db \<Rightarrow> db" where
  "record_assignment now uid uid' client nid port d =
     d\<lparr>db_assignments := db_assignments d @
         [\<lparr>ae_id = uid, ae_client_id = client, ae_node_id = nid, ae_port = uint port,
           ae_assigned_at = now, ae_feedback_status = None, ae_feedback_at = None\<rparr>],
       db_usage := db_usage d @
         [\<lparr>ue_id = uid', ue_client_id = client, ue_node_id = nid, ue_event_type = ''assigned'',
           ue_created_at = now\<rparr>],
       db_clients := upsert (is_client_row client nid) (\<lambda>c. c\<lparr>cn_last_assigned_at := Some now\<rparr>)
         ((empty_client_row client nid)\<lparr>cn_last_assigned_at := Some now\<rparr>) (db_clients d)\<rparr>"

text \<open>
  \<open>pick k cs\<close> is the random sample; \<open>uid\<close> and \<open>uid'\<close> are the identifiers drawn for the
  assignment and the usage event.
\<close>

definition best ::
  "instant \<Rightarrow> (nat \<Rightarrow> CandidateForSelection list \<Rightarrow> CandidateForSelection list) \<Rightarrow> string \<Rightarrow> string \<Rightarrow>
   AppConfig \<Rightarrow> string \<Rightarrow> db \<Rightarrow> string + BestDecision option \<times> db" where
  "best now pick uid uid' cfg client d =
     (let selectable = filter (\<lambda>c. \<not> ca_circuit_open c)
                         (candidates_for_client now (cfg_assignment_ttl_seconds cfg) client d)
      in if selectable = [] then Inr (None, d)
         else
           (let sample_size = max (min (sel_sample_size (cfg_selection cfg)) (length selectable)) 1
            in case max_by (score now cfg) (pick sample_size selectable) of
                 None \<Rightarrow> Inl ''non-empty sample''
               | Some chosen \<Rightarrow>
                   (case ca_main_port chosen of
                      None \<Rightarrow> Inl ''selected node has no runtime port''
                    | Some p \<Rightarrow>
                        Inr (Some \<lparr>bd_node_id = ca_id chosen, bd_port = of_int p, bd_assignment_id = uid,
                                   bd_relay_delay_ms = ca_relay_delay_ms chosen,
                                   bd_expires_in_seconds = cfg_assignment_ttl_seconds cfg\<rparr>,
                             record_assignment now uid uid' client (ca_id chosen) (of_int p) d))))"

text \<open>What \<open>choose_multiple\<close> promises: distinct elements of the list, as many as asked for
  (for a list without repetitions).\<close>

definition sample_ok :: "('a list \<Rightarrow> 'a list) \<Rightarrow> nat \<Rightarrow> bool" where
  "sample_ok pick k \<longleftrightarrow> (\<forall>cs. set (pick cs) \<subseteq> set cs \<and> length (pick cs) = min k (length cs))"

section \<open>Feedback\<close>

definition full_jitter_cooldown :: "(nat \<Rightarrow> nat) \<Rightarrow> nat \<Rightarrow> nat \<Rightarrow> nat \<Rightarrow> duration" where
  "full_jitter_cooldown draw base cap streak =
     (let ceiling = min (sat_mul64 base (2 ^ min (streak - 1) 20)) cap
      in seconds (int (draw ceiling)))"

text \<open>The counters a feedback starts from, with the defaults of a missing row or column.\<close>

record counters =
  ct_fail_streak :: int
  ct_rate_limit_streak :: int
  ct_usage_count :: int
  ct_success_count :: int
  ct_broken_count :: int
  ct_rate_limited_count :: int
  ct_ewma :: real

definition counters_of :: "client_node_state option \<Rightarrow> counters" where
  "counters_of c =
     \<lparr>ct_fail_streak = coalesce (Option.bind c cn_fail_streak) 0,
      ct_rate_limit_streak = coalesce (Option.bind c cn_rate_limit_streak) 0,
      ct_usage_count = coalesce (Option.bind c cn_usage_count) 0,
      ct_success_count = coalesce (Option.bind c cn_success_count) 0,
      ct_broken_count = coalesce (Option.bind c cn_broken_count) 0,
      ct_rate_limited_count = coalesce (Option.bind c cn_rate_limited_count) 0,
      ct_ewma = coalesce (Option.bind c cn_success_rate_ewma) (1 / 2)\<rparr>"

definition u32_of :: "int \<Rightarrow> nat" where
  "u32_of i = nat (i mod 4294967296)"

text \<open>The new state, the cooldown, whether it was a success, and the counters.\<close>

definition feedback_effect ::
  "(nat \<Rightarrow> nat) \<Rightarrow> ClientPenaltyConfig \<Rightarrow> string \<Rightarrow> counters \<Rightarrow>
   string + string \<times> duration option \<times> bool \<times> counters" where
  "feedback_effect draw pen status ct =
     (if status = ''used'' then
        Inr (''CLOSED'', None, True,
          ct\<lparr>ct_fail_streak := 0, ct_rate_limit_streak := 0,
             ct_usage_count := ct_usage_count ct + 1, ct_success_count := ct_success_count ct + 1,
             ct_ewma := ct_ewma ct * (7 / 10) + 3 / 10\<rparr>)
      else if status = ''broken'' then
        Inr (''OPEN'',
          Some (full_jitter_cooldown draw (pn_base_cooldown_seconds (cp_broken pen))
                  (pn_max_cooldown_seconds (cp_broken pen)) (u32_of (ct_fail_streak ct + 1))), False,
          ct\<lparr>ct_fail_streak := ct_fail_streak ct + 1, ct_broken_count := ct_broken_count ct + 1,
             ct_ewma := ct_ewma ct * (7 / 10)\<rparr>)
      else if status = ''rate_limited'' then
        Inr (''OPEN'',
          Some (full_jitter_cooldown draw (pn_base_cooldown_seconds (cp_rate_limited pen))
                  (pn_max_cooldown_seconds (cp_rate_limited pen)) (u32_of (ct_rate_limit_streak ct + 1))), False,
          ct\<lparr>ct_rate_limit_streak := ct_rate_limit_streak ct + 1,
             ct_rate_limited_count := ct_rate_limited_count ct + 1,
             ct_ewma := ct_ewma ct * (7 / 10)\<rparr>)
      else Inl ''invalid feedback status'')"

definition feedback_row ::
  "instant \<Rightarrow> string \<times> duration option \<times> bool \<times> counters \<Rightarrow> client_node_state \<Rightarrow> client_node_state" where
  "feedback_row now eff c =
     (case eff of (st, cooldown, successful, ct) \<Rightarrow>
        c\<lparr>cn_state := st, cn_fail_streak := Some (ct_fail_streak ct),
          cn_rate_limit_streak := Some (ct_rate_limit_streak ct),
          cn_cooldown_until := map_option (\<lambda>v. now + v) cooldown,
          cn_usage_count := Some (ct_usage_count ct), cn_success_count := Some (ct_success_count ct),
          cn_broken_count := Some (ct_broken_count ct),
          cn_rate_limited_count := Some (ct_rate_limited_count ct),
          cn_success_rate_ewma := Some (ct_ewma ct), cn_last_feedback_at := Some now,
          cn_last_failure_at := (if successful then None else Some now),
          cn_last_success_at := (if successful then Some now else None)\<rparr>)"

definition open_assignment :: "string \<Rightarrow> string \<Rightarrow> db \<Rightarrow> string option" where
  "open_assignment client nid d =
     (case sort_key (\<lambda>a. - ae_assigned_at a)
            (filter (\<lambda>a. ae_client_id a = client \<and> ae_node_id a = nid \<and> ae_feedback_status a = None)
              (db_assignments d)) of
        [] \<Rightarrow> None | a # _ \<Rightarrow> Some (ae_id a))"

definition apply_client_feedback ::
  "instant \<Rightarrow> (nat \<Rightarrow> nat) \<Rightarrow> string \<Rightarrow> AppConfig \<Rightarrow> string \<Rightarrow> string \<Rightarrow> string \<Rightarrow> db \<Rightarrow> string + db" where
  "apply_client_feedback now draw uid cfg client nid status d =
     bind_e (ensure (0 < count_rows (\<lambda>n. n_id n = nid) (db_nodes d)) ''node not found'') (\<lambda>_.
     bind_e (feedback_effect draw (cfg_client_penalty cfg) status (counters_of (client_row client nid d))) (\<lambda>eff.
     Inr (d\<lparr>db_clients := upsert (is_client_row client nid) (feedback_row now eff)
              (feedback_row now eff (empty_client_row client nid)) (db_clients d),
            db_assignments := update_where (\<lambda>a. Some (ae_id a) = open_assignment client nid d)
              (\<lambda>a. a\<lparr>ae_feedback_status := Some status, ae_feedback_at := Some now\<rparr>) (db_assignments d),
            db_usage := db_usage d @
              [\<lparr>ue_id = uid, ue_client_id = client, ue_node_id = nid, ue_event_type = status,
                ue_created_at = now\<rparr>]\<rparr>)))"

definition feedback ::
  "instant \<Rightarrow> (nat \<Rightarrow> nat) \<Rightarrow> string \<Rightarrow> AppConfig \<Rightarrow> string \<Rightarrow> string \<Rightarrow> string \<Rightarrow> db \<Rightarrow> string + db" where
  "feedback now draw uid cfg client nid status d =
     bind_e (ensure (status \<in> {''used'', ''broken'', ''rate_limited''}) ''invalid feedback status'')
       (\<lambda>_. apply_client_feedback now draw uid cfg client nid status d)"

section \<open>The VIP candidate\<close>

record VipCandidate =
  vc_id :: string
  vc_raw_config :: string
  vc_score :: real

definition vip_order :: "node \<Rightarrow> real \<times> int \<times> int \<times> string" where
  "vip_order n =
     (- n_health_score n, - coalesce (n_download_kbps n) 0, coalesce (n_relay_delay_ms n) 999999,
      n_config_hash n)"

definition vip_score :: "nat \<Rightarrow> node \<Rightarrow> real" where
  "vip_score recent_usage n =
     n_health_score n * (55 / 100)
     + clamp 0 1 (real_of_int (coalesce (n_download_kbps n) 0) / 1000) * (22 / 100)
     + clamp 0 1 (1 - real_of_int (coalesce (n_relay_delay_ms n) 3000) / 3000) * (15 / 100)
     + 1 / (1 + real recent_usage) * (8 / 100)"

definition best_vip_candidate :: "instant \<Rightarrow> db \<Rightarrow> VipCandidate option" where
  "best_vip_candidate now d =
     (case sort_key vip_order (filter (servable now) (db_nodes d)) of
        [] \<Rightarrow> None
      | n # _ \<Rightarrow> Some \<lparr>vc_id = n_id n, vc_raw_config = n_raw_config n,
          vc_score = vip_score (count_rows (\<lambda>u. ue_node_id u = n_id n \<and> now - minutes 5 \<le> ue_created_at u)
                                  (db_usage d)) n\<rparr>)"

section \<open>Lemmas\<close>

lemma max_by_None: "max_by f xs = None \<longleftrightarrow> xs = []"
  by (induction xs) (auto split: option.splits)

lemma max_by_Some: "max_by f xs = Some m \<Longrightarrow> m \<in> set xs \<and> (\<forall>x \<in> set xs. f x \<le> f m)"
  by (induction xs arbitrary: m) (auto simp: max_by_None split: option.splits if_splits)

lemma candidate_fields [simp]:
  "ca_id (candidate_of now ttl client d n) = n_id n"
  "ca_main_port (candidate_of now ttl client d n) = n_main_port n"
  "ca_circuit_open (candidate_of now ttl client d n) = circuit_open now (client_row client (n_id n) d)"
  by (simp_all add: candidate_of_def Let_def)

lemma candidates_set:
  "c \<in> set (candidates_for_client now ttl client d) \<longleftrightarrow>
     (\<exists>n \<in> set (db_nodes d). servable now n \<and> \<not> circuit_open now (client_row client (n_id n) d) \<and>
        c = candidate_of now ttl client d n)"
  by (auto simp: candidates_for_client_def)

lemma client_row_upsert:
  assumes "\<And>c. cn_client_id (f c) = cn_client_id c \<and> cn_node_id (f c) = cn_node_id c"
  shows "client_row client' nid' (d\<lparr>db_clients :=
       upsert (is_client_row client nid) f (f (empty_client_row client nid)) (db_clients d)\<rparr>) =
     (if client' = client \<and> nid' = nid
      then Some (f (coalesce (client_row client nid d) (empty_client_row client nid)))
      else client_row client' nid' d)"
proof -
  let ?key = "\<lambda>c. (cn_client_id c, cn_node_id c)"
  have *: "client_row a b e = find_row (\<lambda>c. ?key c = (a, b)) (db_clients e)" for a b and e :: db
    by (simp add: client_row_def)
  have "find_row (\<lambda>c. ?key c = (client', nid'))
      (upsert (is_client_row client nid) f (f (empty_client_row client nid)) (db_clients d)) =
    (if (client', nid') = (client, nid)
     then Some (case find_row (\<lambda>c. ?key c = (client, nid)) (db_clients d) of
            None \<Rightarrow> f (empty_client_row client nid) | Some r \<Rightarrow> f r)
     else find_row (\<lambda>c. ?key c = (client', nid')) (db_clients d))"
    by (rule find_row_upsert_key) (auto simp: is_client_row_def assms empty_client_row_def)
  then show ?thesis
    by (cases "client_row client nid d") (simp_all add: *)
qed

lemma feedback_row_keys: "cn_client_id (feedback_row now eff c) = cn_client_id c \<and>
    cn_node_id (feedback_row now eff c) = cn_node_id c"
  by (cases eff) (simp add: feedback_row_def)

lemma full_jitter_cooldown_bounds:
  "draw_ok draw \<Longrightarrow> 0 \<le> full_jitter_cooldown draw base cap k \<and> full_jitter_cooldown draw base cap k \<le> seconds (int cap)"
proof -
  assume ok: "draw_ok draw"
  have "draw (min (sat_mul64 base (2 ^ min (k - 1) 20)) cap) \<le> cap"
    using ok by (meson draw_ok_def le_trans min.cobounded2)
  then show ?thesis by (simp add: full_jitter_cooldown_def Let_def seconds_def)
qed

section \<open>Properties\<close>

text \<open>C21. Selection: a client is given a node exactly when one is eligible for it; the node it
  gets is ACTIVE, valid, leased, has a runtime port and no open circuit for the client,
  scores at least as much as everything else in the random sample, and the assignment is
  recorded for it; when none is eligible nothing is recorded.\<close>

theorem best_picks_eligible_maximum:
  assumes "\<And>k. 0 < k \<Longrightarrow> sample_ok (pick k) k"
  shows "(best now pick uid uid' cfg client d = Inr (None, d) \<and>
          candidates_for_client now (cfg_assignment_ttl_seconds cfg) client d = []) \<or>
    (\<exists>b n c k. best now pick uid uid' cfg client d =
        Inr (Some b, record_assignment now uid uid' client (n_id n) (bd_port b) d) \<and>
      n \<in> set (db_nodes d) \<and> bd_node_id b = n_id n \<and> n_lifecycle_state n = ''ACTIVE'' \<and>
      n_structurally_valid n = 1 \<and> sql_gt (n_publication_lease_until n) now \<and>
      \<not> circuit_open now (client_row client (n_id n) d) \<and>
      n_main_port n \<noteq> None \<and> bd_port b = of_int (the (n_main_port n)) \<and>
      c = candidate_of now (cfg_assignment_ttl_seconds cfg) client d n \<and> 0 < k \<and>
      (\<forall>c' \<in> set (pick k (candidates_for_client now (cfg_assignment_ttl_seconds cfg) client d)).
         score now cfg c' \<le> score now cfg c))"
proof -
  let ?ttl = "cfg_assignment_ttl_seconds cfg"
  let ?cs = "candidates_for_client now ?ttl client d"
  have sel: "filter (\<lambda>c. \<not> ca_circuit_open c) ?cs = ?cs"
    by (simp add: candidates_for_client_def)
  show ?thesis
  proof (cases "?cs = []")
    case True
    then show ?thesis by (simp add: best_def Let_def)
  next
    case False
    define k where "k = max (min (sel_sample_size (cfg_selection cfg)) (length ?cs)) 1"
    have ok: "sample_ok (pick k) k" "0 < k" "min k (length ?cs) > 0"
      using assms [of k] False by (auto simp: k_def min_def max_def)
    then have "length (pick k ?cs) = min k (length ?cs)" unfolding sample_ok_def by blast
    with ok(3) have "0 < length (pick k ?cs)" by argo
    then have "pick k ?cs \<noteq> []" by simp
    then obtain c where c: "max_by (score now cfg) (pick k ?cs) = Some c"
      using max_by_None by (cases "max_by (score now cfg) (pick k ?cs)") auto
    then have m: "c \<in> set (pick k ?cs)" "\<forall>c' \<in> set (pick k ?cs). score now cfg c' \<le> score now cfg c"
      using max_by_Some [of "score now cfg" "pick k ?cs" c] by simp_all
    then have "c \<in> set ?cs" using ok(1) by (auto simp: sample_ok_def)
    then obtain n where n: "n \<in> set (db_nodes d)" "servable now n"
        "\<not> circuit_open now (client_row client (n_id n) d)" "c = candidate_of now ?ttl client d n"
      by (auto simp: candidates_set)
    then obtain p where p: "n_main_port n = Some p" by (auto simp: servable_def)
    let ?b = "\<lparr>bd_node_id = n_id n, bd_port = of_int p, bd_assignment_id = uid,
        bd_relay_delay_ms = ca_relay_delay_ms c, bd_expires_in_seconds = ?ttl\<rparr>"
    have "best now pick uid uid' cfg client d =
        Inr (Some ?b, record_assignment now uid uid' client (n_id n) (of_int p) d)"
      using False c p unfolding best_def Let_def sel k_def n(4) by simp
    moreover have "n_lifecycle_state n = ''ACTIVE''" "n_structurally_valid n = 1"
        "sql_gt (n_publication_lease_until n) now"
      using n(2) by (simp_all add: servable_def)
    ultimately show ?thesis
      using n p m(2) ok(2)
      by (intro disjI2 exI [of _ ?b] exI [of _ n] exI [of _ c] exI [of _ k]) simp
  qed
qed

definition sample_fleet :: db where
  "sample_fleet = empty_db\<lparr>db_nodes :=
     [(new_node ''a'' ''h1'' 0)\<lparr>n_lifecycle_state := ''ACTIVE'', n_main_port := Some 20000,
        n_publication_lease_until := Some (hours 6)\<rparr>]\<rparr>"

lemma sample_fleet_candidates: "candidates_for_client 0 60 client sample_fleet \<noteq> []"
  by (simp add: candidates_for_client_def sample_fleet_def servable_def new_node_def time_defs
      circuit_open_def client_row_def find_row_def empty_db_def)

theorem best_picks_eligible_maximum_witness:
  "\<exists>b d'. best 0 take ''u1'' ''u2'' default_config ''client'' sample_fleet = Inr (Some b, d') \<and>
     bd_node_id b = ''a''"
proof -
  have "sample_ok (take k) k" for k :: nat
    by (auto simp: sample_ok_def dest: in_set_takeD)
  then show ?thesis
    using best_picks_eligible_maximum [of take 0 "''u1''" "''u2''" default_config "''client''" sample_fleet]
      sample_fleet_candidates [of "''client''"]
    by (auto simp: default_config_def sample_fleet_def new_node_def)
qed

lemma feedback_Inr:
  "feedback now draw uid cfg client nid status d = Inr d' \<longleftrightarrow>
     (\<exists>n \<in> set (db_nodes d). n_id n = nid) \<and>
     (\<exists>eff. feedback_effect draw (cfg_client_penalty cfg) status (counters_of (client_row client nid d)) = Inr eff \<and>
        d' = d\<lparr>db_clients := upsert (is_client_row client nid) (feedback_row now eff)
              (feedback_row now eff (empty_client_row client nid)) (db_clients d),
            db_assignments := update_where (\<lambda>a. Some (ae_id a) = open_assignment client nid d)
              (\<lambda>a. a\<lparr>ae_feedback_status := Some status, ae_feedback_at := Some now\<rparr>) (db_assignments d),
            db_usage := db_usage d @
              [\<lparr>ue_id = uid, ue_client_id = client, ue_node_id = nid, ue_event_type = status,
                ue_created_at = now\<rparr>]\<rparr>)"
proof -
  have "0 < count_rows (\<lambda>n. n_id n = nid) (db_nodes d) \<longleftrightarrow> (\<exists>n \<in> set (db_nodes d). n_id n = nid)"
    by (auto simp: count_rows_def filter_empty_conv)
  moreover have "bind_e (ensure b msg) f = Inr r \<longleftrightarrow> b \<and> f () = Inr r" for b msg and f :: "unit \<Rightarrow> string + db" and r
    by (cases b) auto
  moreover have "feedback_effect draw pen status ct = Inr eff \<Longrightarrow> status \<in> {''used'', ''broken'', ''rate_limited''}"
    for pen ct eff
    by (auto simp: feedback_effect_def split: if_splits)
  ultimately show ?thesis
    unfolding feedback_def apply_client_feedback_def by (auto simp: bind_e_Inr)
qed

lemma feedback_client_row:
  assumes "feedback now draw uid cfg client nid status d = Inr d'"
  shows "\<exists>eff. feedback_effect draw (cfg_client_penalty cfg) status (counters_of (client_row client nid d)) = Inr eff \<and>
    (\<forall>client' nid'. client_row client' nid' d' = (if client' = client \<and> nid' = nid
       then Some (feedback_row now eff (coalesce (client_row client nid d) (empty_client_row client nid)))
       else client_row client' nid' d)) \<and>
    db_nodes d' = db_nodes d"
proof -
  from assms obtain eff where eff: "feedback_effect draw (cfg_client_penalty cfg) status
      (counters_of (client_row client nid d)) = Inr eff"
    and d': "db_clients d' = upsert (is_client_row client nid) (feedback_row now eff)
              (feedback_row now eff (empty_client_row client nid)) (db_clients d)" "db_nodes d' = db_nodes d"
    by (auto simp: feedback_Inr)
  have "client_row client' nid' d' = client_row client' nid' (d\<lparr>db_clients := db_clients d'\<rparr>)" for client' nid'
    by (simp add: client_row_def)
  with d' client_row_upsert [of "feedback_row now eff", OF feedback_row_keys] eff show ?thesis
    by metis
qed

definition max_cooldown :: "AppConfig \<Rightarrow> string \<Rightarrow> nat" where
  "max_cooldown cfg status =
     pn_max_cooldown_seconds
       (if status = ''broken'' then cp_broken (cfg_client_penalty cfg) else cp_rate_limited (cfg_client_penalty cfg))"

text \<open>Feedback: exactly the reports of a known status about a known node are accepted. An
  accepted one keeps the client's success average in the unit interval, opens the circuit
  for a failure and for at most the configured maximum, closes it for a success, and
  touches no node and no other client's row.\<close>

theorem feedback_effects:
  assumes "draw_ok draw" and "ct_ewma (counters_of (client_row client nid d)) \<in> {0..1}"
  shows "case feedback now draw uid cfg client nid status d of
      Inl e \<Rightarrow> status \<notin> {''used'', ''broken'', ''rate_limited''} \<or> (\<forall>n \<in> set (db_nodes d). n_id n \<noteq> nid)
    | Inr d' \<Rightarrow> status \<in> {''used'', ''broken'', ''rate_limited''} \<and> (\<exists>n \<in> set (db_nodes d). n_id n = nid) \<and>
        db_nodes d' = db_nodes d \<and>
        (\<forall>client' nid'. (client', nid') \<noteq> (client, nid) \<longrightarrow> client_row client' nid' d' = client_row client' nid' d) \<and>
        (\<exists>r e. client_row client nid d' = Some r \<and> cn_success_rate_ewma r = Some e \<and> e \<in> {0..1} \<and>
          (if status = ''used'' then cn_state r = ''CLOSED'' \<and> cn_cooldown_until r = None
           else cn_state r = ''OPEN'' \<and> (\<exists>t. cn_cooldown_until r = Some t \<and> now \<le> t \<and>
                  t \<le> now + seconds (int (max_cooldown cfg status)))))"
proof (cases "feedback now draw uid cfg client nid status d")
  case (Inl e)
  have "\<exists>d'. feedback now draw uid cfg client nid status d = Inr d'"
    if "status \<in> {''used'', ''broken'', ''rate_limited''}" "\<exists>n \<in> set (db_nodes d). n_id n = nid"
  proof -
    have "\<exists>eff. feedback_effect draw (cfg_client_penalty cfg) status (counters_of (client_row client nid d)) = Inr eff"
      using that(1) by (auto simp: feedback_effect_def)
    with that(2) show ?thesis unfolding feedback_Inr by blast
  qed
  with Inl show ?thesis by auto
next
  case (Inr d')
  let ?ct = "counters_of (client_row client nid d)"
  obtain eff where eff: "feedback_effect draw (cfg_client_penalty cfg) status ?ct = Inr eff"
    "\<forall>client' nid'. client_row client' nid' d' = (if client' = client \<and> nid' = nid
       then Some (feedback_row now eff (coalesce (client_row client nid d) (empty_client_row client nid)))
       else client_row client' nid' d)"
    "db_nodes d' = db_nodes d"
    using feedback_client_row [OF Inr] by blast
  have st: "status \<in> {''used'', ''broken'', ''rate_limited''}"
    using eff(1) by (auto simp: feedback_effect_def split: if_splits)
  have ex: "\<exists>n \<in> set (db_nodes d). n_id n = nid" using Inr feedback_Inr by blast
  have e: "ct_ewma ?ct * (7 / 10) \<in> {0..1}" "ct_ewma ?ct * (7 / 10) + 3 / 10 \<in> {0..1}"
    using assms(2) by auto
  note b = full_jitter_cooldown_bounds [OF assms(1)]
  let ?r = "feedback_row now eff (coalesce (client_row client nid d) (empty_client_row client nid))"
  have "\<exists>e. cn_success_rate_ewma ?r = Some e \<and> e \<in> {0..1} \<and>
      (if status = ''used'' then cn_state ?r = ''CLOSED'' \<and> cn_cooldown_until ?r = None
       else cn_state ?r = ''OPEN'' \<and> (\<exists>t. cn_cooldown_until ?r = Some t \<and> now \<le> t \<and>
              t \<le> now + seconds (int (max_cooldown cfg status))))"
  proof -
    consider "status = ''used''" | "status = ''broken''" | "status = ''rate_limited''" using st by blast
    then show ?thesis
    proof cases
      case 1
      with eff(1) e show ?thesis
        by (intro exI [of _ "ct_ewma (snd (snd (snd eff)))"]) (auto simp: feedback_effect_def feedback_row_def)
    next
      case 2
      with eff(1) e b [of _ "max_cooldown cfg status"] show ?thesis
        by (intro exI [of _ "ct_ewma (snd (snd (snd eff)))"])
           (auto simp: feedback_effect_def feedback_row_def max_cooldown_def)
    next
      case 3
      with eff(1) e b [of _ "max_cooldown cfg status"] show ?thesis
        by (intro exI [of _ "ct_ewma (snd (snd (snd eff)))"])
           (auto simp: feedback_effect_def feedback_row_def max_cooldown_def)
    qed
  qed
  with Inr eff st ex show ?thesis by simp
qed

theorem feedback_effects_witness:
  "\<exists>d'. feedback 0 (\<lambda>c. c) ''u'' default_config ''client'' ''a'' ''broken'' sample_fleet = Inr d' \<and>
     (\<exists>r. client_row ''client'' ''a'' d' = Some r \<and> cn_state r = ''OPEN'')"
proof -
  have "draw_ok (\<lambda>c. c)" by (simp add: draw_ok_def)
  moreover have "ct_ewma (counters_of (client_row ''client'' ''a'' sample_fleet)) \<in> {0..1}"
    by (simp add: counters_of_def client_row_def sample_fleet_def empty_db_def find_row_def)
  ultimately show ?thesis
    using feedback_effects [where draw = "\<lambda>c. c" and client = "''client''" and nid = "''a''" and d = sample_fleet
      and now = 0 and uid = "''u''" and cfg = default_config and status = "''broken''"]
    by (auto simp: sample_fleet_def new_node_def split: sum.splits)
qed

text \<open>The circuit breaker is per client: after a failure report, until the cooldown ends, the
  node is not a candidate for that client, while every other client's candidates are what
  they were but for the usage they count.\<close>

theorem open_circuit_excludes:
  assumes "feedback now draw uid cfg client nid status d = Inr d'" and "status \<noteq> ''used''"
    and "client_row client nid d' = Some r" and "cn_cooldown_until r = Some t" and "now' < t"
  shows "(\<forall>c \<in> set (candidates_for_client now' ttl client d'). ca_id c \<noteq> nid) \<and>
    (\<forall>client'. client' \<noteq> client \<longrightarrow>
       map ca_id (candidates_for_client now' ttl client' d') = map ca_id (candidates_for_client now' ttl client' d))"
proof -
  obtain eff where eff: "feedback_effect draw (cfg_client_penalty cfg) status (counters_of (client_row client nid d)) = Inr eff"
    "\<forall>client' nid'. client_row client' nid' d' = (if client' = client \<and> nid' = nid
       then Some (feedback_row now eff (coalesce (client_row client nid d) (empty_client_row client nid)))
       else client_row client' nid' d)"
    "db_nodes d' = db_nodes d"
    using feedback_client_row [OF assms(1)] by blast
  have "cn_state r = ''OPEN''"
    using eff(1) assms(2,3) unfolding eff(2) [rule_format]
    by (auto simp: feedback_effect_def feedback_row_def split: if_splits)
  then have "circuit_open now' (client_row client nid d')"
    using assms(3-5) by (simp add: circuit_open_def)
  then have "\<forall>c \<in> set (candidates_for_client now' ttl client d'). ca_id c \<noteq> nid"
    by (auto simp: candidates_set)
  moreover have "map ca_id (candidates_for_client now' ttl client' d') = map ca_id (candidates_for_client now' ttl client' d)"
    if "client' \<noteq> client" for client'
    using that by (simp add: candidates_for_client_def filter_map comp_def eff(2,3))
  ultimately show ?thesis by blast
qed

theorem open_circuit_excludes_witness:
  "\<exists>d'. feedback 0 (\<lambda>c. c) ''u'' default_config ''client'' ''a'' ''broken'' sample_fleet = Inr d' \<and>
     (\<forall>c \<in> set (candidates_for_client 0 60 ''client'' d'). ca_id c \<noteq> ''a'')"
proof -
  have row: "client_row ''client'' ''a'' sample_fleet = None"
    by (simp add: client_row_def sample_fleet_def empty_db_def find_row_def)
  obtain d' where d': "feedback 0 (\<lambda>c. c) ''u'' default_config ''client'' ''a'' ''broken'' sample_fleet = Inr d'"
    by (auto simp: feedback_Inr row feedback_effect_def sample_fleet_def new_node_def)
  have "full_jitter_cooldown (\<lambda>c. c) 300 21600 (u32_of 1) = seconds 300"
    by (simp add: full_jitter_cooldown_def Let_def sat_mul64_def u32_of_def)
  then have "\<exists>r. client_row ''client'' ''a'' d' = Some r \<and> cn_cooldown_until r = Some (seconds 300)"
    using feedback_client_row [OF d']
    by (auto simp: row feedback_effect_def feedback_row_def counters_of_def default_defs)
  then obtain r where "client_row ''client'' ''a'' d' = Some r" "cn_cooldown_until r = Some (seconds 300)"
    by blast
  moreover have "0 < seconds 300" "''broken'' \<noteq> ''used''" by (simp_all add: seconds_def)
  ultimately show ?thesis
    using open_circuit_excludes [OF d', of r "seconds 300" 0 60] d' by blast
qed

text \<open>The VIP candidate is the best one the store has: none exactly when no node can serve,
  otherwise an eligible node with the greatest health score, and its own score is in the
  unit interval when the health scores are.\<close>

theorem vip_candidate_best:
  assumes "\<forall>n \<in> set (db_nodes d). n_health_score n \<in> {0..1}"
  shows "case best_vip_candidate now d of
      None \<Rightarrow> \<forall>n \<in> set (db_nodes d). \<not> servable now n
    | Some v \<Rightarrow> \<exists>n \<in> set (db_nodes d). servable now n \<and> vc_id v = n_id n \<and> vc_raw_config v = n_raw_config n \<and>
        (\<forall>m \<in> set (db_nodes d). servable now m \<longrightarrow> n_health_score m \<le> n_health_score n) \<and>
        vc_score v \<in> {0..1}"
proof -
  let ?l = "sort_key vip_order (filter (servable now) (db_nodes d))"
  show ?thesis
  proof (cases ?l)
    case Nil
    then have "filter (servable now) (db_nodes d) = []" by (metis length_0_conv length_sort)
    then show ?thesis by (simp add: best_vip_candidate_def filter_empty_conv)
  next
    case (Cons n l)
    have set: "set ?l = {n \<in> set (db_nodes d). servable now n}" by simp
    then have n: "n \<in> set (db_nodes d)" "servable now n" using Cons by auto
    have "sorted (map vip_order ?l)" by simp
    then have "\<forall>m \<in> set ?l. vip_order n \<le> vip_order m" by (auto simp: Cons)
    then have "\<forall>m \<in> set (db_nodes d). servable now m \<longrightarrow> n_health_score m \<le> n_health_score n"
      unfolding set by (auto simp: vip_order_def less_eq_prod_def)
    moreover have "vip_score u n \<in> {0..1}" for u
    proof -
      have h: "0 \<le> n_health_score n" "n_health_score n \<le> 1" using assms n(1) by auto
      have c: "0 \<le> clamp 0 1 x" "clamp 0 1 x \<le> 1" for x :: real
        using clamp_bounds [of 0 1 x] by auto
      have u: "0 \<le> 1 / (1 + real u)" "1 / (1 + real u) \<le> 1" by auto
      show ?thesis
        unfolding vip_score_def atLeastAtMost_iff
        using h c [of "real_of_int (coalesce (n_download_kbps n) 0) / 1000"]
          c [of "1 - real_of_int (coalesce (n_relay_delay_ms n) 3000) / 3000"] u
        by argo
    qed
    ultimately show ?thesis
      using n by (auto simp: best_vip_candidate_def Cons)
  qed
qed

theorem vip_candidate_best_witness:
  "\<exists>v. best_vip_candidate 0 sample_fleet = Some v \<and> vc_score v \<in> {0..1}"
proof -
  have "\<exists>n \<in> set (db_nodes sample_fleet). servable 0 n"
    by (simp add: sample_fleet_def new_node_def servable_def time_defs)
  moreover have "\<forall>n \<in> set (db_nodes sample_fleet). n_health_score n \<in> {0..1}"
    by (simp add: sample_fleet_def new_node_def)
  ultimately show ?thesis
    using vip_candidate_best [of sample_fleet 0] by (auto split: option.splits)
qed

end
