(* ===== verification/Generations.thy ===== *)
theory Generations
  imports Tables Parser
begin

text \<open>
  Upstream generations in the store: ingesting parsed proxies under a refresh
  generation, the record of refresh runs and sources, the copy of a cached source's
  members into a new generation, and the reconciliation that counts missing generations
  and retires what stays absent.
\<close>

section \<open>Ingesting\<close>

text \<open>The sources of a row as a \<open>BTreeSet\<close> with one more element.\<close>

definition add_source :: "string \<Rightarrow> string list \<Rightarrow> string list" where
  "add_source s ss = sort (remdups (s # ss))"

definition refreshed_row :: "instant \<Rightarrow> int \<Rightarrow> ParsedProxy \<Rightarrow> node \<Rightarrow> node" where
  "refreshed_row now gen p n =
     (let retired = (n_lifecycle_state n = ''RETIRED'')
      in n\<lparr>n_raw_config := pp_raw_config p,
           n_normalized_config := pp_normalized_config p,
           n_source_subs := add_source (pp_source p) (n_source_subs n),
           n_last_seen_generation := Some gen,
           n_upstream_missing_generations := 0,
           n_lifecycle_state := (if retired then ''CANDIDATE'' else n_lifecycle_state n),
           n_status := (if retired then ''CANDIDATE'' else n_status n),
           n_retired_at := (if retired then None else n_retired_at n),
           n_tombstone_until := (if retired then None else n_tombstone_until n),
           n_next_test_at := (if retired then Some now else n_next_test_at n),
           n_updated_at := now\<rparr>)"

definition inserted_row :: "instant \<Rightarrow> int \<Rightarrow> string \<Rightarrow> ParsedProxy \<Rightarrow> node" where
  "inserted_row now gen uid p =
     (new_node uid (pp_config_hash p) now)
       \<lparr>n_raw_config := pp_raw_config p, n_normalized_config := pp_normalized_config p,
        n_source_subs := [pp_source p], n_next_test_at := Some now,
        n_last_seen_generation := Some gen\<rparr>"

definition add_member :: "instant \<Rightarrow> int \<Rightarrow> string \<Rightarrow> string \<Rightarrow> db \<Rightarrow> db" where
  "add_member now gen source h d =
     d\<lparr>db_members := insert_or_ignore
          (\<lambda>m. gm_generation m = gen \<and> gm_source_name m = source \<and> gm_config_hash m = h)
          \<lparr>gm_generation = gen, gm_source_name = source, gm_config_hash = h, gm_seen_at = now\<rparr>
          (db_members d)\<rparr>"

text \<open>One proxy of the list: the result says whether a row was inserted; \<open>uid\<close> is the
  identifier drawn for it.\<close>

definition ingest_step :: "instant \<Rightarrow> int \<Rightarrow> string \<Rightarrow> ParsedProxy \<Rightarrow> db \<Rightarrow> bool \<times> db" where
  "ingest_step now gen uid p d =
     (case find_row (\<lambda>n. n_config_hash n = pp_config_hash p) (db_nodes d) of
        Some row \<Rightarrow>
          (False, add_member now gen (pp_source p) (pp_config_hash p)
             (on_nodes (update_where (\<lambda>n. n_id n = n_id row) (refreshed_row now gen p)) d))
      | None \<Rightarrow>
          (True, add_member now gen (pp_source p) (pp_config_hash p)
             (on_nodes (\<lambda>ns. ns @ [inserted_row now gen uid p]) d)))"

text \<open>\<open>fresh k\<close> is the identifier drawn for the \<open>k\<close>-th inserted row.\<close>

fun ingest_loop ::
  "instant \<Rightarrow> int \<Rightarrow> (nat \<Rightarrow> string) \<Rightarrow> ParsedProxy list \<Rightarrow> nat \<Rightarrow> db \<Rightarrow> nat \<times> db" where
  "ingest_loop now gen fresh [] k d = (k, d)"
| "ingest_loop now gen fresh (p # ps) k d =
     (case ingest_step now gen (fresh k) p d of
        (inserted, d') \<Rightarrow> ingest_loop now gen fresh ps (if inserted then k + 1 else k) d')"

definition ingest_many ::
  "instant \<Rightarrow> int \<Rightarrow> (nat \<Rightarrow> string) \<Rightarrow> ParsedProxy list \<Rightarrow> db \<Rightarrow> nat \<times> db" where
  "ingest_many now gen fresh ps d = ingest_loop now gen fresh ps 0 d"

definition ingest_proxy ::
  "instant \<Rightarrow> int \<Rightarrow> (nat \<Rightarrow> string) \<Rightarrow> ParsedProxy \<Rightarrow> db \<Rightarrow> bool \<times> db" where
  "ingest_proxy now gen fresh p d =
     (case ingest_many now gen fresh [p] d of (k, d') \<Rightarrow> (0 < k, d'))"

section \<open>Refresh runs\<close>

definition begin_refresh :: "instant \<Rightarrow> string \<Rightarrow> nat \<Rightarrow> db \<Rightarrow> int \<times> db" where
  "begin_refresh now uid source_count d =
     (let gen = coalesce (max_opt (map rr_generation (db_runs d))) 0 + 1
      in (gen, d\<lparr>db_runs := db_runs d @
           [\<lparr>rr_id = uid, rr_generation = gen, rr_started_at = now, rr_finished_at = None,
             rr_status = ''RUNNING'', rr_source_count = int source_count,
             rr_successful_source_count = 0, rr_parsed_count = 0\<rparr>]\<rparr>))"

definition close_run :: "instant \<Rightarrow> string \<Rightarrow> string \<Rightarrow> nat \<Rightarrow> nat \<Rightarrow> db \<Rightarrow> db" where
  "close_run now rid status ok parsed d =
     d\<lparr>db_runs := update_where (\<lambda>r. rr_id r = rid)
          (\<lambda>r. r\<lparr>rr_finished_at := Some now, rr_status := status,
                  rr_successful_source_count := int ok, rr_parsed_count := int parsed\<rparr>)
          (db_runs d)\<rparr>"

definition unseen :: "int \<Rightarrow> node \<Rightarrow> bool" where
  "unseen gen n = (coalesce (n_last_seen_generation n) (- 1) \<noteq> gen \<and> \<not> manual_source n)"

definition missed_row :: "node \<Rightarrow> node" where
  "missed_row n = n\<lparr>n_upstream_missing_generations := n_upstream_missing_generations n + 1\<rparr>"

definition retirable :: "instant \<Rightarrow> nat \<Rightarrow> node \<Rightarrow> bool" where
  "retirable now minimum n =
     (n_lifecycle_state n \<notin> {''INVALID'', ''RETIRED''} \<and>
      int minimum \<le> n_upstream_missing_generations n \<and>
      n_created_at n \<le> now - hours 12 \<and>
      null_or_le (n_publication_lease_until n) now)"

definition retired_row :: "instant \<Rightarrow> node \<Rightarrow> node" where
  "retired_row now n =
     n\<lparr>n_lifecycle_state := ''RETIRED'', n_status := ''RETIRED'', n_retired_at := Some now,
       n_tombstone_until := Some (now + days 30)\<rparr>"

definition reconcile :: "instant \<Rightarrow> int \<Rightarrow> nat \<Rightarrow> db \<Rightarrow> db" where
  "reconcile now gen minimum d =
     on_nodes (update_where (retirable now minimum) (retired_row now))
       (on_nodes (update_where (unseen gen) missed_row) d)"

definition finish_refresh ::
  "instant \<Rightarrow> string \<Rightarrow> int \<Rightarrow> nat \<Rightarrow> nat \<Rightarrow> nat \<Rightarrow> nat \<Rightarrow> db \<Rightarrow> bool \<times> db" where
  "finish_refresh now rid gen source_count successful parsed minimum d =
     (let complete = (0 < source_count \<and> successful = source_count);
          d1 = close_run now rid (if complete then ''COMPLETE'' else ''PARTIAL'') successful parsed d
      in if \<not> complete then (False, d1) else (True, reconcile now gen minimum d1))"

section \<open>Sources\<close>

definition source_http_cache :: "string \<Rightarrow> db \<Rightarrow> string option \<times> string option" where
  "source_http_cache name d =
     (case find_row (\<lambda>s. us_name s = name) (db_sources d) of
        None \<Rightarrow> (None, None)
      | Some s \<Rightarrow> (us_etag s, us_last_modified s))"

definition record_source_success ::
  "instant \<Rightarrow> string \<Rightarrow> string \<Rightarrow> string option \<Rightarrow> string option \<Rightarrow> db \<Rightarrow> db" where
  "record_source_success now name url etag modified d =
     d\<lparr>db_sources := upsert (\<lambda>s. us_name s = name)
          (\<lambda>s. s\<lparr>us_url := url, us_enabled := 1, us_last_success_at := Some now,
                  us_etag := coalesce2 etag (us_etag s),
                  us_last_modified := coalesce2 modified (us_last_modified s),
                  us_failure_streak := 0\<rparr>)
          \<lparr>us_name = name, us_url = url, us_enabled = 1, us_last_success_at = Some now,
           us_etag = etag, us_last_modified = modified, us_failure_streak = 0\<rparr>
          (db_sources d)\<rparr>"

definition record_source_failure :: "string \<Rightarrow> string \<Rightarrow> db \<Rightarrow> db" where
  "record_source_failure name url d =
     d\<lparr>db_sources := upsert (\<lambda>s. us_name s = name)
          (\<lambda>s. s\<lparr>us_url := url, us_failure_streak := us_failure_streak s + 1\<rparr>)
          \<lparr>us_name = name, us_url = url, us_enabled = 1, us_last_success_at = None,
           us_etag = None, us_last_modified = None, us_failure_streak = 1\<rparr>
          (db_sources d)\<rparr>"

definition member_hashes :: "int \<Rightarrow> string \<Rightarrow> db \<Rightarrow> string list" where
  "member_hashes gen source d =
     map gm_config_hash
       (filter (\<lambda>m. gm_generation m = gen \<and> gm_source_name m = source) (db_members d))"

definition seen_row :: "instant \<Rightarrow> int \<Rightarrow> node \<Rightarrow> node" where
  "seen_row now gen n =
     n\<lparr>n_last_seen_generation := Some gen, n_upstream_missing_generations := 0,
       n_updated_at := now\<rparr>"

definition copy_cached_source_generation :: "instant \<Rightarrow> string \<Rightarrow> int \<Rightarrow> db \<Rightarrow> nat \<times> db" where
  "copy_cached_source_generation now source gen d =
     (case max_opt (map gm_generation
              (filter (\<lambda>m. gm_source_name m = source \<and> gm_generation m < gen) (db_members d))) of
        None \<Rightarrow> (0, d)
      | Some previous \<Rightarrow>
          (let d1 = fold (\<lambda>h. add_member now gen source h) (member_hashes previous source d) d;
               copied = length (db_members d1) - length (db_members d)
           in (copied,
               on_nodes (update_where (\<lambda>n. n_config_hash n \<in> set (member_hashes gen source d1))
                 (seen_row now gen)) d1)))"

section \<open>Lemmas\<close>

interpretation refreshed: node_update "\<lambda>n. n_id n = k" "refreshed_row now gen p" for k now gen p
  by unfold_locales (simp_all add: refreshed_row_def Let_def)

interpretation missed: node_update "unseen gen" missed_row for gen
  by unfold_locales (simp_all add: missed_row_def)

interpretation retired: node_update "retirable now minimum" "retired_row now" for now minimum
  by unfold_locales (simp_all add: retired_row_def)

interpretation seen: node_update "\<lambda>n. n_config_hash n \<in> hs" "seen_row now gen" for hs now gen
  by unfold_locales (simp_all add: seen_row_def)

lemma add_member_simps [simp]:
  "db_nodes (add_member now gen s h d) = db_nodes d"
  "node_of k (add_member now gen s h d) = node_of k d"
  "node_keys (add_member now gen s h d) = node_keys d"
  "unique_nodes (add_member now gen s h d) \<longleftrightarrow> unique_nodes d"
  by (simp_all add: add_member_def node_of_def node_keys_def unique_nodes_def)

lemma close_run_simps [simp]:
  "db_nodes (close_run now rid st ok n d) = db_nodes d"
  "node_of k (close_run now rid st ok n d) = node_of k d"
  "node_keys (close_run now rid st ok n d) = node_keys d"
  "db_members (close_run now rid st ok n d) = db_members d"
  by (simp_all add: close_run_def node_of_def node_keys_def)

lemma fold_add_member_simps [simp]:
  "db_nodes (fold (\<lambda>h. add_member now gen s h) hs d) = db_nodes d"
  "node_of k (fold (\<lambda>h. add_member now gen s h) hs d) = node_of k d"
  "node_keys (fold (\<lambda>h. add_member now gen s h) hs d) = node_keys d"
  by (induction hs arbitrary: d) simp_all

lemma finish_partial:
  "\<not> (0 < source_count \<and> successful = source_count) \<Longrightarrow>
     db_nodes (snd (finish_refresh now rid gen source_count successful parsed minimum d)) = db_nodes d"
  by (auto simp: finish_refresh_def Let_def)

text \<open>What a complete refresh makes of a row.\<close>

definition reconciled_row :: "instant \<Rightarrow> int \<Rightarrow> nat \<Rightarrow> node \<Rightarrow> node" where
  "reconciled_row now gen minimum n =
     (let m = (if unseen gen n then missed_row n else n)
      in if retirable now minimum m then retired_row now m else m)"

lemma node_of_reconcile:
  "node_of k (reconcile now gen minimum d) = map_option (reconciled_row now gen minimum) (node_of k d)"
  by (cases "node_of k d")
     (simp_all add: reconcile_def retired.node_of_upd missed.node_of_upd reconciled_row_def Let_def)

lemma node_of_finish:
  "node_of k (snd (finish_refresh now rid gen source_count successful parsed minimum d)) =
     (if 0 < source_count \<and> successful = source_count
      then map_option (reconciled_row now gen minimum) (node_of k d) else node_of k d)"
  by (simp add: finish_refresh_def Let_def node_of_reconcile)

lemma reconciled_simps [simp]:
  "n_id (reconciled_row now gen minimum n) = n_id n"
  "n_config_hash (reconciled_row now gen minimum n) = n_config_hash n"
  "n_source_subs (reconciled_row now gen minimum n) = n_source_subs n"
  "n_last_seen_generation (reconciled_row now gen minimum n) = n_last_seen_generation n"
  "n_upstream_missing_generations (reconciled_row now gen minimum n) =
     n_upstream_missing_generations n + (if unseen gen n then 1 else 0)"
  by (simp_all add: reconciled_row_def Let_def missed_row_def retired_row_def)

lemma reconciled_state:
  "n_lifecycle_state (reconciled_row now gen minimum n) =
     (if retirable now minimum (if unseen gen n then missed_row n else n) then ''RETIRED''
      else n_lifecycle_state n)"
  by (simp add: reconciled_row_def Let_def missed_row_def retired_row_def)

lemma manual_source_cong: "n_source_subs m = n_source_subs n \<Longrightarrow> manual_source m = manual_source n"
  by (simp add: manual_source_def)

section \<open>Properties of the reconciliation\<close>

text \<open>C25. What a refresh may do to a node: a partial refresh changes no node at all. A complete
  one changes at most the missing count by one and, when the node is not INVALID, was
  absent for the minimum number of generations, is at least twelve hours old and holds
  no publication lease, retires it with a tombstone of thirty days; a node that is
  leased or was seen in this generation with no misses keeps its state.\<close>

theorem refresh_retires_only:
  assumes "node_of k d = Some n"
    and "node_of k (snd (finish_refresh now rid gen source_count successful parsed minimum d)) = Some n'"
  shows "(\<not> (0 < source_count \<and> successful = source_count) \<longrightarrow> n' = n) \<and>
    n_upstream_missing_generations n' \<in>
      {n_upstream_missing_generations n, n_upstream_missing_generations n + 1} \<and>
    (n_lifecycle_state n' = n_lifecycle_state n \<or>
     n_lifecycle_state n' = ''RETIRED'' \<and> n_lifecycle_state n \<noteq> ''INVALID'' \<and>
     int minimum \<le> n_upstream_missing_generations n' \<and> n_created_at n \<le> now - hours 12 \<and>
     null_or_le (n_publication_lease_until n) now \<and> n_tombstone_until n' = Some (now + days 30)) \<and>
    n_publication_lease_until n' = n_publication_lease_until n \<and>
    (n_last_seen_generation n = Some gen \<longrightarrow>
       n_upstream_missing_generations n' = n_upstream_missing_generations n)"
  using assms
  by (auto simp: node_of_finish reconciled_row_def Let_def retirable_def missed_row_def
      retired_row_def unseen_def split: if_splits)

definition sample_store :: db where
  "sample_store = empty_db\<lparr>db_nodes :=
     [(new_node ''a'' ''h1'' 0)\<lparr>n_lifecycle_state := ''DORMANT'', n_source_subs := [''feed''],
        n_upstream_missing_generations := 2, n_last_seen_generation := Some 1\<rparr>,
      (new_node ''b'' ''h2'' 0)\<lparr>n_source_subs := [''manual'']\<rparr>],
     db_members := [\<lparr>gm_generation = 1, gm_source_name = ''feed'', gm_config_hash = ''h1'', gm_seen_at = 0\<rparr>]\<rparr>"

lemma sample_store_a: "node_of ''a'' sample_store = Some ((new_node ''a'' ''h1'' 0)
    \<lparr>n_lifecycle_state := ''DORMANT'', n_source_subs := [''feed''],
     n_upstream_missing_generations := 2, n_last_seen_generation := Some 1\<rparr>)"
  by (simp add: sample_store_def node_of_def find_row_def new_node_def)

theorem refresh_retires_only_witness:
  "\<exists>n'. node_of ''a'' (snd (finish_refresh (days 1) ''r'' 4 2 2 9 3 sample_store)) = Some n' \<and>
     n_lifecycle_state n' = ''RETIRED'' \<and> 3 \<le> n_upstream_missing_generations n'"
proof -
  let ?n = "reconciled_row (days 1) 4 3 (the (node_of ''a'' sample_store))"
  have a: "node_of ''a'' (snd (finish_refresh (days 1) ''r'' 4 2 2 9 3 sample_store)) = Some ?n"
    by (simp add: node_of_finish sample_store_a)
  have r: "n_lifecycle_state ?n = ''RETIRED''"
    by (simp add: sample_store_a reconciled_row_def Let_def retirable_def missed_row_def retired_row_def
        unseen_def manual_source_def new_node_def time_defs contains_def to_lower_def lower_char_def)
  show ?thesis
    using refresh_retires_only [OF sample_store_a a] a r by (auto simp: new_node_def)
qed

subsection \<open>A run of refreshes\<close>

text \<open>The outcome of one refresh, as the manager reports it to the store.\<close>

record refresh_outcome =
  ro_now :: instant
  ro_run :: string
  ro_generation :: int
  ro_sources :: nat
  ro_successful :: nat
  ro_parsed :: nat

definition complete_outcome :: "refresh_outcome \<Rightarrow> bool" where
  "complete_outcome x \<longleftrightarrow> 0 < ro_sources x \<and> ro_successful x = ro_sources x"

fun finish_all :: "nat \<Rightarrow> refresh_outcome list \<Rightarrow> db \<Rightarrow> db" where
  "finish_all minimum [] d = d"
| "finish_all minimum (x # xs) d =
     finish_all minimum xs
       (snd (finish_refresh (ro_now x) (ro_run x) (ro_generation x) (ro_sources x)
               (ro_successful x) (ro_parsed x) minimum d))"

lemma finish_all_exists: "node_of k d = Some n \<Longrightarrow> \<exists>n'. node_of k (finish_all minimum xs d) = Some n'"
proof (induction xs arbitrary: d n)
  case (Cons x xs)
  then have "node_of k (snd (finish_refresh (ro_now x) (ro_run x) (ro_generation x) (ro_sources x)
      (ro_successful x) (ro_parsed x) minimum d)) \<noteq> None"
    by (simp add: node_of_finish)
  with Cons.IH show ?case by auto
qed simp

lemma finish_all_misses:
  assumes "node_of k d = Some n" and "n_lifecycle_state n \<noteq> ''RETIRED''"
  shows "\<exists>n'. node_of k (finish_all minimum xs d) = Some n' \<and>
    (n_lifecycle_state n' = ''RETIRED'' \<longrightarrow>
       int minimum \<le> n_upstream_missing_generations n + int (length (filter complete_outcome xs)))"
  using assms
proof (induction xs arbitrary: d n)
  case (Cons x xs)
  let ?d = "snd (finish_refresh (ro_now x) (ro_run x) (ro_generation x) (ro_sources x)
               (ro_successful x) (ro_parsed x) minimum d)"
  let ?m = "if complete_outcome x then reconciled_row (ro_now x) (ro_generation x) minimum n else n"
  have m: "node_of k ?d = Some ?m"
    using Cons.prems by (simp add: node_of_finish complete_outcome_def)
  have le: "n_upstream_missing_generations ?m \<le> n_upstream_missing_generations n + (if complete_outcome x then 1 else 0)"
    by simp
  show ?case
  proof (cases "n_lifecycle_state ?m = ''RETIRED''")
    case False
    with Cons.IH [OF m] le show ?thesis by fastforce
  next
    case True
    with Cons.prems have c: "complete_outcome x"
      "retirable (ro_now x) minimum (if unseen (ro_generation x) n then missed_row n else n)"
      by (auto simp: reconciled_state split: if_splits)
    then have "int minimum \<le> n_upstream_missing_generations n + 1"
      by (auto simp: retirable_def missed_row_def split: if_splits)
    moreover have "\<exists>n'. node_of k (finish_all minimum xs ?d) = Some n'"
      using finish_all_exists [OF m] .
    ultimately show ?thesis using c(1) by auto
  qed
qed simp

text \<open>C30. Only complete refreshes count towards retirement: over any run of refreshes of which no
  ingest saw it, a node that had no misses is still not RETIRED unless at least the
  minimum number of them were complete; however many partial refreshes happen, they add
  nothing.\<close>

theorem retirement_needs_complete_misses:
  assumes "node_of k d = Some n" and "n_upstream_missing_generations n = 0"
    and "n_lifecycle_state n \<noteq> ''RETIRED''"
    and "node_of k (finish_all minimum xs d) = Some n'" and "n_lifecycle_state n' = ''RETIRED''"
  shows "minimum \<le> length (filter complete_outcome xs)"
  using finish_all_misses [OF assms(1,3), of minimum xs] assms by auto

definition sample_outcome :: "int \<Rightarrow> refresh_outcome" where
  "sample_outcome g = \<lparr>ro_now = days 1, ro_run = ''r'', ro_generation = g, ro_sources = 1,
     ro_successful = 1, ro_parsed = 5\<rparr>"

theorem retirement_needs_complete_misses_witness:
  "2 \<le> length (filter complete_outcome [sample_outcome 7, sample_outcome 8])"
proof -
  define n where "n = (new_node ''a'' ''h1'' 0)\<lparr>n_source_subs := [''feed'']\<rparr>"
  define d where "d = empty_db\<lparr>db_nodes := [n]\<rparr>"
  have d: "node_of ''a'' d = Some n"
    by (simp add: d_def n_def node_of_def find_row_def new_node_def)
  have u: "unseen g m" if "n_source_subs m = [''feed'']" "n_last_seen_generation m = None" "g = 7 \<or> g = 8" for m g
    using that by (auto simp: unseen_def manual_source_def contains_def to_lower_def lower_char_def)
  define n' where "n' = reconciled_row (days 1) 8 2 (reconciled_row (days 1) 7 2 n)"
  have 1: "node_of ''a'' (finish_all 2 [sample_outcome 7, sample_outcome 8] d) = Some n'"
    by (simp add: sample_outcome_def node_of_finish d n'_def)
  have 2: "n_lifecycle_state n' = ''RETIRED''"
    by (simp add: n'_def reconciled_row_def u n_def Let_def retirable_def missed_row_def retired_row_def
        new_node_def time_defs)
  have "n_upstream_missing_generations n = 0" "n_lifecycle_state n \<noteq> ''RETIRED''"
    by (simp_all add: n_def new_node_def)
  from retirement_needs_complete_misses [OF d this 1 2] show ?thesis .
qed

subsection \<open>Cached sources\<close>

lemma member_hashes_add:
  "set (member_hashes gen source (add_member now gen source h d)) = insert h (set (member_hashes gen source d))"
proof (cases "list_ex (\<lambda>m. gm_generation m = gen \<and> gm_source_name m = source \<and> gm_config_hash m = h)
    (db_members d)")
  case True
  then have "h \<in> set (member_hashes gen source d)"
    by (force simp: member_hashes_def list_ex_iff)
  with True show ?thesis
    by (auto simp: add_member_def insert_or_ignore_def member_hashes_def)
qed (simp add: member_hashes_def add_member_def insert_or_ignore_def)

lemma member_hashes_fold:
  "set (member_hashes gen source (fold (\<lambda>h. add_member now gen source h) hs d))
     = set hs \<union> set (member_hashes gen source d)"
  by (induction hs arbitrary: d) (auto simp: member_hashes_add)

lemma node_of_copy:
  assumes "max_opt (map gm_generation
      (filter (\<lambda>m. gm_source_name m = source \<and> gm_generation m < gen) (db_members d))) = Some previous"
    and "node_of k d = Some n" and "n_config_hash n \<in> set (member_hashes previous source d)"
  shows "node_of k (snd (copy_cached_source_generation now source gen d)) = Some (seen_row now gen n)"
  unfolding copy_cached_source_generation_def assms(1) option.case Let_def snd_conv seen.node_of_upd
  using assms(2,3) by (simp add: member_hashes_fold)

text \<open>A source that answers \<open>304 Not Modified\<close> counts as seen: after its members are copied
  into the current generation, the complete refresh of that generation finds no node of
  the source missing: it leaves the node's misses at zero and its state as it was.\<close>

theorem not_modified_counts_as_seen:
  assumes "max_opt (map gm_generation
      (filter (\<lambda>m. gm_source_name m = source \<and> gm_generation m < gen) (db_members d))) = Some previous"
    and "node_of k d = Some n" and "n_config_hash n \<in> set (member_hashes previous source d)"
    and "0 < minimum"
  shows "\<exists>n'. node_of k (snd (finish_refresh now' rid gen sources successful parsed minimum
            (snd (copy_cached_source_generation now source gen d)))) = Some n' \<and>
    n_upstream_missing_generations n' = 0 \<and> n_lifecycle_state n' = n_lifecycle_state n \<and>
    n_last_seen_generation n' = Some gen"
proof -
  have "node_of k (snd (copy_cached_source_generation now source gen d)) = Some (seen_row now gen n)"
    using node_of_copy [OF assms(1-3)] .
  then show ?thesis
    using assms(4) by (simp add: node_of_finish reconciled_row_def seen_row_def unseen_def retirable_def)
qed

theorem not_modified_counts_as_seen_witness:
  "\<exists>n'. node_of ''a'' (snd (finish_refresh (days 1) ''r'' 3 1 1 0 3
          (snd (copy_cached_source_generation 0 ''feed'' 3 sample_store)))) = Some n' \<and>
     n_lifecycle_state n' = ''DORMANT''"
proof -
  obtain n where n: "node_of ''a'' sample_store = Some n" "n_config_hash n = ''h1''"
      "n_lifecycle_state n = ''DORMANT''"
    using sample_store_a by (simp add: new_node_def)
  have "max_opt (map gm_generation (filter (\<lambda>m. gm_source_name m = ''feed'' \<and> gm_generation m < 3)
      (db_members sample_store))) = Some 1"
    by (simp add: sample_store_def max_opt_def)
  moreover have "n_config_hash n \<in> set (member_hashes 1 ''feed'' sample_store)"
    by (simp add: n(2) member_hashes_def sample_store_def)
  ultimately show ?thesis
    using not_modified_counts_as_seen [of "''feed''" 3 sample_store 1 "''a''" n 3 "days 1" "''r''" 1 1 0 0] n
    by auto
qed

section \<open>Properties of ingestion\<close>

definition hashes :: "db \<Rightarrow> string set" where
  "hashes d = n_config_hash ` set (db_nodes d)"

definition ids :: "db \<Rightarrow> string set" where
  "ids d = n_id ` set (db_nodes d)"

lemma hashes_keys: "hashes d = snd ` set (node_keys d)" "ids d = fst ` set (node_keys d)"
  by (simp_all add: hashes_def ids_def node_keys_def image_image)

lemma ingest_step_cases:
  obtains (seen) row where "find_row (\<lambda>n. n_config_hash n = pp_config_hash p) (db_nodes d) = Some row"
      "ingest_step now gen uid p d = (False, add_member now gen (pp_source p) (pp_config_hash p)
         (on_nodes (update_where (\<lambda>n. n_id n = n_id row) (refreshed_row now gen p)) d))"
      "node_keys (snd (ingest_step now gen uid p d)) = node_keys d" "pp_config_hash p \<in> hashes d"
  | (new) "pp_config_hash p \<notin> hashes d"
      "ingest_step now gen uid p d = (True, add_member now gen (pp_source p) (pp_config_hash p)
         (on_nodes (\<lambda>ns. ns @ [inserted_row now gen uid p]) d))"
      "node_keys (snd (ingest_step now gen uid p d)) = node_keys d @ [(uid, pp_config_hash p)]"
proof (cases "find_row (\<lambda>n. n_config_hash n = pp_config_hash p) (db_nodes d)")
  case (Some row)
  moreover have "pp_config_hash p \<in> hashes d"
    using find_row_Some [OF Some] by (metis hashes_def image_eqI)
  ultimately show thesis
    using seen by (simp add: ingest_step_def refreshed.keys)
next
  case None
  then have "pp_config_hash p \<notin> hashes d" by (auto simp: find_row_None hashes_def)
  moreover have "node_keys (on_nodes (\<lambda>ns. ns @ [inserted_row now gen uid p]) d)
      = node_keys d @ [(uid, pp_config_hash p)]"
    by (simp add: node_keys_def inserted_row_def new_node_def)
  ultimately show thesis using new None by (simp add: ingest_step_def)
qed

lemma ingest_loop_spec:
  assumes "unique_nodes d" and "inj fresh" and "\<forall>j \<ge> k. fresh j \<notin> ids d"
    and "ingest_loop now gen fresh ps k d = (k', d')"
  shows "unique_nodes d' \<and> hashes d' = hashes d \<union> pp_config_hash ` set ps \<and>
    k' = k + card (pp_config_hash ` set ps - hashes d)"
  using assms
proof (induction ps arbitrary: k d)
  case (Cons p ps)
  show ?case
  proof (cases rule: ingest_step_cases [of p d now gen "fresh k"])
    case (seen row)
    let ?d = "snd (ingest_step now gen (fresh k) p d)"
    have keys: "hashes ?d = hashes d" "ids ?d = ids d" "unique_nodes ?d \<longleftrightarrow> unique_nodes d"
      using seen(3) by (simp_all add: hashes_keys unique_nodes_keys)
    have "ingest_loop now gen fresh ps k ?d = (k', d')"
      using Cons.prems(4) seen(2) by simp
    from Cons.IH [OF _ assms(2) _ this] Cons.prems keys seen(4) show ?thesis
      by (simp add: insert_absorb insert_Diff_if)
  next
    case new
    let ?d = "snd (ingest_step now gen (fresh k) p d)"
    have keys: "hashes ?d = insert (pp_config_hash p) (hashes d)" "ids ?d = insert (fresh k) (ids d)"
      using new(3) by (simp_all add: hashes_keys)
    have u: "unique_nodes ?d"
      using Cons.prems(1,3) new(1) by (simp add: unique_nodes_keys new(3) hashes_keys)
    have "ingest_loop now gen fresh ps (k + 1) ?d = (k', d')"
      using Cons.prems(4) new(2) by simp
    moreover have "\<forall>j \<ge> k + 1. fresh j \<notin> ids ?d"
      using Cons.prems(2,3) by (auto simp: keys dest: injD)
    ultimately have IH: "unique_nodes d'" "hashes d' = hashes ?d \<union> pp_config_hash ` set ps"
        "k' = k + 1 + card (pp_config_hash ` set ps - hashes ?d)"
      using Cons.IH [OF u assms(2)] by blast+
    have "pp_config_hash ` set (p # ps) - hashes d
        = insert (pp_config_hash p) (pp_config_hash ` set ps - hashes ?d)"
      using new(1) by (auto simp: keys)
    then have "card (pp_config_hash ` set (p # ps) - hashes d)
        = Suc (card (pp_config_hash ` set ps - hashes ?d))"
      by (simp add: keys)
    with IH keys show ?thesis by auto
  qed
qed simp

text \<open>Ingestion is a set union on identities: it inserts one row for each hash the store does
  not have and none for the others, keeps identifiers and hashes unique, removes nothing,
  and ingesting the same list again inserts nothing.\<close>

theorem ingest_union:
  assumes "unique_nodes d" and "inj fresh" and "\<forall>j. fresh j \<notin> ids d"
  shows "unique_nodes (snd (ingest_many now gen fresh ps d)) \<and>
    hashes (snd (ingest_many now gen fresh ps d)) = hashes d \<union> pp_config_hash ` set ps \<and>
    fst (ingest_many now gen fresh ps d) = card (pp_config_hash ` set ps - hashes d) \<and>
    (\<forall>now' gen' fresh'. inj fresh' \<and> (\<forall>j. fresh' j \<notin> ids (snd (ingest_many now gen fresh ps d))) \<longrightarrow>
       fst (ingest_many now' gen' fresh' ps (snd (ingest_many now gen fresh ps d))) = 0)"
proof -
  have spec: "unique_nodes (snd (ingest_many now gen fresh ps d)) \<and>
      hashes (snd (ingest_many now gen fresh ps d)) = hashes d \<union> pp_config_hash ` set ps \<and>
      fst (ingest_many now gen fresh ps d) = card (pp_config_hash ` set ps - hashes d)"
    if "unique_nodes d" "inj fresh" "\<forall>j. fresh j \<notin> ids d" for d now gen fresh
    using ingest_loop_spec [of d fresh 0 now gen ps] that
    by (cases "ingest_loop now gen fresh ps 0 d") (auto simp: ingest_many_def)
  have "fst (ingest_many now' gen' fresh' ps (snd (ingest_many now gen fresh ps d))) = 0"
    if "inj fresh'" "\<forall>j. fresh' j \<notin> ids (snd (ingest_many now gen fresh ps d))" for now' gen' fresh'
    using spec [OF assms] spec [OF _ that, of now' gen'] by (simp add: Diff_Un)
  with spec [OF assms] show ?thesis by blast
qed

theorem ingest_union_witness:
  "fst (ingest_many 0 1 (\<lambda>k. replicate k (CHR ''x'') @ ''id'') [sample_proxy, sample_proxy] empty_db) = 1"
proof -
  have "inj (\<lambda>k. replicate k (CHR ''x'') @ ''id'')"
    by (rule injI) (metis length_append length_replicate add_right_cancel)
  moreover have "unique_nodes empty_db" "ids empty_db = {}" "hashes empty_db = {}"
    by (simp_all add: unique_nodes_def ids_def hashes_def empty_db_def)
  ultimately show ?thesis
    using ingest_union [of empty_db "\<lambda>k. replicate k (CHR ''x'') @ ''id''" 0 1 "[sample_proxy, sample_proxy]"]
    by simp
qed

end
