(* ===== verification/Ledger.thy ===== *)
theory Ledger
  imports Tables Health
begin

text \<open>
  Recording a test observation (\<open>Store::apply_test_event\<close>): the event is appended once
  per run and stage, the evidence of the last thirty days is summed with decay, the
  health manager decides, and the node's row is written, all in one transaction.
\<close>

section \<open>Inputs and results\<close>

record TestEventInput =
  ti_proxy_id :: string
  ti_run_id :: string
  ti_stage :: TestStage
  ti_class :: FailureClass
  ti_fast_download :: bool
  ti_latency_ms :: "real option"
  ti_download_bps :: "real option"
  ti_bytes_transferred :: "int option"
  ti_duration_ms :: "int option"
  ti_endpoint :: "string option"
  ti_system_pressure :: "real option"
  ti_incident_id :: "string option"
  ti_detail_json :: json

record TestEventApplied =
  ta_lifecycle_state :: string
  ta_health_score :: real
  ta_publication_lease_until :: "instant option"
  ta_next_test_at :: instant
  ta_inconclusive :: bool

text \<open>The three intervals of the configuration a decision needs.\<close>

record intervals =
  iv_active_relay :: duration
  iv_active_download :: duration
  iv_active_min_residence :: duration

definition max_effective_alpha :: real where "max_effective_alpha = 24"
definition max_effective_beta :: real where "max_effective_beta = 64"
definition max_evidence_events_per_node :: nat where "max_evidence_events_per_node = 512"

section \<open>The transaction\<close>

text \<open>
  The state the observation starts from: a node under test counts as being in the state
  it was claimed from, and a name that is not a state counts as a candidate.
\<close>

definition prior_lifecycle :: "node \<Rightarrow> LifecycleState" where
  "prior_lifecycle n =
     (let v = (if n_lifecycle_state n \<noteq> ''TESTING'' then n_lifecycle_state n
               else coalesce (n_testing_from_state n) (n_status n))
      in case state_of_str v of Inr s \<Rightarrow> s | Inl _ \<Rightarrow> Candidate)"

definition already_applied :: "TestEventInput \<Rightarrow> db \<Rightarrow> bool" where
  "already_applied e d =
     list_ex (\<lambda>t. te_proxy_id t = ti_proxy_id e \<and> te_run_id t = ti_run_id e \<and>
                  te_stage t = stage_str (ti_stage e)) (db_events d)"

definition event_result :: "FailureClass \<Rightarrow> string" where
  "event_result c =
     (if inconclusive c then ''INCONCLUSIVE''
      else if c = Success then ''SUCCESS''
      else ''FAILURE'')"

definition event_detail :: "TestEventInput \<Rightarrow> json" where
  "event_detail e =
     json_insert ''fast_download'' (JBool (ti_fast_download e))
       (json_insert ''half_life_seconds''
         (JInt (num_seconds (ed_half_life (event_contribution (ti_stage e) (ti_class e) (ti_fast_download e)))))
         (ti_detail_json e))"

definition event_row :: "instant \<Rightarrow> int \<Rightarrow> TestEventInput \<Rightarrow> test_event" where
  "event_row now key e =
     (let c = event_contribution (ti_stage e) (ti_class e) (ti_fast_download e)
      in \<lparr>te_id = key, te_proxy_id = ti_proxy_id e, te_run_id = ti_run_id e, te_occurred_at = now,
          te_stage = stage_str (ti_stage e), te_result = event_result (ti_class e),
          te_failure_class = class_str (ti_class e), te_evidence_alpha = ed_alpha c,
          te_evidence_beta = ed_beta c,
          te_half_life_seconds = real_of_int (num_seconds (ed_half_life c)),
          te_latency_ms = ti_latency_ms e, te_download_bps = ti_download_bps e,
          te_bytes_transferred = ti_bytes_transferred e, te_duration_ms = ti_duration_ms e,
          te_endpoint = ti_endpoint e, te_system_pressure = ti_system_pressure e,
          te_incident_id = ti_incident_id e, te_detail_json = Json (event_detail e)\<rparr>)"

text \<open>The newest events of the last thirty days, at most 512 of them.\<close>

definition evidence_events :: "instant \<Rightarrow> string \<Rightarrow> test_event list \<Rightarrow> test_event list" where
  "evidence_events now pid ts =
     take max_evidence_events_per_node
       (sort_key (\<lambda>t. (- te_occurred_at t, - te_id t))
         (filter (\<lambda>t. te_proxy_id t = pid \<and> now - days 30 \<le> te_occurred_at t) ts))"

definition event_half_life :: "test_event \<Rightarrow> duration" where
  "event_half_life t = seconds \<lfloor>max (te_half_life_seconds t) 1\<rfloor>"

definition evidence_sums :: "instant \<Rightarrow> string \<Rightarrow> test_event list \<Rightarrow> real \<times> real" where
  "evidence_sums now pid ts =
     (case fold (\<lambda>t (alpha, beta).
             (alpha + decay (te_evidence_alpha t) (now - te_occurred_at t) (event_half_life t),
              beta + decay (te_evidence_beta t) (now - te_occurred_at t) (event_half_life t)))
           (evidence_events now pid ts) (1, 1)
      of (alpha, beta) \<Rightarrow> (min alpha max_effective_alpha, min beta max_effective_beta))"

definition as_u32 :: "int \<Rightarrow> nat" where
  "as_u32 i = nat (max i 0) mod (u32_max + 1)"

definition health_input :: "instant \<Rightarrow> intervals \<Rightarrow> TestEventInput \<Rightarrow> node \<Rightarrow> real \<times> real \<Rightarrow> HealthInput" where
  "health_input now iv e n ev =
     \<lparr>hi_prior_lifecycle = prior_lifecycle n,
      hi_prior_lease_until = n_publication_lease_until n,
      hi_activated_at = n_activated_at n,
      hi_alpha = fst ev, hi_beta = snd ev,
      hi_failure_streak = as_u32 (n_failure_streak n),
      hi_independent_failures = as_u32 (n_independent_failure_count n),
      hi_new_independent_failure =
        (\<not> inconclusive (ti_class e) \<and> ti_class e \<noteq> Success \<and>
         n_last_failure_run_id n \<noteq> Some (ti_run_id e)),
      hi_had_real_download = (n_last_real_download_at n \<noteq> None),
      hi_stage = ti_stage e, hi_class = ti_class e, hi_fast_download = ti_fast_download e,
      hi_now = now, hi_active_relay_interval = iv_active_relay iv,
      hi_active_download_interval = iv_active_download iv,
      hi_active_min_residence = iv_active_min_residence iv\<rparr>"

text \<open>\<open>f64::round\<close>: to the nearest integer, halves away from zero.\<close>

definition decided_row ::
  "instant \<Rightarrow> TestEventInput \<Rightarrow> HealthDecision \<Rightarrow> real \<times> real \<Rightarrow> node \<Rightarrow> node" where
  "decided_row now e dec ev n =
     (let lifecycle = prior_lifecycle n;
          c = ti_class e;
          success = (c = Success);
          failed = (\<not> inconclusive c \<and> \<not> success)
      in n\<lparr>n_status := state_str (hd_lifecycle dec),
           n_lifecycle_state := state_str (hd_lifecycle dec),
           n_testing_from_state := None,
           n_test_lease_until := None,
           n_state_entered_at :=
             (if hd_lifecycle dec \<noteq> lifecycle then Some now else n_state_entered_at n),
           n_structurally_valid := (if c = InvalidConfig then 0 else n_structurally_valid n),
           n_health_alpha := fst ev,
           n_health_beta := snd ev,
           n_health_score := hd_score dec,
           n_evidence_updated_at := Some now,
           n_publication_lease_until := hd_lease_until dec,
           n_publication_lease_kind :=
             (if hd_lease_until dec \<noteq> None then Some (stage_str (ti_stage e))
              else n_publication_lease_kind n),
           n_activated_at :=
             (if hd_lifecycle dec = Active \<and> lifecycle \<noteq> Active then Some now else n_activated_at n),
           n_last_success_at := (if success then Some now else n_last_success_at n),
           n_last_real_download_at :=
             (if success \<and> ti_stage e = Download then Some now else n_last_real_download_at n),
           n_last_failure_at := (if failed then Some now else n_last_failure_at n),
           n_last_failure_class :=
             (if failed then Some (class_str c) else n_last_failure_class n),
           n_last_failure_run_id :=
             (if failed then Some (ti_run_id e) else n_last_failure_run_id n),
           n_success_streak :=
             (if success then n_success_streak n + 1
              else if inconclusive c then n_success_streak n
              else 0),
           n_failure_streak := int (hd_failure_streak dec),
           n_independent_failure_count := int (hd_independent_failures dec),
           n_next_test_at := Some (hd_next_test_at dec),
           n_last_test_at := Some now,
           n_last_test_endpoint := coalesce2 (ti_endpoint e) (n_last_test_endpoint n),
           n_relay_delay_ms := coalesce2 (map_option rust_round (ti_latency_ms e)) (n_relay_delay_ms n),
           n_download_kbps :=
             coalesce2 (map_option (\<lambda>v. rust_round (v / 1024)) (ti_download_bps e)) (n_download_kbps n),
           n_updated_at := now\<rparr>)"

definition append_event :: "instant \<Rightarrow> TestEventInput \<Rightarrow> db \<Rightarrow> db" where
  "append_event now e d =
     d\<lparr>db_events := db_events d @ [event_row now (db_event_seq d + 1) e],
       db_event_seq := db_event_seq d + 1\<rparr>"

definition apply_test_event ::
  "instant \<Rightarrow> (nat \<Rightarrow> nat) \<Rightarrow> intervals \<Rightarrow> TestEventInput \<Rightarrow> db \<Rightarrow> string + TestEventApplied \<times> db" where
  "apply_test_event now draw iv e d =
     (case node_of (ti_proxy_id e) d of
        None \<Rightarrow> Inl ''proxy not found''
      | Some n \<Rightarrow>
          if already_applied e d then
            Inr (\<lparr>ta_lifecycle_state = state_str (prior_lifecycle n),
                  ta_health_score = n_health_score n,
                  ta_publication_lease_until = n_publication_lease_until n,
                  ta_next_test_at = coalesce (n_next_test_at n) now,
                  ta_inconclusive = inconclusive (ti_class e)\<rparr>, d)
          else
            (let d1 = append_event now e d;
                 ev = evidence_sums now (ti_proxy_id e) (db_events d1);
                 dec = decide draw (health_input now iv e n ev)
             in Inr (\<lparr>ta_lifecycle_state = state_str (hd_lifecycle dec),
                      ta_health_score = hd_score dec,
                      ta_publication_lease_until = hd_lease_until dec,
                      ta_next_test_at = hd_next_test_at dec,
                      ta_inconclusive = inconclusive (ti_class e)\<rparr>,
                     on_nodes (update_where (\<lambda>m. n_id m = ti_proxy_id e)
                       (decided_row now e dec ev)) d1)))"

section \<open>Lemmas\<close>

interpretation decided: node_update "\<lambda>m. n_id m = pid" "decided_row now e dec ev" for pid now e dec ev
  by unfold_locales (simp_all add: decided_row_def Let_def)

lemma append_event_simps [simp]:
  "db_nodes (append_event now e d) = db_nodes d"
  "db_events (append_event now e d) = db_events d @ [event_row now (db_event_seq d + 1) e]"
  "node_of k (append_event now e d) = node_of k d"
  "node_keys (append_event now e d) = node_keys d"
  by (simp_all add: append_event_def node_of_def node_keys_def)

lemma event_row_simps [simp]:
  "te_proxy_id (event_row now k e) = ti_proxy_id e"
  "te_run_id (event_row now k e) = ti_run_id e"
  "te_stage (event_row now k e) = stage_str (ti_stage e)"
  "te_occurred_at (event_row now k e) = now"
  by (simp_all add: event_row_def Let_def)

text \<open>The three ways the transaction ends.\<close>

lemma apply_cases:
  assumes "apply_test_event now draw iv e d = Inr (r, d')"
  obtains (replay) n where "node_of (ti_proxy_id e) d = Some n" "already_applied e d" "d' = d"
      "ta_lifecycle_state r = state_str (prior_lifecycle n)"
  | (fresh) n ev dec where "node_of (ti_proxy_id e) d = Some n" "\<not> already_applied e d"
      "ev = evidence_sums now (ti_proxy_id e) (db_events (append_event now e d))"
      "dec = decide draw (health_input now iv e n ev)"
      "d' = on_nodes (update_where (\<lambda>m. n_id m = ti_proxy_id e) (decided_row now e dec ev))
              (append_event now e d)"
      "r = \<lparr>ta_lifecycle_state = state_str (hd_lifecycle dec), ta_health_score = hd_score dec,
            ta_publication_lease_until = hd_lease_until dec, ta_next_test_at = hd_next_test_at dec,
            ta_inconclusive = inconclusive (ti_class e)\<rparr>"
  using assms
  by (auto simp: apply_test_event_def Let_def split: option.splits if_splits)

lemma node_of_id: "node_of k d = Some n \<Longrightarrow> n_id n = k"
  unfolding node_of_def by (auto dest: find_row_Some)

lemma apply_error: "apply_test_event now draw iv e d = Inl m \<longleftrightarrow>
    node_of (ti_proxy_id e) d = None \<and> m = ''proxy not found''"
  by (auto simp: apply_test_event_def Let_def split: option.splits)

lemma fold_evidence_grows:
  fixes f g :: "'t \<Rightarrow> real"
  assumes "\<And>t. 0 \<le> f t" "\<And>t. 0 \<le> g t"
  shows "a \<le> fst (fold (\<lambda>t (alpha, beta). (alpha + f t, beta + g t)) ts (a, b)) \<and>
    b \<le> snd (fold (\<lambda>t (alpha, beta). (alpha + f t, beta + g t)) ts (a, b))"
proof (induction ts arbitrary: a b)
  case (Cons t ts)
  from Cons [of "a + f t" "b + g t"] assms [of t] show ?case by auto
qed simp

lemma evidence_sums_bounds:
  "1 \<le> fst (evidence_sums now pid ts) \<and> fst (evidence_sums now pid ts) \<le> max_effective_alpha \<and>
   1 \<le> snd (evidence_sums now pid ts) \<and> snd (evidence_sums now pid ts) \<le> max_effective_beta"
  using fold_evidence_grows
    [where f = "\<lambda>t. decay (te_evidence_alpha t) (now - te_occurred_at t) (event_half_life t)"
       and g = "\<lambda>t. decay (te_evidence_beta t) (now - te_occurred_at t) (event_half_life t)"
       and a = 1 and b = 1 and ts = "evidence_events now pid ts"]
  by (auto simp: decay_nonneg evidence_sums_def max_effective_alpha_def max_effective_beta_def
      split: prod.splits)

lemma already_applied_append [simp]:
  "ti_proxy_id e' = ti_proxy_id e \<Longrightarrow> ti_run_id e' = ti_run_id e \<Longrightarrow> ti_stage e' = ti_stage e \<Longrightarrow>
     already_applied e' (on_nodes f (append_event now e d))"
  by (simp add: already_applied_def)

lemma prior_lifecycle_decided: "prior_lifecycle (decided_row now e dec ev n) =
    (if hd_lifecycle dec = Testing then
       (case state_of_str ''TESTING'' of Inr s \<Rightarrow> s | Inl _ \<Rightarrow> Candidate) else hd_lifecycle dec)"
  by (cases "hd_lifecycle dec")
     (simp_all add: prior_lifecycle_def decided_row_def Let_def state_of_str_def)

section \<open>Properties\<close>

text \<open>C11. Recording is idempotent: once an observation of a run and stage is recorded,
  delivering it again, whatever it now claims and whenever it comes, changes nothing in
  the database and is not an error.\<close>

theorem apply_idempotent:
  assumes "apply_test_event now draw iv e d = Inr (r, d')"
    and "ti_proxy_id e' = ti_proxy_id e" and "ti_run_id e' = ti_run_id e" and "ti_stage e' = ti_stage e"
  shows "\<exists>r'. apply_test_event now' draw' iv' e' d' = Inr (r', d')"
  using assms(1)
proof (cases rule: apply_cases)
  case (replay n)
  moreover have "already_applied e' d = already_applied e d"
    using assms by (simp add: already_applied_def)
  ultimately show ?thesis using assms by (simp add: apply_test_event_def)
next
  case (fresh n ev dec)
  then have "node_of (ti_proxy_id e) d' = Some (decided_row now e dec ev n)"
    using node_of_id by (auto simp: decided.node_of_upd)
  moreover have "already_applied e' d'"
    using assms by (simp add: fresh)
  ultimately show ?thesis using assms by (simp add: apply_test_event_def)
qed

definition sample_db :: db where
  "sample_db = empty_db\<lparr>db_nodes :=
     [(new_node ''a'' ''h1'' 0)\<lparr>n_lifecycle_state := ''ACTIVE'', n_status := ''ACTIVE'',
        n_activated_at := Some 0, n_raw_config := ''vless://a'', n_health_score := 3 / 4,
        n_publication_lease_until := Some (hours 2)\<rparr>,
      (new_node ''b'' ''h2'' 0)\<lparr>n_raw_config := ''vless://b'', n_source_subs := [''s1'']\<rparr>]\<rparr>"

definition sample_event :: "string \<Rightarrow> string \<Rightarrow> TestStage \<Rightarrow> FailureClass \<Rightarrow> TestEventInput" where
  "sample_event pid rid st c =
     \<lparr>ti_proxy_id = pid, ti_run_id = rid, ti_stage = st, ti_class = c, ti_fast_download = False,
      ti_latency_ms = None, ti_download_bps = None, ti_bytes_transferred = None,
      ti_duration_ms = None, ti_endpoint = None, ti_system_pressure = None,
      ti_incident_id = None, ti_detail_json = JObj []\<rparr>"

definition sample_intervals :: intervals where
  "sample_intervals = \<lparr>iv_active_relay = seconds 10, iv_active_download = minutes 5,
     iv_active_min_residence = minutes 30\<rparr>"

lemma sample_apply:
  "\<exists>r d'. apply_test_event now draw iv (sample_event ''a'' rid st c) sample_db = Inr (r, d')"
  by (simp add: apply_test_event_def sample_db_def sample_event_def node_of_def find_row_def
      new_node_def Let_def)

theorem apply_idempotent_witness:
  "\<exists>r d' r'. apply_test_event 0 (\<lambda>c. c) sample_intervals (sample_event ''a'' ''r'' Relay TcpTimeout) sample_db
      = Inr (r, d') \<and>
    apply_test_event 9 (\<lambda>c. 0) sample_intervals (sample_event ''a'' ''r'' Relay Success) d' = Inr (r', d')"
proof -
  obtain r d' where "apply_test_event 0 (\<lambda>c. c) sample_intervals
      (sample_event ''a'' ''r'' Relay TcpTimeout) sample_db = Inr (r, d')"
    using sample_apply by blast
  with apply_idempotent [OF this, of "sample_event ''a'' ''r'' Relay Success" 9 "\<lambda>c. 0" sample_intervals]
  show ?thesis by (auto simp: sample_event_def)
qed

text \<open>C13. The ledger is append-only and the transaction touches one row: every event recorded
  before stays as it was, at most one is added, and it carries the classification and the
  evidence of the observation; every other node, the identity of the rows and every other
  table stay as they were.\<close>

theorem apply_append_only:
  assumes "apply_test_event now draw iv e d = Inr (r, d')"
  shows "db_events d' = db_events d @
      (if already_applied e d then [] else [event_row now (db_event_seq d + 1) e]) \<and>
    (\<forall>k. k \<noteq> ti_proxy_id e \<longrightarrow> node_of k d' = node_of k d) \<and>
    node_keys d' = node_keys d \<and>
    d' = d\<lparr>db_nodes := db_nodes d', db_events := db_events d', db_event_seq := db_event_seq d'\<rparr>"
  using assms
proof (cases rule: apply_cases)
  case (fresh n ev dec)
  have "node_of k d' = node_of k d" if "k \<noteq> ti_proxy_id e" for k
    using that by (auto simp: fresh decided.node_of_upd intro!: option.map_ident_strong dest: node_of_id)
  then show ?thesis
    by (simp add: fresh decided.keys) (simp add: on_nodes_def append_event_def)
qed simp

theorem apply_append_only_witness:
  "\<exists>r d'. apply_test_event 0 (\<lambda>c. c) sample_intervals (sample_event ''a'' ''r'' Relay TcpTimeout) sample_db
      = Inr (r, d') \<and> length (db_events d') = 1 \<and> node_of ''b'' d' = node_of ''b'' sample_db"
proof -
  obtain r d' where *: "apply_test_event 0 (\<lambda>c. c) sample_intervals
      (sample_event ''a'' ''r'' Relay TcpTimeout) sample_db = Inr (r, d')"
    using sample_apply by blast
  show ?thesis using apply_append_only [OF *] *
    by (auto simp: sample_event_def sample_db_def empty_db_def already_applied_def)
qed

text \<open>C17. Effective evidence is bounded: whatever the history of a node, the observation just
  recorded leaves it with an alpha between 1 and 24, a beta between 1 and 64 and a score
  that is their quotient, so at most 0.96 and at least 1/65: no amount of past success
  makes a node impossible to demote and no outage makes one impossible to recover.\<close>

theorem evidence_bounded:
  assumes "apply_test_event now draw iv e d = Inr (r, d')" and "\<not> already_applied e d"
  shows "\<exists>n. node_of (ti_proxy_id e) d' = Some n \<and>
    n_health_alpha n \<in> {1..24} \<and> n_health_beta n \<in> {1..64} \<and>
    n_health_score n = n_health_alpha n / (n_health_alpha n + n_health_beta n) \<and>
    n_health_score n \<in> {1 / 65..24 / 25} \<and> ta_health_score r = n_health_score n"
  using assms(1)
proof (cases rule: apply_cases)
  case (fresh n ev dec)
  have b: "1 \<le> fst ev" "fst ev \<le> 24" "1 \<le> snd ev" "snd ev \<le> 64"
    using evidence_sums_bounds [of now "ti_proxy_id e" "db_events (append_event now e d)"]
    by (simp_all add: fresh max_effective_alpha_def max_effective_beta_def)
  then have s: "hd_score dec = fst ev / (fst ev + snd ev)"
    by (simp add: fresh(4) health_input_def health_pos)
  have "fst ev / (fst ev + snd ev) \<in> {1 / 65..24 / 25}"
    using b by (auto simp: field_simps)
  moreover have "node_of (ti_proxy_id e) d' = Some (decided_row now e dec ev n)"
    using fresh(1) node_of_id [OF fresh(1)] by (simp add: fresh(5) decided.node_of_upd)
  ultimately show ?thesis
    using b s by (simp add: decided_row_def Let_def fresh(6))
qed (use assms in simp)

theorem evidence_bounded_witness:
  "\<exists>r d' n. apply_test_event 0 (\<lambda>c. c) sample_intervals (sample_event ''a'' ''r'' Download Success) sample_db
      = Inr (r, d') \<and> node_of ''a'' d' = Some n \<and> n_health_score n \<le> 24 / 25"
proof -
  obtain r d' where *: "apply_test_event 0 (\<lambda>c. c) sample_intervals
      (sample_event ''a'' ''r'' Download Success) sample_db = Inr (r, d')"
    using sample_apply by blast
  show ?thesis using evidence_bounded [OF *] *
    by (auto simp: sample_event_def sample_db_def empty_db_def already_applied_def)
qed

subsection \<open>A node that relays but never downloads\<close>

text \<open>A worker's reports, recorded one after the other, up to the first error.\<close>

fun record_all ::
  "(nat \<Rightarrow> nat) \<Rightarrow> intervals \<Rightarrow> (instant \<times> TestEventInput) list \<Rightarrow> db \<Rightarrow> string + db" where
  "record_all draw iv [] d = Inr d"
| "record_all draw iv ((now, e) # es) d =
     (case apply_test_event now draw iv e d of
        Inl m \<Rightarrow> Inl m
      | Inr (r, d') \<Rightarrow> record_all draw iv es d')"

lemma record_all_append:
  "record_all draw iv (es @ fs) d =
     (case record_all draw iv es d of Inl m \<Rightarrow> Inl m | Inr d' \<Rightarrow> record_all draw iv fs d')"
  by (induction es arbitrary: d) (auto split: sum.splits prod.splits)

text \<open>One test run: the relay works, the download is tried and what it finds is not an
  invalid configuration.\<close>

fun relay_only_run :: "string \<Rightarrow> (instant \<times> TestEventInput) list \<Rightarrow> bool" where
  "relay_only_run pid [(t1, e1), (t2, e2)] \<longleftrightarrow>
     ti_proxy_id e1 = pid \<and> ti_proxy_id e2 = pid \<and> ti_run_id e1 = ti_run_id e2 \<and>
     ti_stage e1 = Relay \<and> ti_class e1 = Success \<and>
     ti_stage e2 = Download \<and> ti_class e2 \<noteq> InvalidConfig"
| "relay_only_run pid _ = False"

fun_cases relay_only_runE: "relay_only_run pid run"

definition run_id_of :: "(instant \<times> TestEventInput) list \<Rightarrow> string" where
  "run_id_of run = ti_run_id (snd (hd run))"

lemma apply_fresh:
  assumes "node_of (ti_proxy_id e) d = Some n" and "\<not> already_applied e d"
  obtains r d' n' where "apply_test_event now draw iv e d = Inr (r, d')"
    "node_of (ti_proxy_id e) d' = Some n'"
    "n_lifecycle_state n' = state_str (decide_lifecycle (health_input now iv e n
       (evidence_sums now (ti_proxy_id e) (db_events (append_event now e d)))))"
    "n_independent_failure_count n' = int (next_independent_failures (health_input now iv e n
       (evidence_sums now (ti_proxy_id e) (db_events (append_event now e d)))))"
    "db_events d' = db_events d @ [event_row now (db_event_seq d + 1) e]"
  using assms node_of_id [OF assms(1)]
  by (auto simp: apply_test_event_def Let_def decided.node_of_upd decided_row_def)

lemma relay_keeps_active:
  assumes "node_of (ti_proxy_id e) d = Some n" and "\<not> already_applied e d"
    and "prior_lifecycle n = Active" and "ti_stage e = Relay" and "ti_class e = Success"
  obtains r d' n' where "apply_test_event now draw iv e d = Inr (r, d')"
    "node_of (ti_proxy_id e) d' = Some n'" "n_lifecycle_state n' = ''ACTIVE''"
    "n_independent_failure_count n' = 0"
    "db_events d' = db_events d @ [event_row now (db_event_seq d + 1) e]"
proof (rule apply_fresh [OF assms(1,2), of now draw iv])
  fix r d' n'
  let ?i = "health_input now iv e n (evidence_sums now (ti_proxy_id e) (db_events (append_event now e d)))"
  assume r: "apply_test_event now draw iv e d = Inr (r, d')" "node_of (ti_proxy_id e) d' = Some n'"
    "n_lifecycle_state n' = state_str (decide_lifecycle ?i)"
    "n_independent_failure_count n' = int (next_independent_failures ?i)"
    "db_events d' = db_events d @ [event_row now (db_event_seq d + 1) e]"
  have "decide_lifecycle ?i = Active" "next_independent_failures ?i = 0"
    using assms by (simp_all add: health_input_def decide_lifecycle_def Let_def next_independent_failures_def)
  then show thesis using that r by simp
qed

lemma download_keeps_active:
  assumes "node_of (ti_proxy_id e) d = Some n" and "\<not> already_applied e d"
    and "n_lifecycle_state n = ''ACTIVE''" and "n_independent_failure_count n = 0"
    and "ti_class e \<noteq> InvalidConfig"
  obtains r d' n' where "apply_test_event now draw iv e d = Inr (r, d')"
    "node_of (ti_proxy_id e) d' = Some n'" "n_lifecycle_state n' = ''ACTIVE''"
    "db_events d' = db_events d @ [event_row now (db_event_seq d + 1) e]"
proof (rule apply_fresh [OF assms(1,2), of now draw iv])
  fix r d' n'
  let ?i = "health_input now iv e n (evidence_sums now (ti_proxy_id e) (db_events (append_event now e d)))"
  assume r: "apply_test_event now draw iv e d = Inr (r, d')" "node_of (ti_proxy_id e) d' = Some n'"
    "n_lifecycle_state n' = state_str (decide_lifecycle ?i)"
    "db_events d' = db_events d @ [event_row now (db_event_seq d + 1) e]"
  have "prior_lifecycle n = Active"
    using assms(3) by (simp add: prior_lifecycle_def state_of_str_def)
  then have "decide_lifecycle ?i = Active"
    using assms by (auto simp: health_input_def decide_lifecycle_def Let_def as_u32_def
        next_independent_failures_def sat_add32_def)
  then show thesis using that r by simp
qed

lemma relay_only_step:
  assumes "node_of pid d = Some n" and "prior_lifecycle n = Active" and "relay_only_run pid run"
    and "\<forall>t \<in> set (db_events d). te_proxy_id t = pid \<longrightarrow> te_run_id t \<noteq> run_id_of run"
  shows "\<exists>d' n'. record_all draw iv run d = Inr d' \<and> node_of pid d' = Some n' \<and>
    n_lifecycle_state n' = ''ACTIVE'' \<and>
    (\<forall>t \<in> set (db_events d'). t \<in> set (db_events d) \<or> te_run_id t = run_id_of run)"
proof -
  obtain t1 e1 t2 e2 where run: "run = [(t1, e1), (t2, e2)]"
    and e: "ti_proxy_id e1 = pid" "ti_proxy_id e2 = pid" "ti_run_id e1 = ti_run_id e2"
      "ti_stage e1 = Relay" "ti_class e1 = Success" "ti_stage e2 = Download" "ti_class e2 \<noteq> InvalidConfig"
    using assms(3) by (elim relay_only_runE) simp
  have rid: "run_id_of run = ti_run_id e1" by (simp add: run run_id_of_def)
  have "\<not> already_applied e1 d"
    using assms(4) e by (auto simp: already_applied_def list_ex_iff rid)
  then obtain r1 d1 n1 where 1: "apply_test_event t1 draw iv e1 d = Inr (r1, d1)"
      "node_of pid d1 = Some n1" "n_lifecycle_state n1 = ''ACTIVE''" "n_independent_failure_count n1 = 0"
      "db_events d1 = db_events d @ [event_row t1 (db_event_seq d + 1) e1]"
    using relay_keeps_active [of e1 d n t1 draw iv] assms e by metis
  have "\<not> already_applied e2 d1"
    using assms(4) e by (auto simp: already_applied_def list_ex_iff rid 1(5))
  then obtain r2 d2 n2 where "apply_test_event t2 draw iv e2 d1 = Inr (r2, d2)"
      "node_of pid d2 = Some n2" "n_lifecycle_state n2 = ''ACTIVE''"
      "db_events d2 = db_events d1 @ [event_row t2 (db_event_seq d1 + 1) e2]"
    using download_keeps_active [of e2 d1 n1 t2 draw iv] 1 e by metis
  with 1 e rid show ?thesis by (auto simp: run)
qed

text \<open>C19. A limit of the demotion rule: an ACTIVE node whose relay test passes in every run is
  never demoted, however many runs in a row its download test fails in and whatever the
  score has become, since each relay success sets the count of independent failures back
  to zero and the download failure after it is only the first again.\<close>

theorem relay_success_masks_download_failures:
  assumes "node_of pid d = Some n" and "prior_lifecycle n = Active"
    and "\<forall>run \<in> set runs. relay_only_run pid run"
    and "distinct (map run_id_of runs)"
    and "\<forall>t \<in> set (db_events d). te_proxy_id t = pid \<longrightarrow> te_run_id t \<notin> set (map run_id_of runs)"
  shows "\<exists>d' n'. record_all draw iv (concat runs) d = Inr d' \<and> node_of pid d' = Some n' \<and>
    prior_lifecycle n' = Active"
  using assms
proof (induction runs arbitrary: d n)
  case (Cons run runs)
  then obtain d1 n1 where 1: "record_all draw iv run d = Inr d1" "node_of pid d1 = Some n1"
      "n_lifecycle_state n1 = ''ACTIVE''"
      "\<forall>t \<in> set (db_events d1). t \<in> set (db_events d) \<or> te_run_id t = run_id_of run"
    using relay_only_step [of pid d n run draw iv] by auto
  have "prior_lifecycle n1 = Active"
    using 1(3) by (simp add: prior_lifecycle_def state_of_str_def)
  moreover have "\<forall>t \<in> set (db_events d1). te_proxy_id t = pid \<longrightarrow> te_run_id t \<notin> set (map run_id_of runs)"
    using 1(4) Cons.prems(4,5) by fastforce
  ultimately obtain d' n' where "record_all draw iv (concat runs) d1 = Inr d'"
      "node_of pid d' = Some n'" "prior_lifecycle n' = Active"
    using Cons.IH [of d1 n1] 1(2) Cons.prems(3,4) by auto
  then show ?case by (simp add: record_all_append 1(1))
qed simp

theorem relay_success_masks_download_failures_witness:
  "\<exists>d' n'. record_all (\<lambda>c. c) sample_intervals
     [(hours 1, sample_event ''a'' ''r1'' Relay Success), (hours 1, sample_event ''a'' ''r1'' Download DownloadTooSlow),
      (hours 2, sample_event ''a'' ''r2'' Relay Success), (hours 2, sample_event ''a'' ''r2'' Download DownloadTooSlow)]
     sample_db = Inr d' \<and> node_of ''a'' d' = Some n' \<and> prior_lifecycle n' = Active"
proof -
  obtain n where n: "node_of ''a'' sample_db = Some n" "prior_lifecycle n = Active"
    by (simp add: node_of_def find_row_def sample_db_def new_node_def prior_lifecycle_def state_of_str_def)
  have "db_events sample_db = []" by (simp add: sample_db_def empty_db_def)
  then show ?thesis
    using relay_success_masks_download_failures [OF n, of
      "[[(hours 1, sample_event ''a'' ''r1'' Relay Success), (hours 1, sample_event ''a'' ''r1'' Download DownloadTooSlow)],
        [(hours 2, sample_event ''a'' ''r2'' Relay Success), (hours 2, sample_event ''a'' ''r2'' Download DownloadTooSlow)]]"
      "\<lambda>c. c" sample_intervals]
    by (simp add: sample_event_def run_id_of_def)
qed

end
