(* ===== verification/Views.thy ===== *)
theory Views
  imports Clients Migration Parser "HOL-Library.Multiset"
begin

text \<open>
  What the store answers (\<open>src/src/storage/mod.rs\<close>): the fleet counters, the paged and
  filtered node list, the diagnostics snapshots, the test history, the client and log
  listings, and the publication snapshot.

  \<^item> None of these statements writes: each is a function of the database and the clock.
  \<^item> Instants in answers are the RFC 3339 text of the column; \<open>stamp\<close> prints one.
  \<^item> Where \<open>ORDER BY\<close> leaves ties, rows come in the order of the table.
\<close>

section \<open>Grouping and paging\<close>

definition group_by :: "('r \<Rightarrow> 'k::linorder) \<Rightarrow> 'r list \<Rightarrow> ('k \<times> 'r list) list" where
  "group_by key rs = map (\<lambda>k. (k, filter (\<lambda>r. key r = k) rs)) (sort (remdups (map key rs)))"

text \<open>The offset is computed in 64 bits and bound as a signed number; \<open>LIMIT .. OFFSET\<close> takes a
  negative one for zero.\<close>

definition page_offset :: "nat \<Rightarrow> nat \<Rightarrow> nat" where
  "page_offset page per_page = nat (sint (of_nat ((page - 1) * per_page) :: 64 word))"

definition page_of :: "nat \<Rightarrow> nat \<Rightarrow> 'r list \<Rightarrow> 'r list" where
  "page_of page per_page rs = take per_page (drop (page_offset page per_page) rs)"

text \<open>\<open>ORDER BY t DESC\<close>: the newest first, rows without a time last.\<close>

definition newest_first :: "instant option \<Rightarrow> nat \<times> int" where
  "newest_first t = (case t of None \<Rightarrow> (1, 0) | Some x \<Rightarrow> (0, - x))"

definition json_time :: "(instant \<Rightarrow> string) \<Rightarrow> instant option \<Rightarrow> json" where
  "json_time stamp t = json_opt (\<lambda>x. JStr (stamp x)) t"

abbreviation json_int_opt :: "int option \<Rightarrow> json" where
  "json_int_opt x \<equiv> json_opt JInt x"

abbreviation json_real_opt :: "real option \<Rightarrow> json" where
  "json_real_opt x \<equiv> json_opt JReal x"

abbreviation json_str_opt :: "string option \<Rightarrow> json" where
  "json_str_opt x \<equiv> json_opt JStr x"

section \<open>Fleet counters\<close>

record FleetCounts =
  fc_total :: int
  fc_candidate :: int
  fc_testing :: int
  fc_active :: int
  fc_probation :: int
  fc_dormant :: int
  fc_invalid :: int
  fc_retired :: int
  fc_waiting_for_port :: int
  fc_publishable :: int

definition default_counts :: FleetCounts where
  "default_counts = \<lparr>fc_total = 0, fc_candidate = 0, fc_testing = 0, fc_active = 0, fc_probation = 0,
     fc_dormant = 0, fc_invalid = 0, fc_retired = 0, fc_waiting_for_port = 0, fc_publishable = 0\<rparr>"

definition take_count :: "(string \<times> int) list \<Rightarrow> string \<Rightarrow> int" where
  "take_count values key = (case map_of values key of None \<Rightarrow> 0 | Some v \<Rightarrow> v)"

definition publishable :: "instant \<Rightarrow> node \<Rightarrow> bool" where
  "publishable now n =
     (n_structurally_valid n = 1 \<and> sql_gt (n_publication_lease_until n) now \<and>
      n_lifecycle_state n \<notin> {''INVALID'', ''RETIRED''})"

definition counts :: "instant \<Rightarrow> db \<Rightarrow> FleetCounts" where
  "counts now d =
     (let values = map (\<lambda>(k, rs). (k, int (length rs))) (group_by n_lifecycle_state (db_nodes d))
      in \<lparr>fc_total = sum_list (map snd values),
          fc_candidate = take_count values ''CANDIDATE'',
          fc_testing = take_count values ''TESTING'',
          fc_active = take_count values ''ACTIVE'',
          fc_probation = take_count values ''PROBATION'',
          fc_dormant = take_count values ''DORMANT'',
          fc_invalid = take_count values ''INVALID'',
          fc_retired = take_count values ''RETIRED'',
          fc_waiting_for_port = take_count values ''WAITING_FOR_PORT'',
          fc_publishable = int (count_rows (publishable now) (db_nodes d))\<rparr>)"

section \<open>Node summaries\<close>

record EvidenceSummary =
  sum_alpha :: real
  sum_beta :: real
  sum_score :: real
  sum_last_failure_class :: "string option"

record NodeSummary =
  ns_id :: string
  ns_config_hash :: string
  ns_raw_config :: string
  ns_protocol :: string
  ns_server :: string
  ns_remote_port :: "int option"
  ns_remark :: string
  ns_source_subs :: "string list"
  ns_status :: string
  ns_lifecycle_state :: string
  ns_main_port :: "int option"
  ns_relay_delay_ms :: "int option"
  ns_download_kbps :: "int option"
  ns_exit :: ExitMetadata
  ns_exit_info_fetched_at :: "instant option"
  ns_health_success_ewma :: real
  ns_health_alpha :: real
  ns_health_beta :: real
  ns_health_score :: real
  ns_next_test_at :: "instant option"
  ns_publication_lease_until :: "instant option"
  ns_publication_lease_kind :: "string option"
  ns_last_failure_class :: "string option"
  ns_last_seen_generation :: "int option"
  ns_upstream_missing_generations :: int
  ns_evidence_summary :: EvidenceSummary
  ns_created_at :: "instant option"
  ns_last_test_at :: "instant option"

text \<open>The exit columns of the row are one record here; the summary leaves its raw document out.\<close>

definition row_to_summary :: "libs \<Rightarrow> node \<Rightarrow> NodeSummary" where
  "row_to_summary L n =
     (let raw = n_raw_config n;
          parsed = (case l_url_parse L raw of Inl _ \<Rightarrow> None | Inr u \<Rightarrow> Some u)
      in \<lparr>ns_id = n_id n, ns_config_hash = n_config_hash n, ns_raw_config = raw,
          ns_protocol = (case split_once ''://'' raw of None \<Rightarrow> raw | Some (a, _) \<Rightarrow> a),
          ns_server = coalesce (Option.bind parsed u_host) [],
          ns_remote_port = map_option uint (Option.bind parsed u_port),
          ns_remark = coalesce (Option.bind parsed u_fragment) [],
          ns_source_subs = n_source_subs n, ns_status = n_status n,
          ns_lifecycle_state = n_lifecycle_state n, ns_main_port = n_main_port n,
          ns_relay_delay_ms = n_relay_delay_ms n, ns_download_kbps = n_download_kbps n,
          ns_exit = n_exit n, ns_exit_info_fetched_at = n_exit_info_fetched_at n,
          ns_health_success_ewma = coalesce (n_health_success_ewma n) (1 / 2),
          ns_health_alpha = n_health_alpha n, ns_health_beta = n_health_beta n,
          ns_health_score = n_health_score n, ns_next_test_at = n_next_test_at n,
          ns_publication_lease_until = n_publication_lease_until n,
          ns_publication_lease_kind = n_publication_lease_kind n,
          ns_last_failure_class = n_last_failure_class n,
          ns_last_seen_generation = n_last_seen_generation n,
          ns_upstream_missing_generations = n_upstream_missing_generations n,
          ns_evidence_summary =
            \<lparr>sum_alpha = n_health_alpha n, sum_beta = n_health_beta n, sum_score = n_health_score n,
             sum_last_failure_class = n_last_failure_class n\<rparr>,
          ns_created_at = Some (n_created_at n), ns_last_test_at = n_last_test_at n\<rparr>)"

record NodePage =
  np_total :: int
  np_page :: nat
  np_page_size :: nat
  np_nodes :: "NodeSummary list"

record NodeFilters =
  nf_status :: "string option"
  nf_country :: "string option"
  nf_search :: "string option"
  nf_source :: "string option"
  nf_protocol :: "string option"
  nf_failure_class :: "string option"

definition no_filters :: NodeFilters where
  "no_filters = \<lparr>nf_status = None, nf_country = None, nf_search = None, nf_source = None,
     nf_protocol = None, nf_failure_class = None\<rparr>"

text \<open>A filter that is absent or empty adds no clause.\<close>

definition clause :: "string option \<Rightarrow> (string \<Rightarrow> bool) \<Rightarrow> bool" where
  "clause v p = (case v of None \<Rightarrow> True | Some s \<Rightarrow> s = [] \<or> p s)"

definition around :: "string \<Rightarrow> string" where
  "around s = ''%'' @ s @ ''%''"

definition matches_filters :: "libs \<Rightarrow> NodeFilters \<Rightarrow> node \<Rightarrow> bool" where
  "matches_filters L f n =
     (clause (nf_status f) (\<lambda>s. n_lifecycle_state n = s) \<and>
      clause (nf_country f) (\<lambda>s. em_country (n_exit n) = s) \<and>
      clause (nf_search f) (\<lambda>s. list_ex (like (around s))
        [n_raw_config n, n_config_hash n, em_country (n_exit n), em_org (n_exit n), em_city (n_exit n)]) \<and>
      clause (nf_source f) (\<lambda>s. like (around s) (l_json_bytes L (JArr (map JStr (n_source_subs n))))) \<and>
      clause (nf_protocol f) (\<lambda>s. like (to_lower s @ '':%'') (to_lower (n_raw_config n))) \<and>
      clause (nf_failure_class f) (\<lambda>s. n_last_failure_class n = Some s))"

definition state_rank :: "string \<Rightarrow> nat" where
  "state_rank s =
     (if s = ''ACTIVE'' then 0 else if s = ''PROBATION'' then 1 else if s = ''CANDIDATE'' then 2 else 3)"

definition list_order :: "node \<Rightarrow> nat \<times> real \<times> nat \<times> int" where
  "list_order n =
     (state_rank (n_lifecycle_state n), - n_health_score n, newest_first (n_last_test_at n))"

definition matching_nodes :: "libs \<Rightarrow> NodeFilters \<Rightarrow> db \<Rightarrow> node list" where
  "matching_nodes L f d = sort_key list_order (filter (matches_filters L f) (db_nodes d))"

definition list_nodes :: "libs \<Rightarrow> nat \<Rightarrow> nat \<Rightarrow> NodeFilters \<Rightarrow> db \<Rightarrow> NodePage" where
  "list_nodes L page0 per_page0 f d =
     (let page = max page0 1; per_page = clamp 1 200 per_page0; rows = matching_nodes L f d
      in \<lparr>np_total = int (count_rows (matches_filters L f) (db_nodes d)), np_page = page,
          np_page_size = per_page, np_nodes = map (row_to_summary L) (page_of page per_page rows)\<rparr>)"

definition list_exit_countries :: "db \<Rightarrow> string list" where
  "list_exit_countries d =
     sort (remdups (filter (\<lambda>c. c \<noteq> []) (map (\<lambda>n. em_country (n_exit n)) (db_nodes d))))"

section \<open>Diagnostics\<close>

definition scheduler_snapshot :: "instant \<Rightarrow> db \<Rightarrow> json" where
  "scheduler_snapshot now d =
     json_obj [(''queues'', JArr (map (\<lambda>(state, rs).
       json_obj [(''state'', JStr state), (''depth'', JInt (int (length rs))),
                 (''overdue'', JInt (int (count_rows (\<lambda>n. null_or_le (n_next_test_at n) now) rs)))])
       (group_by n_lifecycle_state (db_nodes d))))]"

definition refresh_run_json :: "(instant \<Rightarrow> string) \<Rightarrow> refresh_run \<Rightarrow> json" where
  "refresh_run_json stamp r =
     json_obj [(''generation'', JInt (rr_generation r)), (''status'', JStr (rr_status r)),
               (''finished_at'', json_time stamp (rr_finished_at r)),
               (''parsed_count'', JInt (rr_parsed_count r)),
               (''successful_sources'', JInt (rr_successful_source_count r)),
               (''source_count'', JInt (rr_source_count r))]"

definition source_json :: "(instant \<Rightarrow> string) \<Rightarrow> upstream_source \<Rightarrow> json" where
  "source_json stamp s =
     json_obj [(''name'', JStr (us_name s)), (''url'', JStr (us_url s)),
               (''enabled'', JBool (us_enabled s \<noteq> 0)),
               (''last_success_at'', json_time stamp (us_last_success_at s)),
               (''failure_streak'', JInt (us_failure_streak s)), (''etag'', json_str_opt (us_etag s)),
               (''last_modified'', json_str_opt (us_last_modified s))]"

definition upstream_snapshot :: "(instant \<Rightarrow> string) \<Rightarrow> db \<Rightarrow> json" where
  "upstream_snapshot stamp d =
     json_obj [
       (''latest'', case sort_key (\<lambda>r. - rr_generation r) (db_runs d) of
          [] \<Rightarrow> JNull | r # _ \<Rightarrow> refresh_run_json stamp r),
       (''sources'', JArr (map (source_json stamp) (sort_key us_name (db_sources d)))),
       (''nodes_with_missing_generations'',
          JInt (int (count_rows (\<lambda>n. 0 < n_upstream_missing_generations n \<and> \<not> manual_source n)
                       (db_nodes d))))]"

definition json_at :: "string list \<Rightarrow> json \<Rightarrow> json option" where
  "json_at path j = fold (\<lambda>k x. Option.bind x (json_get k)) path (Some j)"

definition observability_snapshot :: "db \<Rightarrow> json" where
  "observability_snapshot d =
     (let published = Option.bind (Option.bind (service_state ''last_publisher'' d)
            (json_at [''result'', ''active_count''])) json_int
      in json_obj [
        (''counters'', json_obj [
          (''parsed'', JInt (sum_list (map rr_parsed_count
             (filter (\<lambda>r. rr_status r = ''COMPLETE'') (db_runs d))))),
          (''deduped'', JInt (int (length (db_nodes d)))),
          (''invalid'', JInt (int (count_rows (\<lambda>n. n_lifecycle_state n = ''INVALID'') (db_nodes d)))),
          (''tested'', JInt (int (length (db_events d)))),
          (''transitions'', JInt (int (count_rows
             (\<lambda>h. th_status_before h \<noteq> [] \<and> th_status_before h \<noteq> th_status_after h) (db_history d)))),
          (''published'', JInt (coalesce published 0))]),
        (''stage_results'', JArr (map (\<lambda>((stage, result), rs).
           json_obj [(''stage'', JStr stage), (''result'', JStr result),
                     (''count'', JInt (int (length rs)))])
           (group_by (\<lambda>e. (te_stage e, te_result e)) (db_events d))))])"

section \<open>Publication\<close>

record PublicationSnapshot =
  ps_generation :: int
  ps_raw_configs :: "string list"

text \<open>Both parts are read in one transaction, so they belong to the same database.\<close>

definition publication_snapshot :: "instant \<Rightarrow> db \<Rightarrow> PublicationSnapshot" where
  "publication_snapshot now d =
     \<lparr>ps_generation = coalesce (max_opt (map rr_generation
         (filter (\<lambda>r. rr_status r = ''COMPLETE'') (db_runs d)))) 0,
      ps_raw_configs = map n_raw_config
        (sort_key (\<lambda>n. (- n_health_score n, n_config_hash n)) (filter (publishable now) (db_nodes d)))\<rparr>"

definition list_publishable_raw_configs :: "instant \<Rightarrow> db \<Rightarrow> string list" where
  "list_publishable_raw_configs now d = ps_raw_configs (publication_snapshot now d)"

record RuntimeCandidate =
  rc_id :: string
  rc_raw_config :: string

definition restorable :: "instant \<Rightarrow> node \<Rightarrow> bool" where
  "restorable now n =
     (n_lifecycle_state n = ''ACTIVE'' \<and> n_structurally_valid n = 1 \<and>
      sql_gt (n_publication_lease_until n) now)"

definition active_runtime_candidates :: "instant \<Rightarrow> db \<Rightarrow> RuntimeCandidate list" where
  "active_runtime_candidates now d =
     map (\<lambda>n. \<lparr>rc_id = n_id n, rc_raw_config = n_raw_config n\<rparr>)
       (sort_key (\<lambda>n. (- n_health_score n, n_config_hash n)) (filter (restorable now) (db_nodes d)))"

definition raw_config :: "string \<Rightarrow> db \<Rightarrow> string option" where
  "raw_config pid d = map_option n_raw_config (node_of pid d)"

section \<open>History, clients and log\<close>

definition event_json :: "(instant \<Rightarrow> string) \<Rightarrow> test_event \<Rightarrow> json" where
  "event_json stamp e =
     json_obj [
       (''kind'', JStr ''event''), (''finished_at'', JStr (stamp (te_occurred_at e))),
       (''test_kind'', JStr (te_stage e)), (''result'', JStr (te_result e)),
       (''failure_class'', JStr (te_failure_class e)),
       (''evidence_delta'', json_obj [(''alpha'', JReal (te_evidence_alpha e)),
                                      (''beta'', JReal (te_evidence_beta e))]),
       (''latency_ms'', json_real_opt (te_latency_ms e)),
       (''download_bps'', json_real_opt (te_download_bps e)),
       (''bytes_transferred'', json_int_opt (te_bytes_transferred e)),
       (''duration_ms'', json_int_opt (te_duration_ms e)),
       (''endpoint'', json_str_opt (te_endpoint e)),
       (''system_pressure'', json_real_opt (te_system_pressure e)),
       (''details'', json_or (JObj []) (te_detail_json e))]"

definition legacy_json :: "(instant \<Rightarrow> string) \<Rightarrow> test_history \<Rightarrow> json" where
  "legacy_json stamp h =
     json_obj [
       (''kind'', JStr ''legacy''), (''finished_at'', JStr (stamp (th_finished_at h))),
       (''test_kind'', JStr (th_test_kind h)), (''trigger'', JStr (th_trigger h)),
       (''ok'', JBool (th_ok h \<noteq> 0)), (''latency_ms'', json_int_opt (th_latency_ms h)),
       (''download_kbps'', json_int_opt (th_download_kbps h)), (''error'', JStr (th_error h)),
       (''status_before'', JStr (th_status_before h)), (''status_after'', JStr (th_status_after h)),
       (''details'', json_or (JObj []) (th_details_json h))]"

definition json_finished :: "json \<Rightarrow> string" where
  "json_finished j = coalesce (Option.bind (json_get ''finished_at'' j) json_str) []"

text \<open>The newest test events, filled up with legacy rows; \<open>sort_by\<close> is stable and descending.\<close>

definition sort_desc :: "('r \<Rightarrow> 'k::linorder) \<Rightarrow> 'r list \<Rightarrow> 'r list" where
  "sort_desc key rs = rev (sort_key key (rev rs))"

definition history :: "(instant \<Rightarrow> string) \<Rightarrow> string \<Rightarrow> nat \<Rightarrow> db \<Rightarrow> string + json list" where
  "history stamp pid limit d =
     (if count_rows (\<lambda>n. n_id n = pid) (db_nodes d) = 0 then Inl ''node not found''
      else
        (let k = min limit 200;
             events = map (event_json stamp)
               (take k (sort_key (\<lambda>e. - te_occurred_at e) (filter (\<lambda>e. te_proxy_id e = pid) (db_events d))));
             old = map (legacy_json stamp)
               (take (k - length events)
                 (sort_key (\<lambda>h. - th_finished_at h) (filter (\<lambda>h. th_node_id h = pid) (db_history d))))
         in Inr (take k (if length events < limit then sort_desc json_finished (events @ old) else events))))"

definition list_clients :: "db \<Rightarrow> string list" where
  "list_clients d = sort (remdups (map cn_client_id (db_clients d)))"

definition client_node_json :: "(instant \<Rightarrow> string) \<Rightarrow> db \<Rightarrow> client_node_state \<Rightarrow> json" where
  "client_node_json stamp d c =
     (let n = node_of (cn_node_id c) d
      in json_obj [
       (''client'', JStr (cn_client_id c)), (''node_id'', JStr (cn_node_id c)),
       (''state'', JStr (cn_state c)), (''fail_streak'', JInt (coalesce (cn_fail_streak c) 0)),
       (''rate_limit_streak'', JInt (coalesce (cn_rate_limit_streak c) 0)),
       (''cooldown_until'', json_time stamp (cn_cooldown_until c)),
       (''usage_count'', JInt (coalesce (cn_usage_count c) 0)),
       (''success_count'', JInt (coalesce (cn_success_count c) 0)),
       (''broken_count'', JInt (coalesce (cn_broken_count c) 0)),
       (''rate_limited_count'', JInt (coalesce (cn_rate_limited_count c) 0)),
       (''success_rate_ewma'', JReal (coalesce (cn_success_rate_ewma c) (1 / 2))),
       (''last_assigned_at'', json_time stamp (cn_last_assigned_at c)),
       (''last_feedback_at'', json_time stamp (cn_last_feedback_at c)),
       (''lifecycle_state'', json_str_opt (map_option n_lifecycle_state n)),
       (''main_port'', json_int_opt (Option.bind n n_main_port)),
       (''relay_delay_ms'', json_int_opt (Option.bind n n_relay_delay_ms)),
       (''download_kbps'', json_int_opt (Option.bind n n_download_kbps)),
       (''health_score'', json_real_opt (map_option n_health_score n))])"

definition client_status :: "(instant \<Rightarrow> string) \<Rightarrow> string \<Rightarrow> nat \<Rightarrow> nat \<Rightarrow> db \<Rightarrow> json" where
  "client_status stamp client page0 per_page0 d =
     (let page = max page0 1; per_page = clamp 1 200 per_page0;
          rows = filter (\<lambda>c. cn_client_id c = client) (db_clients d)
      in json_obj [
        (''client'', JStr client),
        (''pagination'', json_obj [(''page'', JInt (int page)), (''page_size'', JInt (int per_page)),
                                   (''total'', JInt (int (length rows)))]),
        (''nodes'', JArr (map (client_node_json stamp d)
          (page_of page per_page (sort_key (\<lambda>c. newest_first (cn_last_feedback_at c)) rows))))])"

definition log_json :: "(instant \<Rightarrow> string) \<Rightarrow> system_event \<Rightarrow> json" where
  "log_json stamp e =
     json_obj [
       (''created_at'', JStr (stamp (se_created_at e))), (''level'', JStr (se_level e)),
       (''component'', JStr (se_component e)), (''event'', JStr (se_event e)),
       (''message'', JStr (se_message e)), (''details'', json_or (JObj []) (se_details_json e))]"

definition logs ::
  "(instant \<Rightarrow> string) \<Rightarrow> nat \<Rightarrow> string option \<Rightarrow> string option \<Rightarrow> db \<Rightarrow> json list" where
  "logs stamp limit component level d =
     map (log_json stamp)
       (take (clamp 1 1000 limit)
         (sort_key (\<lambda>e. - se_created_at e)
           (filter (\<lambda>e. clause component (\<lambda>s. se_component e = s) \<and> clause level (\<lambda>s. se_level e = s))
             (db_system_events d))))"

section \<open>Lemmas\<close>

lemma take_count_group:
  "take_count (map (\<lambda>(k, rs). (k, int (length rs))) (group_by key rs)) k = int (count_list (map key rs) k)"
proof -
  have "map (\<lambda>(k, rs). (k, int (length rs))) (group_by key rs) =
      map (\<lambda>k. (k, int (count_list (map key rs) k))) (sort (remdups (map key rs)))"
    by (simp add: group_by_def count_list_eq_length_filter filter_map comp_def eq_commute)
  moreover have "count_list (map key rs) k = 0" if "k \<notin> set (map key rs)"
    using that by (simp add: count_list_0_iff)
  ultimately show ?thesis by (auto simp: take_count_def map_of_map_restrict restrict_map_def)
qed

lemma sum_groups:
  "sum_list (map snd (map (\<lambda>(k, rs). (k, int (length rs))) (group_by key rs))) = int (length rs)"
proof -
  have "sum_list (map snd (map (\<lambda>(k, rs). (k, int (length rs))) (group_by key rs))) =
      (\<Sum>k \<leftarrow> sort (remdups (map key rs)). int (count_list (map key rs) k))"
    by (simp add: group_by_def count_list_eq_length_filter filter_map comp_def eq_commute)
  also have "\<dots> = (\<Sum>k \<in> set (map key rs). int (count_list (map key rs) k))"
    by (subst sum_list_distinct_conv_sum_set) auto
  also have "\<dots> = int (length (map key rs))"
    by (simp only: int_sum [symmetric] sum_count_set [OF order_refl finite_set])
  finally show ?thesis by simp
qed

lemma count_list_rows: "count_list (map key rs) k = count_rows (\<lambda>r. key r = k) rs"
  by (simp add: count_list_eq_length_filter filter_map comp_def count_rows_def eq_commute)

lemma counts_simps [simp]:
  "fc_total (counts now d) = int (length (db_nodes d))"
  "fc_candidate (counts now d) = int (count_rows (\<lambda>n. n_lifecycle_state n = ''CANDIDATE'') (db_nodes d))"
  "fc_testing (counts now d) = int (count_rows (\<lambda>n. n_lifecycle_state n = ''TESTING'') (db_nodes d))"
  "fc_active (counts now d) = int (count_rows (\<lambda>n. n_lifecycle_state n = ''ACTIVE'') (db_nodes d))"
  "fc_probation (counts now d) = int (count_rows (\<lambda>n. n_lifecycle_state n = ''PROBATION'') (db_nodes d))"
  "fc_dormant (counts now d) = int (count_rows (\<lambda>n. n_lifecycle_state n = ''DORMANT'') (db_nodes d))"
  "fc_invalid (counts now d) = int (count_rows (\<lambda>n. n_lifecycle_state n = ''INVALID'') (db_nodes d))"
  "fc_retired (counts now d) = int (count_rows (\<lambda>n. n_lifecycle_state n = ''RETIRED'') (db_nodes d))"
  "fc_waiting_for_port (counts now d) =
     int (count_rows (\<lambda>n. n_lifecycle_state n = ''WAITING_FOR_PORT'') (db_nodes d))"
  "fc_publishable (counts now d) = int (count_rows (publishable now) (db_nodes d))"
  using sum_groups [of n_lifecycle_state "db_nodes d"]
  by (simp_all add: counts_def Let_def take_count_group count_list_rows)

lemma eight_states:
  "\<forall>n \<in> set ns. \<exists>s. n_lifecycle_state n = state_str s \<Longrightarrow>
     count_rows (\<lambda>n. n_lifecycle_state n = ''CANDIDATE'') ns + count_rows (\<lambda>n. n_lifecycle_state n = ''TESTING'') ns +
     count_rows (\<lambda>n. n_lifecycle_state n = ''ACTIVE'') ns + count_rows (\<lambda>n. n_lifecycle_state n = ''PROBATION'') ns +
     count_rows (\<lambda>n. n_lifecycle_state n = ''DORMANT'') ns + count_rows (\<lambda>n. n_lifecycle_state n = ''INVALID'') ns +
     count_rows (\<lambda>n. n_lifecycle_state n = ''RETIRED'') ns +
     count_rows (\<lambda>n. n_lifecycle_state n = ''WAITING_FOR_PORT'') ns = length ns"
proof (induction ns)
  case (Cons n ns)
  then obtain s where "n_lifecycle_state n = state_str s" by auto
  with Cons show ?case by (cases s) (simp_all add: count_rows_def)
qed (simp add: count_rows_def)

lemma publishable_apart:
  "count_rows (publishable now) ns + count_rows (\<lambda>n. n_lifecycle_state n = ''INVALID'') ns +
     count_rows (\<lambda>n. n_lifecycle_state n = ''RETIRED'') ns \<le> length ns"
  by (induction ns) (auto simp: count_rows_def publishable_def)

lemma page_offset_exact:
  assumes "(page - 1) * per_page < 2 ^ 63"
  shows "page_offset page per_page = (page - 1) * per_page"
proof -
  have "sint (of_nat m :: 64 word) = int m" if "m < 2 ^ 63" for m
    using that by (simp add: signed_of_nat signed_take_bit_int_eq_self)
  from this [OF assms] show ?thesis by (simp only: page_offset_def nat_int)
qed

lemma pages_take:
  assumes "k * per_page < 2 ^ 63"
  shows "concat (map (\<lambda>p. page_of p per_page rs) [1 ..< Suc k]) = take (k * per_page) rs"
  using assms
proof (induction k)
  case (Suc k)
  then have "page_offset (Suc k) per_page = k * per_page" and "k * per_page < 2 ^ 63"
    by (simp_all add: page_offset_exact)
  moreover have "take (Suc k * per_page) rs = take (k * per_page) rs @ take per_page (drop (k * per_page) rs)"
    by (simp only: mult_Suc add.commute [of per_page] take_add)
  ultimately show ?case
    using Suc.IH by (simp add: page_of_def del: mult_Suc)
qed simp

section \<open>Properties\<close>

text \<open>The fleet counters partition the fleet: when every row has the name of a lifecycle
  state, the eight state counters add up to the total, which is the number of nodes, and
  what is publishable is neither invalid nor retired.\<close>

theorem counts_partition:
  assumes "\<forall>n \<in> set (db_nodes d). \<exists>s. n_lifecycle_state n = state_str s"
  shows "fc_total (counts now d) = int (length (db_nodes d)) \<and>
    fc_candidate (counts now d) + fc_testing (counts now d) + fc_active (counts now d) +
      fc_probation (counts now d) + fc_dormant (counts now d) + fc_invalid (counts now d) +
      fc_retired (counts now d) + fc_waiting_for_port (counts now d) = fc_total (counts now d) \<and>
    fc_publishable (counts now d) + fc_invalid (counts now d) + fc_retired (counts now d)
      \<le> fc_total (counts now d)"
  using eight_states [OF assms] publishable_apart [of now "db_nodes d"] by simp

theorem counts_partition_witness:
  "fc_active (counts 0 sample_fleet) = 1 \<and> fc_total (counts 0 sample_fleet) = 1 \<and>
   fc_dormant (counts 0 sample_fleet) = 0"
proof -
  have "\<forall>n \<in> set (db_nodes sample_fleet). \<exists>s. n_lifecycle_state n = state_str s"
    by (auto simp: sample_fleet_def intro: exI [of _ Active])
  from counts_partition [OF this, of 0] show ?thesis
    by (simp add: count_rows_def sample_fleet_def)
qed

text \<open>Paging: the pages 1 to k, put together, are the first k times page-size rows of the
  filtered and sorted list, so following the pages shows every matching node exactly once
  and the total is their number. The offset is computed in 64 bits: a page number beyond
  that range shows rows of an early page instead of none.\<close>

theorem pages_cover_matches:
  assumes "1 \<le> per_page" and "per_page \<le> 200" and "k * per_page < 2 ^ 63"
  shows "concat (map (\<lambda>p. np_nodes (list_nodes L p per_page f d)) [1 ..< Suc k]) =
      map (row_to_summary L) (take (k * per_page) (matching_nodes L f d)) \<and>
    (\<forall>p. np_total (list_nodes L p per_page f d) = int (length (matching_nodes L f d))) \<and>
    mset (matching_nodes L f d) = mset (filter (matches_filters L f) (db_nodes d)) \<and>
    sorted (map list_order (matching_nodes L f d)) \<and>
    np_nodes (list_nodes L (2 ^ 63 + 1) 2 f d) = np_nodes (list_nodes L 1 2 f d)"
proof (intro conjI allI)
  have clamped: "clamp 1 200 per_page = per_page" using assms(1,2) by (rule clamp_id)
  have "np_nodes (list_nodes L p per_page f d) =
      map (row_to_summary L) (page_of p per_page (matching_nodes L f d))" if "p \<in> set [1 ..< Suc k]" for p
  proof -
    have "max p 1 = p" using that by auto
    then show ?thesis by (simp add: list_nodes_def Let_def clamped [simplified])
  qed
  then have "concat (map (\<lambda>p. np_nodes (list_nodes L p per_page f d)) [1 ..< Suc k]) =
      concat (map (\<lambda>p. map (row_to_summary L) (page_of p per_page (matching_nodes L f d))) [1 ..< Suc k])"
    by (intro arg_cong [of _ _ concat] map_cong refl)
  also have "\<dots> = map (row_to_summary L)
      (concat (map (\<lambda>p. page_of p per_page (matching_nodes L f d)) [1 ..< Suc k]))"
    by (simp only: map_concat map_map comp_def)
  finally show "concat (map (\<lambda>p. np_nodes (list_nodes L p per_page f d)) [1 ..< Suc k]) =
      map (row_to_summary L) (take (k * per_page) (matching_nodes L f d))"
    by (simp only: pages_take [OF assms(3)])
  show "np_total (list_nodes L p per_page f d) = int (length (matching_nodes L f d))" for p
    by (simp add: list_nodes_def Let_def matching_nodes_def count_rows_def)
  have "page_offset (2 ^ 63 + 1) 2 = page_offset 1 2"
    by (simp add: page_offset_def)
  then show "np_nodes (list_nodes L (2 ^ 63 + 1) 2 f d) = np_nodes (list_nodes L 1 2 f d)"
    by (simp add: list_nodes_def Let_def clamp_def page_of_def)
qed (simp_all add: matching_nodes_def)

theorem pages_cover_matches_witness:
  "map ns_id (concat (map (\<lambda>p. np_nodes (list_nodes sample_libs p 1 no_filters sample_fleet)) [1 ..< 3])) = [''a'']"
proof -
  have "concat (map (\<lambda>p. np_nodes (list_nodes sample_libs p 1 no_filters sample_fleet)) [1 ..< Suc 2]) =
      map (row_to_summary sample_libs) (take (2 * 1) (matching_nodes sample_libs no_filters sample_fleet))"
    using pages_cover_matches [of 1 2 sample_libs no_filters sample_fleet] by simp
  moreover have "matching_nodes sample_libs no_filters sample_fleet = db_nodes sample_fleet"
    by (simp add: matching_nodes_def matches_filters_def no_filters_def clause_def sample_fleet_def)
  ultimately show ?thesis
    by (simp add: sample_fleet_def row_to_summary_def Let_def new_node_def numeral_3_eq_3)
qed

text \<open>What is published: the configurations of exactly the structurally valid nodes with a
  running lease that are neither invalid nor retired, best score first, under the
  generation of the last complete refresh. Every node a client can be given and every node
  whose runtime is restored at start-up is among them.\<close>

theorem publication_exact:
  "mset (ps_raw_configs (publication_snapshot now d)) =
      mset (map n_raw_config (filter (publishable now) (db_nodes d))) \<and>
   (\<exists>ns :: node list. ps_raw_configs (publication_snapshot now d) = map n_raw_config ns \<and>
      sorted (map (\<lambda>n. - n_health_score n) ns)) \<and>
   (\<forall>r \<in> set (db_runs d). rr_status r = ''COMPLETE'' \<longrightarrow>
      rr_generation r \<le> ps_generation (publication_snapshot now d)) \<and>
   set (map rc_raw_config (active_runtime_candidates now d)) \<subseteq> set (ps_raw_configs (publication_snapshot now d)) \<and>
   (\<forall>n \<in> set (db_nodes d). servable now n \<longrightarrow> n_raw_config n \<in> set (ps_raw_configs (publication_snapshot now d)))"
proof (intro conjI)
  let ?key = "\<lambda>n. (- n_health_score n, n_config_hash n)"
  let ?ns = "sort_key ?key (filter (publishable now) (db_nodes d))"
  have raw: "ps_raw_configs (publication_snapshot now d) = map n_raw_config ?ns"
    by (simp add: publication_snapshot_def)
  show "mset (ps_raw_configs (publication_snapshot now d)) =
      mset (map n_raw_config (filter (publishable now) (db_nodes d)))"
    by (simp add: raw)
  have "sorted (map ?key ?ns)" by simp
  then have "sorted (map (\<lambda>n. - n_health_score n) ?ns)"
    by (auto simp: sorted_iff_nth_mono less_eq_prod_def less_le)
  with raw show "\<exists>ns :: node list. ps_raw_configs (publication_snapshot now d) = map n_raw_config ns \<and>
      sorted (map (\<lambda>n. - n_health_score n) ns)" by blast
  show "\<forall>r \<in> set (db_runs d). rr_status r = ''COMPLETE'' \<longrightarrow>
      rr_generation r \<le> ps_generation (publication_snapshot now d)"
    using max_opt_ge [of _ "map rr_generation (filter (\<lambda>r. rr_status r = ''COMPLETE'') (db_runs d))"]
    by (fastforce simp: publication_snapshot_def)
  show "set (map rc_raw_config (active_runtime_candidates now d)) \<subseteq>
      set (ps_raw_configs (publication_snapshot now d))"
    by (auto simp: raw active_runtime_candidates_def restorable_def publishable_def)
  show "\<forall>n \<in> set (db_nodes d). servable now n \<longrightarrow>
      n_raw_config n \<in> set (ps_raw_configs (publication_snapshot now d))"
    by (auto simp: raw servable_def publishable_def)
qed

theorem publication_exact_witness:
  "ps_raw_configs (publication_snapshot 0 (sample_fleet\<lparr>db_nodes := map (\<lambda>n. n\<lparr>n_raw_config := ''vless://a''\<rparr>)
     (db_nodes sample_fleet)\<rparr>)) = [''vless://a'']"
proof -
  let ?d = "sample_fleet\<lparr>db_nodes := map (\<lambda>n. n\<lparr>n_raw_config := ''vless://a''\<rparr>) (db_nodes sample_fleet)\<rparr>"
  have "mset (ps_raw_configs (publication_snapshot 0 ?d)) =
      mset (map n_raw_config (filter (publishable 0) (db_nodes ?d)))"
    using publication_exact [of 0 ?d] by blast
  also have "\<dots> = mset [''vless://a'']"
    by (simp add: sample_fleet_def publishable_def new_node_def time_defs)
  finally show ?thesis by simp
qed

end
