(* ===== verification/Evolution.thy ===== *)
theory Evolution
  imports Scheduler Clients Generations Leases Ledger Views
begin

text \<open>
  The life of a row of the node table. Several tasks write the table (the scheduler, the
  upstream refresh, the runtimes, the metadata lookups, the requests of the interface), and
  SQLite puts their transactions in some order. Here are the transactions of the store as
  the steps of one relation, what one of them may do to one row, and the invariants of the
  rows that hold after any number of them in any order.

  The claim of a queue selects rows first and then updates them one by one, outside a database
  transaction. \<open>Claim\<close> is the claim that nothing interrupts; \<open>Claim_Late\<close> is the update of a row
  that another task has refreshed, revived or retired since it was selected. Only the
  scheduler records results and claims, so meanwhile no row becomes INVALID or TESTING.
\<close>

section \<open>Writes to a row\<close>

definition claimable :: "node \<Rightarrow> bool" where
  "claimable n \<longleftrightarrow>
     (\<exists>state \<in> fst ` set queue_order. n_lifecycle_state n = state \<or>
        n_lifecycle_state n = ''WAITING_FOR_PORT'' \<and> n_waiting_from_state n = Some state)"

definition restartable :: "node \<Rightarrow> bool" where
  "restartable n \<longleftrightarrow>
     n_structurally_valid n = 1 \<and> n_lifecycle_state n \<in> {''DORMANT'', ''PROBATION'', ''CANDIDATE''}"

text \<open>\<open>E\<close> is the set of the events on record when the write is committed.\<close>

inductive row_write :: "test_event set \<Rightarrow> node \<Rightarrow> node \<Rightarrow> bool" for E where
  Refreshed: "row_write E n (refreshed_row now gen p n)"
| Seen: "row_write E n (seen_row now gen n)"
| Missed: "row_write E n (missed_row n)"
| Retire: "retirable now k n \<Longrightarrow> row_write E n (retired_row now n)"
| Release: "n_lifecycle_state n = ''TESTING'' \<Longrightarrow> row_write E n (release_row now n)"
| Wait: "n_structurally_valid n = 1 \<Longrightarrow> row_write E n (waiting_row now r n)"
| Port: "row_write E n (port_row now p n)"
| Metadata_Lease: "row_write E n (n\<lparr>n_metadata_lease_until := t\<rparr>)"
| Metadata: "row_write E n (metadata_row now m n)"
| Restart: "restartable n \<Longrightarrow> row_write E n (probation_row now n)"
| Revive: "restartable n \<Longrightarrow> row_write E n (revived_row now n)"
| Due: "row_write E n (due_row now n)"
| Claim: "n_structurally_valid n = 1 \<Longrightarrow> claimable n \<or> n_lifecycle_state n = ''RETIRED'' \<Longrightarrow>
    row_write E n (claimed_row now l n)"
| Decide: "event_row now k e \<in> E \<Longrightarrow> ti_proxy_id e = n_id n \<Longrightarrow> ev = evidence_sums now pid ts \<Longrightarrow>
    row_write E n (decided_row now e (decide draw (health_input now iv e n ev)) ev n)"

definition newborn :: "node \<Rightarrow> bool" where
  "newborn n \<longleftrightarrow> (\<exists>now gen uid p. n = inserted_row now gen uid p)"

text \<open>Every row of the later store is a row of the earlier one, or a new one, after some writes;
  a row is gone only where rows may be removed, and after it was retired; and no event was lost.\<close>

definition evolves_upto :: "bool \<Rightarrow> db \<Rightarrow> db \<Rightarrow> bool" where
  "evolves_upto removal d d' \<longleftrightarrow> set (db_events d) \<subseteq> set (db_events d') \<and>
     (\<forall>m \<in> set (db_nodes d'). \<exists>n. (n \<in> set (db_nodes d) \<or> newborn n) \<and>
        (row_write (set (db_events d')))\<^sup>*\<^sup>* n m) \<and>
     (\<forall>n \<in> set (db_nodes d). \<exists>m. (m \<in> set (db_nodes d') \<or> removal \<and> n_lifecycle_state m = ''RETIRED'') \<and>
        (row_write (set (db_events d')))\<^sup>*\<^sup>* n m)"

abbreviation evolves :: "db \<Rightarrow> db \<Rightarrow> bool" where
  "evolves \<equiv> evolves_upto True"

definition event_key :: "test_event \<Rightarrow> string \<times> string \<times> string" where
  "event_key t = (te_proxy_id t, te_run_id t, te_stage t)"

definition store_keys :: "db \<Rightarrow> bool" where
  "store_keys d \<longleftrightarrow> unique_nodes d \<and> distinct (map event_key (db_events d))"

section \<open>Transactions\<close>

definition fresh_for :: "(nat \<Rightarrow> string) \<Rightarrow> nat \<Rightarrow> db \<Rightarrow> bool" where
  "fresh_for fresh k d \<longleftrightarrow> inj_on fresh {..<k} \<and> fresh ` {..<k} \<inter> ids d = {}"

definition service_keys :: "db \<Rightarrow> string set" where
  "service_keys d = kv_key ` set (db_service_state d)"

text \<open>\<open>Other\<close> stands for every statement on the other tables; none of them deletes a service state.\<close>

inductive transaction :: "db \<Rightarrow> db \<Rightarrow> bool" where
  Ingest: "fresh_for fresh (length ps) d \<Longrightarrow> transaction d (snd (ingest_many now gen fresh ps d))"
| Copy: "transaction d (snd (copy_cached_source_generation now source gen d))"
| Reconcile: "transaction d (reconcile now gen minimum d)"
| Apply: "apply_test_event now draw iv e d = Inr (r, d') \<Longrightarrow> transaction d d'"
| Claim: "queue \<in> set queue_order \<Longrightarrow>
    transaction d (snd (append_claims cap (claim_params e queue k) (jobs, d)))"
| Claim_Late: "\<forall>n. node_of (n_id (fst row)) d = Some n \<longrightarrow>
      n_structurally_valid n = 1 \<and> (claimable n \<or> n_lifecycle_state n = ''RETIRED'') \<Longrightarrow>
    transaction d (snd (claim_row ps row (jobs, d)))"
| Release: "transaction d (release_test_lease now pid d)"
| Wait: "transaction d (mark_waiting_for_port now pid r d)"
| Set_Port: "transaction d (set_main_port now pid port d)"
| Clear_Port: "transaction d (clear_main_port now pid d)"
| Clear_Stale: "transaction d (snd (clear_stale_runtime_ports now d))"
| Claim_Metadata: "transaction d (snd (claim_metadata_refresh now pid ttl lease d))"
| Record_Metadata: "transaction d (record_exit_metadata now pid m d)"
| Release_Metadata: "transaction d (release_metadata_lease pid d)"
| Revive_Dormant: "transaction d (snd (revive_dormant now d))"
| Revive_Node: "transaction d (snd (revive_node now pid d))"
| Manual_Test: "transaction d (snd (schedule_manual_test now pid d))"
| Cleanup: "transaction d (snd (cleanup_retired now d))"
| Other: "db_nodes d' = db_nodes d \<Longrightarrow> db_events d' = db_events d \<Longrightarrow>
    service_keys d \<subseteq> service_keys d' \<Longrightarrow> transaction d d'"

abbreviation transactions :: "db \<Rightarrow> db \<Rightarrow> bool" where
  "transactions \<equiv> transaction\<^sup>*\<^sup>*"

section \<open>Every transaction is a set of row writes\<close>

lemma row_write_mono: "row_write E n m \<Longrightarrow> E \<subseteq> E' \<Longrightarrow> row_write E' n m"
  by (induction rule: row_write.induct) (auto intro: row_write.intros)

lemma row_writes_mono: "(row_write E)\<^sup>*\<^sup>* n m \<Longrightarrow> E \<subseteq> E' \<Longrightarrow> (row_write E')\<^sup>*\<^sup>* n m"
  by (induction rule: rtranclp_induct) (auto intro: rtranclp.rtrancl_into_rtrancl row_write_mono)

lemma evolves_frame: "db_nodes d' = db_nodes d \<Longrightarrow> set (db_events d) \<subseteq> set (db_events d') \<Longrightarrow> evolves_upto gone d d'"
  unfolding evolves_upto_def by auto

lemma evolves_source:
  assumes "evolves_upto gone d d'" and "m \<in> set (db_nodes d')"
  obtains n where "n \<in> set (db_nodes d) \<or> newborn n" "(row_write (set (db_events d')))\<^sup>*\<^sup>* n m"
  using assms unfolding evolves_upto_def by meson

lemma evolves_target:
  assumes "evolves_upto gone d d'" and "n \<in> set (db_nodes d)"
  obtains m where "m \<in> set (db_nodes d') \<or> gone \<and> n_lifecycle_state m = ''RETIRED''"
    "(row_write (set (db_events d')))\<^sup>*\<^sup>* n m"
  using assms unfolding evolves_upto_def by meson

lemma evolves_trans:
  assumes "evolves_upto gone a b" and "evolves_upto gone b c"
  shows "evolves_upto gone a c"
  unfolding evolves_upto_def
proof (intro conjI ballI)
  have e: "set (db_events a) \<subseteq> set (db_events b)" "set (db_events b) \<subseteq> set (db_events c)"
    using assms by (simp_all add: evolves_upto_def)
  then show "set (db_events a) \<subseteq> set (db_events c)" by simp
  fix m assume "m \<in> set (db_nodes c)"
  then obtain n where n: "n \<in> set (db_nodes b) \<or> newborn n" "(row_write (set (db_events c)))\<^sup>*\<^sup>* n m"
    by (rule evolves_source [OF assms(2)])
  have "\<exists>k. (k \<in> set (db_nodes a) \<or> newborn k) \<and> (row_write (set (db_events b)))\<^sup>*\<^sup>* k n"
    using n(1) by (metis evolves_source [OF assms(1)] rtranclp.rtrancl_refl)
  with n(2) e(2) show "\<exists>k. (k \<in> set (db_nodes a) \<or> newborn k) \<and> (row_write (set (db_events c)))\<^sup>*\<^sup>* k m"
    by (meson row_writes_mono rtranclp_trans)
next
  have e: "set (db_events b) \<subseteq> set (db_events c)" using assms(2) by (simp add: evolves_upto_def)
  fix n assume "n \<in> set (db_nodes a)"
  then obtain k where k: "k \<in> set (db_nodes b) \<or> gone \<and> n_lifecycle_state k = ''RETIRED''"
      "(row_write (set (db_events b)))\<^sup>*\<^sup>* n k"
    by (rule evolves_target [OF assms(1)])
  have w: "(row_write (set (db_events c)))\<^sup>*\<^sup>* n k" using k(2) e by (rule row_writes_mono)
  from k(1) show "\<exists>m. (m \<in> set (db_nodes c) \<or> gone \<and> n_lifecycle_state m = ''RETIRED'') \<and>
      (row_write (set (db_events c)))\<^sup>*\<^sup>* n m"
  proof
    assume "k \<in> set (db_nodes b)"
    then obtain m where "m \<in> set (db_nodes c) \<or> gone \<and> n_lifecycle_state m = ''RETIRED''"
        "(row_write (set (db_events c)))\<^sup>*\<^sup>* k m"
      by (rule evolves_target [OF assms(2)])
    with w show ?thesis by (meson rtranclp_trans)
  qed (use w in blast)
qed

lemma evolves_update:
  assumes "\<And>n. n \<in> set (db_nodes d) \<Longrightarrow> sel n \<Longrightarrow> row_write (set (db_events d)) n (f n)"
  shows "evolves_upto gone d (on_nodes (update_where sel f) d)"
  unfolding evolves_upto_def
proof (intro conjI ballI)
  fix m assume "m \<in> set (db_nodes (on_nodes (update_where sel f) d))"
  then obtain n where n: "n \<in> set (db_nodes d)" "m = (if sel n then f n else n)"
    by (auto simp: set_update_where)
  then have "(row_write (set (db_events d)))\<^sup>*\<^sup>* n m" using assms by auto
  with n(1) show "\<exists>n. (n \<in> set (db_nodes d) \<or> newborn n) \<and>
      (row_write (set (db_events (on_nodes (update_where sel f) d))))\<^sup>*\<^sup>* n m"
    by auto
next
  fix n assume n: "n \<in> set (db_nodes d)"
  let ?m = "if sel n then f n else n"
  have "?m \<in> set (db_nodes (on_nodes (update_where sel f) d))" using n by (simp add: set_update_where)
  moreover have "(row_write (set (db_events d)))\<^sup>*\<^sup>* n ?m" using n assms by auto
  ultimately show "\<exists>m. (m \<in> set (db_nodes (on_nodes (update_where sel f) d)) \<or> gone \<and> n_lifecycle_state m = ''RETIRED'') \<and>
      (row_write (set (db_events (on_nodes (update_where sel f) d))))\<^sup>*\<^sup>* n m"
    by auto
qed simp

text \<open>A step of the store keeps the keys and lets the rows evolve.\<close>

definition lawful_upto :: "bool \<Rightarrow> db \<Rightarrow> db \<Rightarrow> bool" where
  "lawful_upto removal d d' \<longleftrightarrow> (store_keys d \<longrightarrow> store_keys d' \<and> evolves_upto removal d d')"

abbreviation lawful :: "db \<Rightarrow> db \<Rightarrow> bool" where
  "lawful \<equiv> lawful_upto True"

lemma lawful_refl [simp]: "lawful_upto gone d d"
  by (simp add: lawful_upto_def evolves_frame)

lemma lawful_trans: "lawful_upto gone a b \<Longrightarrow> lawful_upto gone b c \<Longrightarrow> lawful_upto gone a c"
  unfolding lawful_upto_def using evolves_trans by blast

lemma lawful_frame: "db_nodes d' = db_nodes d \<Longrightarrow> db_events d' = db_events d \<Longrightarrow> lawful_upto gone d d'"
  by (simp add: lawful_upto_def store_keys_def unique_nodes_def evolves_frame)

lemma store_keys_simps:
  "store_keys d \<Longrightarrow> unique_nodes d" "store_keys d \<Longrightarrow> distinct (map n_id (db_nodes d))"
  by (simp_all add: store_keys_def unique_nodes_def)

lemma node_of_row: "store_keys d \<Longrightarrow> n \<in> set (db_nodes d) \<Longrightarrow> node_of (n_id n) d = Some n"
  using store_keys_simps(2) [of d]
  by (cases "node_of (n_id n) d")
     (auto simp: node_of_def find_row_None distinct_map inj_on_def dest!: find_row_Some)

context node_update begin

lemma lawful_update:
  assumes "\<And>n E. sel n \<Longrightarrow> row_write E n (upd n)"
  shows "lawful_upto gone d (on_nodes (update_where sel upd) d)"
  using evolves_update [of d sel upd] assms by (simp add: lawful_upto_def store_keys_def unique)

end

lemmas lawful_updates =
  missed.lawful_update [OF row_write.Missed]
  retired.lawful_update [OF row_write.Retire]
  seen.lawful_update [OF row_write.Seen]
  refreshed.lawful_update [OF row_write.Refreshed]
  port.lawful_update [OF row_write.Port]
  metadata_claim.lawful_update [OF row_write.Metadata_Lease]
  metadata.lawful_update [OF row_write.Metadata]
  manual.lawful_update [OF row_write.Due]

lemma lawful_release: "lawful_upto gone d (release_test_lease now pid d)"
  unfolding release_test_lease_def by (rule release.lawful_update) (simp add: row_write.Release)

lemma lawful_wait: "lawful_upto gone d (mark_waiting_for_port now pid r d)"
  unfolding mark_waiting_for_port_def by (rule waiting.lawful_update) (simp add: row_write.Wait)

lemma lawful_revive_dormant: "lawful_upto gone d (snd (revive_dormant now d))"
  unfolding revive_dormant_def snd_conv
  by (rule revive_all.lawful_update) (rule row_write.Restart, simp add: dormant_valid_def restartable_def)

lemma lawful_revive_node: "lawful_upto gone d (snd (revive_node now pid d))"
  unfolding revive_node_def snd_conv
  by (rule revive_one.lawful_update) (rule row_write.Revive, simp add: revivable_def restartable_def)

lemma lawful_reconcile: "lawful_upto gone d (reconcile now gen minimum d)"
  unfolding reconcile_def by (rule lawful_trans) (rule lawful_updates, assumption?)+

lemma lawful_cleanup: "lawful d (snd (cleanup_retired now d))"
  unfolding lawful_upto_def store_keys_def evolves_upto_def
  by (auto simp: unique_cleanup) (auto simp: cleanup_retired_def expired_tombstone_def)

text \<open>The rows a queue claims are those it selected.\<close>

lemma lawful_claim:
  assumes "queue \<in> set queue_order"
  shows "lawful_upto gone d (snd (append_claims cap (claim_params e queue k) (jobs, d)))"
  unfolding lawful_upto_def
proof (intro impI)
  assume keys: "store_keys d"
  let ?ps = "claim_params e queue k"
  define rows where "rows = (if cl_queue_limit ?ps = 0 \<or> cap \<le> length jobs then []
      else selected ?ps (min (cl_queue_limit ?ps) (cap - length jobs)) (db_nodes d))"
  define picked where "picked = (\<lambda>r. n_id (fst r)) ` set rows"
  let ?sel = "\<lambda>n. n_id n \<in> picked" and ?upd = "claimed_row (ce_now e) (ce_lease e)"
  have u: "distinct (map n_id (db_nodes d))" using keys by (rule store_keys_simps)
  have q: "queue_state (cl_state ?ps)" using assms by (simp add: queue_order_states)
  have eq: "snd (append_claims cap ?ps (jobs, d)) = on_nodes (update_where ?sel ?upd) d"
    using append_claims_eq [OF u q rows_def]
    by (simp add: picked_def claim_ids_def update_where_def on_nodes_def)
  have "row_write E n (?upd n)" if n: "n \<in> set (db_nodes d)" "?sel n" for n E
  proof -
    obtain r where r: "r \<in> set rows" "n_id n = n_id (fst r)" using n(2) by (auto simp: picked_def)
    then have "r \<in> set (eligible (fst queue) (ce_now e) (db_nodes d))"
      using selected_subset [of ?ps] by (auto simp: rows_def split: if_splits)
    moreover from this have "fst r \<in> set (db_nodes d)" by (auto simp: eligible_def)
    then have "fst r = n" using u n(1) r(2) by (auto simp: distinct_map inj_on_def)
    ultimately have "n_structurally_valid n = 1" "claimable n"
      using assms by (auto simp: eligible_def claimable_def test_due_def)
    then show ?thesis by (simp add: row_write.Claim)
  qed
  then have "evolves_upto gone d (on_nodes (update_where ?sel ?upd) d)" by (rule evolves_update)
  moreover have "node_keys (on_nodes (update_where ?sel ?upd) d) = node_keys d"
    by (rule on_nodes_keys) simp
  ultimately show "store_keys (snd (append_claims cap ?ps (jobs, d))) \<and>
      evolves_upto gone d (snd (append_claims cap ?ps (jobs, d)))"
    using keys by (simp add: eq store_keys_def unique_nodes_keys)
qed

lemma lawful_claim_late:
  assumes "\<forall>n. node_of (n_id (fst row)) d = Some n \<longrightarrow>
      n_structurally_valid n = 1 \<and> (claimable n \<or> n_lifecycle_state n = ''RETIRED'')"
  shows "lawful_upto gone d (snd (claim_row ps row (jobs, d)))"
  unfolding lawful_upto_def
proof (intro impI)
  assume keys: "store_keys d"
  let ?free = "lease_free (cl_now ps) (n_id (fst row))" and ?upd = "claimed_row (cl_now ps) (cl_lease ps)"
  have "row_write E n (?upd n)" if n: "n \<in> set (db_nodes d)" "?free n" for n E
  proof -
    have "n_id n = n_id (fst row)" using n(2) by (simp add: lease_free_def)
    moreover have "node_of (n_id n) d = Some n" using node_of_row [OF keys n(1)] .
    ultimately show ?thesis using assms by (simp add: row_write.Claim)
  qed
  then have "evolves_upto gone d (on_nodes (update_where ?free ?upd) d)" by (rule evolves_update)
  moreover have "node_keys (on_nodes (update_where ?free ?upd) d) = node_keys d"
    by (rule on_nodes_keys) simp
  ultimately show "store_keys (snd (claim_row ps row (jobs, d))) \<and>
      evolves_upto gone d (snd (claim_row ps row (jobs, d)))"
    using keys by (simp add: claim_row_def Let_def store_keys_def unique_nodes_keys)
qed

lemma event_key_row: "event_key (event_row now k e) = (ti_proxy_id e, ti_run_id e, stage_str (ti_stage e))"
  by (simp add: event_key_def)

lemma not_applied_key:
  "\<not> already_applied e d \<Longrightarrow> event_key (event_row now k e) \<notin> event_key ` set (db_events d)"
  by (auto simp: already_applied_def list_ex_iff event_key_def)

lemma lawful_apply:
  assumes "apply_test_event now draw iv e d = Inr (r, d')"
  shows "lawful_upto gone d d'"
  using assms
proof (cases rule: apply_cases)
  case (fresh n ev dec)
  let ?d = "append_event now e d" and ?sel = "\<lambda>m. n_id m = ti_proxy_id e"
  let ?row = "event_row now (db_event_seq d + 1) e"
  show ?thesis
    unfolding lawful_upto_def
  proof (intro impI conjI)
    assume keys: "store_keys d"
    have u: "distinct (map n_id (db_nodes d))" using keys by (rule store_keys_simps)
    have n: "n \<in> set (db_nodes d)" "n_id n = ti_proxy_id e"
      using fresh(1) by (auto simp: node_of_def dest: find_row_Some)
    have "row_write (set (db_events ?d)) m (decided_row now e dec ev m)"
      if "m \<in> set (db_nodes ?d)" "?sel m" for m
    proof -
      have "m = n" using that n u by (auto simp: distinct_map inj_on_def)
      with that(2) show ?thesis
        by (simp add: fresh(4) row_write.Decide [OF _ _ fresh(3), where k = "db_event_seq d + 1"])
    qed
    then have "evolves_upto gone ?d d'" unfolding fresh(5) by (rule evolves_update)
    moreover have "evolves_upto gone d ?d" by (rule evolves_frame) auto
    ultimately show "evolves_upto gone d d'" using evolves_trans by blast
    show "store_keys d'"
      using keys not_applied_key [OF fresh(2)]
      by (simp add: store_keys_def fresh(5) decided.unique) (simp add: unique_nodes_keys)
  qed
qed simp

text \<open>Ingestion: a known configuration refreshes its row, a new one is a new row.\<close>

lemma lawful_member: "lawful_upto gone d (add_member now gen s h d)"
  by (rule lawful_frame) (simp_all add: add_member_def)

lemma lawful_members: "lawful_upto gone d (fold (\<lambda>h. add_member now gen s h) hs d)"
proof (induction hs arbitrary: d)
  case (Cons h hs)
  from lawful_trans [OF lawful_member Cons.IH] show ?case by simp
qed simp

lemma evolves_insert: "evolves_upto gone d (on_nodes (\<lambda>ns. ns @ [inserted_row now gen uid p]) d)"
  by (auto simp: evolves_upto_def newborn_def) (metis rtranclp.rtrancl_refl)

lemma lawful_ingest_step:
  assumes "uid \<notin> ids d"
  shows "lawful_upto gone d (snd (ingest_step now gen uid p d))"
proof (cases rule: ingest_step_cases [of p d now gen uid])
  case (seen row)
  then show ?thesis
    by (simp add: lawful_trans [OF lawful_updates(4) lawful_member])
next
  case new
  let ?d = "on_nodes (\<lambda>ns. ns @ [inserted_row now gen uid p]) d"
  have "lawful_upto gone d ?d"
    unfolding lawful_upto_def
  proof (intro impI conjI)
    assume "store_keys d"
    moreover have "node_keys ?d = node_keys d @ [(uid, pp_config_hash p)]"
      using new(2,3) by simp
    ultimately show "store_keys ?d"
      using assms new(1) by (auto simp: store_keys_def unique_nodes_keys hashes_keys)
  qed (rule evolves_insert)
  then show ?thesis by (simp add: new(2) lawful_trans [OF _ lawful_member])
qed

lemma ids_ingest_step: "ids (snd (ingest_step now gen uid p d)) \<subseteq> insert uid (ids d)"
  "\<not> fst (ingest_step now gen uid p d) \<Longrightarrow> ids (snd (ingest_step now gen uid p d)) = ids d"
  by (cases rule: ingest_step_cases [of p d now gen uid]; auto simp: hashes_keys)+

lemma lawful_ingest_loop:
  assumes "inj_on fresh {..<k + length ps}" and "\<forall>j < k + length ps. k \<le> j \<longrightarrow> fresh j \<notin> ids d"
  shows "lawful_upto gone d (snd (ingest_loop now gen fresh ps k d))"
  using assms
proof (induction ps arbitrary: k d)
  case (Cons p ps)
  obtain inserted d1 where s: "ingest_step now gen (fresh k) p d = (inserted, d1)" by fastforce
  have "lawful_upto gone d d1" using lawful_ingest_step [of "fresh k" d _ now gen p] Cons.prems(2) s by simp
  moreover have "lawful_upto gone d1 (snd (ingest_loop now gen fresh ps (if inserted then k + 1 else k) d1))"
  proof (rule Cons.IH)
    show "inj_on fresh {..<(if inserted then k + 1 else k) + length ps}"
      using Cons.prems(1) by (rule inj_on_subset) auto
    show "\<forall>j < (if inserted then k + 1 else k) + length ps. (if inserted then k + 1 else k) \<le> j \<longrightarrow> fresh j \<notin> ids d1"
    proof (intro allI impI)
      fix j assume j: "j < (if inserted then k + 1 else k) + length ps" "(if inserted then k + 1 else k) \<le> j"
      have "fresh j \<notin> ids d" using Cons.prems(2) j by (auto split: if_splits)
      moreover have "inserted \<Longrightarrow> fresh j \<noteq> fresh k"
        using inj_onD [OF Cons.prems(1), of j k] j by auto
      ultimately show "fresh j \<notin> ids d1"
        using ids_ingest_step [where now = now and gen = gen and uid = "fresh k" and p = p and d = d]
        by (cases inserted) (auto simp: s)
    qed
  qed
  ultimately have "lawful_upto gone d (snd (ingest_loop now gen fresh ps (if inserted then k + 1 else k) d1))"
    by (rule lawful_trans)
  then show ?case by (simp only: ingest_loop.simps s prod.case)
qed simp

lemma lawful_ingest: "fresh_for fresh (length ps) d \<Longrightarrow> lawful_upto gone d (snd (ingest_many now gen fresh ps d))"
  unfolding ingest_many_def by (rule lawful_ingest_loop) (auto simp: fresh_for_def)

lemma lawful_copy: "lawful_upto gone d (snd (copy_cached_source_generation now source gen d))"
  unfolding copy_cached_source_generation_def Let_def
  by (auto intro: lawful_trans [OF lawful_members lawful_updates(3)] split: option.split)

lemmas lawful_single = lawful_copy lawful_reconcile lawful_release lawful_wait lawful_revive_dormant
  lawful_revive_node lawful_updates

lemma transaction_kept:
  "transaction d d' \<Longrightarrow> lawful_upto False d d' \<or> (\<exists>now. d' = snd (cleanup_retired now d))"
proof (induction rule: transaction.induct)
  case (Claim queue d cap e k jobs)
  from lawful_claim [OF this] show ?case ..
next
  case (Claim_Late row d ps jobs)
  from lawful_claim_late [OF this] show ?case ..
next
  case (Apply now draw iv e d r d')
  from lawful_apply [OF this] show ?case ..
next
  case (Ingest fresh ps d now gen)
  from lawful_ingest [OF this] show ?case ..
next
  case (Other d' d)
  from lawful_frame [OF Other(1,2)] show ?case ..
qed (unfold schedule_manual_test_def Let_def set_main_port_def clear_main_port_def record_exit_metadata_def
      clear_stale_runtime_ports_def claim_metadata_refresh_def release_metadata_lease_def snd_conv,
    auto intro: lawful_single)

lemma transaction_lawful: "transaction d d' \<Longrightarrow> lawful d d'"
proof -
  assume "transaction d d'"
  then consider "lawful_upto False d d'" | now where "d' = snd (cleanup_retired now d)"
    using transaction_kept by blast
  then show "lawful d d'"
  proof cases
    case 1
    then show ?thesis unfolding lawful_upto_def evolves_upto_def by blast
  qed (simp add: lawful_cleanup)
qed

lemma transactions_lawful: "transactions d d' \<Longrightarrow> lawful d d'"
  by (induction rule: rtranclp_induct) (auto intro: lawful_trans transaction_lawful)

text \<open>A service state that is set stays set.\<close>

lemma service_frames [simp]:
  "service_keys (on_nodes f d) = service_keys d" "service_keys (add_member now gen s h d) = service_keys d"
  "service_keys (append_event now e d) = service_keys d"
  by (simp_all add: service_keys_def on_nodes_def add_member_def append_event_def)

lemma service_members: "service_keys (fold (\<lambda>h. add_member now gen s h) hs d) = service_keys d"
  by (induction hs arbitrary: d) simp_all

lemma service_claim [simp]: "service_keys (snd (claim_row ps row s)) = service_keys (snd s)"
  by (simp add: claim_row_def Let_def split: prod.split)

lemma service_claims: "service_keys (snd (append_claims cap ps (jobs, d))) = service_keys d"
proof -
  have "service_keys (snd (fold (claim_row ps) rows s)) = service_keys (snd s)" for rows s
    by (induction rows arbitrary: s) simp_all
  then show ?thesis by (simp add: append_claims_def)
qed

lemma service_ingest: "service_keys (snd (ingest_loop now gen fresh ps k d)) = service_keys d"
proof (induction ps arbitrary: k d)
  case (Cons p ps)
  have "service_keys (snd (ingest_step now gen (fresh k) p d)) = service_keys d"
    by (simp add: ingest_step_def split: option.split)
  with Cons.IH show ?case by (simp add: case_prod_beta)
qed simp

lemma transaction_service: "transaction d d' \<Longrightarrow> service_keys d \<subseteq> service_keys d'"
proof (induction rule: transaction.induct)
  case (Apply now draw iv e d r d')
  then show ?case by (cases rule: apply_cases) simp_all
qed (simp_all add: ingest_many_def service_ingest service_members service_claims Let_def reconcile_def
    copy_cached_source_generation_def release_test_lease_def mark_waiting_for_port_def set_main_port_def
    clear_main_port_def clear_stale_runtime_ports_def claim_metadata_refresh_def record_exit_metadata_def
    release_metadata_lease_def revive_dormant_def revive_node_def schedule_manual_test_def cleanup_retired_def
    split: option.split)

lemma transactions_service: "transactions d d' \<Longrightarrow> service_keys d \<subseteq> service_keys d'"
  by (induction rule: rtranclp_induct) (auto dest: transaction_service)

section \<open>Invariants of the rows\<close>

abbreviation all_rows :: "(test_event set \<Rightarrow> node \<Rightarrow> bool) \<Rightarrow> db \<Rightarrow> bool" where
  "all_rows P d \<equiv> \<forall>n \<in> set (db_nodes d). P (set (db_events d)) n"

text \<open>
  What holds of a new row and is kept by every write holds of all rows, whatever
  transactions ran. The predicate may speak of the events on record, of which there are
  only ever more.
\<close>

locale row_invariant =
  fixes P :: "test_event set \<Rightarrow> node \<Rightarrow> bool"
  assumes more_events: "P E n \<Longrightarrow> E \<subseteq> E' \<Longrightarrow> P E' n"
    and born: "P E (inserted_row now gen uid p)"
    and written: "row_write E n m \<Longrightarrow> P E n \<Longrightarrow> P E m"
begin

lemma writes: "(row_write E)\<^sup>*\<^sup>* n m \<Longrightarrow> P E n \<Longrightarrow> P E m"
  by (induction rule: rtranclp_induct) (auto intro: written)

lemma evolve:
  assumes "evolves d d'" and "all_rows P d"
  shows "all_rows P d'"
proof
  fix m assume "m \<in> set (db_nodes d')"
  then obtain n where n: "n \<in> set (db_nodes d) \<or> newborn n" "(row_write (set (db_events d')))\<^sup>*\<^sup>* n m"
    by (rule evolves_source [OF assms(1)])
  have "P (set (db_events d')) n"
    using n(1) assms more_events by (auto simp: evolves_upto_def newborn_def born)
  with n(2) show "P (set (db_events d')) m" by (rule writes)
qed

lemma always: "transactions d d' \<Longrightarrow> store_keys d \<Longrightarrow> all_rows P d \<Longrightarrow> all_rows P d'"
  using transactions_lawful [of d d'] evolve [of d d'] by (simp add: lawful_upto_def)

lemma from_empty: "transactions empty_db d \<Longrightarrow> all_rows P d"
  by (erule always) (simp_all add: store_keys_def unique_nodes_def empty_db_def)

end

lemmas row_defs = refreshed_row_def seen_row_def missed_row_def retired_row_def release_row_def waiting_row_def
  port_row_def metadata_row_def probation_row_def revived_row_def due_row_def claimed_row_def decided_row_def Let_def

lemma newborn_simps [simp]:
  "n_lifecycle_state (inserted_row now gen uid p) = ''CANDIDATE''"
  "n_status (inserted_row now gen uid p) = ''CANDIDATE''"
  "n_structurally_valid (inserted_row now gen uid p) = 1"
  "n_testing_from_state (inserted_row now gen uid p) = None"
  "n_waiting_from_state (inserted_row now gen uid p) = None"
  "n_publication_lease_until (inserted_row now gen uid p) = None"
  "n_health_alpha (inserted_row now gen uid p) = 1" "n_health_beta (inserted_row now gen uid p) = 1"
  "n_health_score (inserted_row now gen uid p) = 1 / 2"
  by (simp_all add: inserted_row_def new_node_def)

subsection \<open>A publication lease rests on a recorded success\<close>

definition leased :: "test_event set \<Rightarrow> node \<Rightarrow> bool" where
  "leased E n \<longleftrightarrow> (\<forall>t. n_publication_lease_until n = Some t \<longrightarrow>
     (\<exists>v \<in> E. te_proxy_id v = n_id n \<and> te_result v = ''SUCCESS'' \<and> t \<le> te_occurred_at v + hours 12))"

lemma lease_at_most: "lease_until stage fast now \<le> now + hours 12"
  by (cases stage) (simp_all add: lease_until_def time_defs)

lemma decide_lease_cases:
  assumes "hd_lease_until (decide draw i) = Some t"
  obtains (kept) "hi_prior_lease_until i = Some t"
  | (earned) "hi_class i = Success" "t \<le> hi_now i + hours 12"
  using assms lease_at_most [of "hi_stage i" "hi_fast_download i" "hi_now i"]
  by (auto simp: decide_def decide_lease_def Let_def max_def split: option.splits if_splits)

lemma leased_cong:
  "n_id m = n_id n \<Longrightarrow> n_publication_lease_until m = n_publication_lease_until n \<Longrightarrow> leased E m = leased E n"
  by (simp add: leased_def)

lemma leased_decided:
  assumes "leased E n" and "event_row now k e \<in> E" and "ti_proxy_id e = n_id n"
  shows "leased E (decided_row now e (decide draw (health_input now iv e n ev)) ev n)" (is "leased E ?m")
  unfolding leased_def
proof (intro allI impI)
  fix t assume "n_publication_lease_until ?m = Some t"
  then have "hd_lease_until (decide draw (health_input now iv e n ev)) = Some t"
    by (simp add: decided_row_def Let_def)
  then show "\<exists>v \<in> E. te_proxy_id v = n_id ?m \<and> te_result v = ''SUCCESS'' \<and> t \<le> te_occurred_at v + hours 12"
  proof (cases rule: decide_lease_cases)
    case kept
    with assms(1) show ?thesis by (simp add: leased_def health_input_def decided_row_def Let_def)
  next
    case earned
    with assms(2,3) show ?thesis
      by (intro bexI [of _ "event_row now k e"])
         (simp_all add: health_input_def decided_row_def event_row_def event_result_def Let_def)
  qed
qed

interpretation leases: row_invariant leased
proof
  fix E E' n assume "leased E n" "E \<subseteq> E'"
  then show "leased E' n" unfolding leased_def by blast
next
  fix E n m assume w: "row_write E n m" and n: "leased E n"
  from w show "leased E m"
  proof (cases rule: row_write.cases)
    case (Decide now k e ev pid ts draw iv)
    then show ?thesis using n by (simp add: leased_decided)
  qed (use n in \<open>simp_all add: row_defs leased_def\<close>)
qed (simp add: leased_def)

subsection \<open>The columns of the state agree\<close>

text \<open>A retired node, or one that was retired between its selection and the update of its claim.\<close>

definition withdrawn :: "node \<Rightarrow> bool" where
  "withdrawn n \<longleftrightarrow> n_lifecycle_state n = ''RETIRED'' \<or>
     n_lifecycle_state n = ''TESTING'' \<and> n_testing_from_state n = Some ''RETIRED''"

definition worded :: "test_event set \<Rightarrow> node \<Rightarrow> bool" where
  "worded E n \<longleftrightarrow>
     n_status n = n_lifecycle_state n \<and> n_lifecycle_state n \<in> range state_str \<and>
     (\<forall>v. n_testing_from_state n = Some v \<longrightarrow> v = ''RETIRED'' \<or> v \<in> fst ` set queue_order) \<and>
     n_structurally_valid n = (if n_lifecycle_state n = ''INVALID'' then 0 else 1) \<and>
     (withdrawn n \<longrightarrow> n_tombstone_until n \<noteq> None)"

lemma state_words:
  "range state_str = {''CANDIDATE'', ''TESTING'', ''ACTIVE'', ''PROBATION'', ''DORMANT'', ''INVALID'',
     ''RETIRED'', ''WAITING_FOR_PORT''}"
  unfolding UNIV_enum enum_LifecycleState_def by (simp only: list.set image_insert image_empty state_str.simps)

lemma queue_words: "v \<in> fst ` set queue_order \<longleftrightarrow> v \<in> {''CANDIDATE'', ''PROBATION'', ''DORMANT'', ''ACTIVE''}"
  by (simp add: queue_order_def)

lemma claimable_words:
  "claimable n \<longleftrightarrow> n_lifecycle_state n \<in> fst ` set queue_order \<or>
     n_lifecycle_state n = ''WAITING_FOR_PORT'' \<and> (\<exists>v \<in> fst ` set queue_order. n_waiting_from_state n = Some v)"
  unfolding claimable_def by blast

text \<open>What a claim remembers: the queue, or that the row was retired after its selection.\<close>

lemma claimed_from:
  assumes "claimable n \<or> n_lifecycle_state n = ''RETIRED''"
  obtains (queue) v where "v \<in> {''CANDIDATE'', ''PROBATION'', ''DORMANT'', ''ACTIVE''}"
      "n_testing_from_state (claimed_row now l n) = Some v"
  | (retired) "n_lifecycle_state n = ''RETIRED''" "n_testing_from_state (claimed_row now l n) = Some ''RETIRED''"
proof -
  consider "n_lifecycle_state n \<in> fst ` set queue_order"
    | v where "n_lifecycle_state n = ''WAITING_FOR_PORT''" "v \<in> fst ` set queue_order" "n_waiting_from_state n = Some v"
    | "n_lifecycle_state n = ''RETIRED''"
    using assms unfolding claimable_words by blast
  then show thesis
  proof cases
    case 1
    then have "n_lifecycle_state n \<in> {''CANDIDATE'', ''PROBATION'', ''DORMANT'', ''ACTIVE''}" by (simp only: queue_words)
    moreover from this have "n_lifecycle_state n \<noteq> ''WAITING_FOR_PORT''" by auto
    ultimately show thesis using queue by (simp add: claimed_row_def)
  next
    case (2 v)
    moreover from 2(2) have "v \<in> {''CANDIDATE'', ''PROBATION'', ''DORMANT'', ''ACTIVE''}" by (simp only: queue_words)
    ultimately show thesis using queue by (simp add: claimed_row_def)
  qed (use retired in \<open>simp add: claimed_row_def\<close>)
qed

lemma prior_of_word: "n_lifecycle_state n = state_str s \<Longrightarrow> s \<noteq> Testing \<Longrightarrow> prior_lifecycle n = s"
  using state_str_inj [of s Testing] by (simp add: prior_lifecycle_def del: state_str_inj)

lemma prior_of_testing:
  assumes "worded E n" and "n_lifecycle_state n = ''TESTING''"
  shows "prior_lifecycle n \<noteq> Invalid \<and> (prior_lifecycle n = Retired \<longleftrightarrow> n_testing_from_state n = Some ''RETIRED'')"
proof (cases "n_testing_from_state n")
  case None
  with assms show ?thesis by (simp add: worded_def prior_lifecycle_def state_of_str_def)
next
  case (Some v)
  then have "v \<in> {''RETIRED'', ''CANDIDATE'', ''PROBATION'', ''DORMANT'', ''ACTIVE''}"
    using assms(1) by (simp add: worded_def queue_words)
  with Some assms(2) show ?thesis
    by (elim insertE emptyE) (simp_all add: prior_lifecycle_def state_of_str_def)
qed

text \<open>A worded node is taken for INVALID only when it says so, and for RETIRED only when it is withdrawn.\<close>

lemma prior_of_worded:
  assumes "worded E n"
  shows "prior_lifecycle n = Invalid \<longleftrightarrow> n_lifecycle_state n = ''INVALID''"
    and "prior_lifecycle n = Retired \<longleftrightarrow> withdrawn n"
proof -
  obtain s where s: "n_lifecycle_state n = state_str s" using assms(1) by (auto simp: worded_def)
  have "(prior_lifecycle n = Invalid \<longleftrightarrow> n_lifecycle_state n = ''INVALID'') \<and>
      (prior_lifecycle n = Retired \<longleftrightarrow> withdrawn n)"
  proof (cases "s = Testing")
    case True
    then show ?thesis using prior_of_testing [OF assms(1)] s by (auto simp: withdrawn_def)
  next
    case False
    then show ?thesis using prior_of_word [OF s] s by (cases s) (auto simp: withdrawn_def)
  qed
  then show "prior_lifecycle n = Invalid \<longleftrightarrow> n_lifecycle_state n = ''INVALID''"
    "prior_lifecycle n = Retired \<longleftrightarrow> withdrawn n" by blast+
qed

lemma decide_words:
  "decide_lifecycle i = Invalid \<longleftrightarrow> hi_class i = InvalidConfig \<or> hi_prior_lifecycle i = Invalid"
  "decide_lifecycle i = Retired \<Longrightarrow> hi_prior_lifecycle i = Retired"
  by (auto simp: decide_lifecycle_def Let_def split: if_splits LifecycleState.splits)

lemma input_simps [simp]:
  "hi_class (health_input now iv e n ev) = ti_class e"
  "hi_prior_lifecycle (health_input now iv e n ev) = prior_lifecycle n"
  "hi_alpha (health_input now iv e n ev) = fst ev" "hi_beta (health_input now iv e n ev) = snd ev"
  "hd_lifecycle (decide draw i) = decide_lifecycle i"
  "hd_score (decide draw i) = health (hi_alpha i) (hi_beta i)"
  by (simp_all add: health_input_def decide_def)

lemma worded_decided:
  assumes "worded E n"
  shows "worded E (decided_row now e (decide draw (health_input now iv e n ev)) ev n)" (is "worded E ?m")
proof -
  let ?s = "decide_lifecycle (health_input now iv e n ev)"
  have m: "n_lifecycle_state ?m = state_str ?s" "n_status ?m = state_str ?s" "n_testing_from_state ?m = None"
    "n_structurally_valid ?m = (if ti_class e = InvalidConfig then 0 else n_structurally_valid n)"
    "n_tombstone_until ?m = n_tombstone_until n"
    by (simp_all add: decided_row_def Let_def)
  have "state_str ?s = ''INVALID'' \<longleftrightarrow> ?s = Invalid" "state_str ?s = ''RETIRED'' \<longleftrightarrow> ?s = Retired"
    using state_str_inj [of ?s Invalid] state_str_inj [of ?s Retired] by (simp_all del: state_str_inj)
  moreover have "?s = Invalid \<longleftrightarrow> ti_class e = InvalidConfig \<or> n_structurally_valid n = 0"
    using assms prior_of_worded(1) [OF assms] by (simp add: decide_words(1) worded_def)
  moreover have "?s = Retired \<Longrightarrow> n_tombstone_until n \<noteq> None"
    using assms prior_of_worded(2) [OF assms] decide_words(2) by (fastforce simp: worded_def)
  moreover have "n_structurally_valid n \<noteq> 0 \<Longrightarrow> n_structurally_valid n = 1"
    using assms by (simp add: worded_def split: if_splits)
  moreover have "withdrawn ?m \<longleftrightarrow> state_str ?s = ''RETIRED''" by (simp add: withdrawn_def m)
  ultimately show ?thesis unfolding worded_def by (simp add: m)
qed

lemma worded_write:
  assumes "row_write E n m" and "worded E n"
  shows "worded E m"
  using assms(1)
proof (cases rule: row_write.cases)
  case (Decide now k e ev pid ts draw iv)
  with assms(2) show ?thesis by (simp add: worded_decided)
next
  case (Claim now l)
  have rest: "n_lifecycle_state m = ''TESTING''" "n_status m = ''TESTING''" "n_structurally_valid m = 1"
    "n_tombstone_until m = n_tombstone_until n"
    using Claim(2) by (simp_all add: Claim(1) claimed_row_def)
  from Claim(3) show ?thesis
  proof (cases rule: claimed_from [where now = now and l = l])
    case (queue v)
    then show ?thesis using rest by (elim insertE emptyE) (auto simp: Claim(1) worded_def withdrawn_def queue_words state_words)
  next
    case retired
    then show ?thesis using rest assms(2) by (simp add: Claim(1) worded_def withdrawn_def state_words)
  qed
next
  case (Release now)
  show ?thesis
  proof (cases "n_testing_from_state n")
    case None
    with assms(2) Release show ?thesis by (simp add: worded_def release_row_def withdrawn_def)
  next
    case (Some v)
    then have "v = ''RETIRED'' \<or> v \<in> {''CANDIDATE'', ''PROBATION'', ''DORMANT'', ''ACTIVE''}"
      using assms(2) by (simp add: worded_def queue_words)
    with assms(2) Some Release show ?thesis
      by (elim disjE) (auto simp: worded_def release_row_def withdrawn_def state_words)
  qed
qed (use assms(2) in \<open>auto simp: worded_def row_defs state_words retirable_def restartable_def withdrawn_def\<close>)

interpretation words: row_invariant worded
proof
  fix E n m assume "row_write E n m" "worded E n"
  then show "worded E m" by (rule worded_write)
qed (simp_all add: worded_def state_words withdrawn_def)

subsection \<open>The health columns are what the evidence sums give\<close>

definition weighed :: "test_event set \<Rightarrow> node \<Rightarrow> bool" where
  "weighed E n \<longleftrightarrow>
     1 \<le> n_health_alpha n \<and> n_health_alpha n \<le> max_effective_alpha \<and>
     1 \<le> n_health_beta n \<and> n_health_beta n \<le> max_effective_beta \<and>
     n_health_score n = health (n_health_alpha n) (n_health_beta n)"

interpretation weights: row_invariant weighed
proof
  fix E n m assume w: "row_write E n m" and n: "weighed E n"
  from w show "weighed E m"
  proof (cases rule: row_write.cases)
    case (Decide now k e ev pid ts draw iv)
    then show ?thesis
      using evidence_sums_bounds [of now pid ts] by (simp add: weighed_def decided_row_def Let_def)
  qed (use n in \<open>simp_all add: row_defs weighed_def\<close>)
qed (simp_all add: weighed_def health_def clamp_def max_effective_alpha_def max_effective_beta_def)

section \<open>Properties\<close>

lemma empty_keys: "store_keys empty_db"
  by (simp add: store_keys_def unique_nodes_def empty_db_def)

lemma reachable_keys: "transactions empty_db d \<Longrightarrow> store_keys d"
  using transactions_lawful [of empty_db d] empty_keys by (simp add: lawful_upto_def)

lemma node_of_mem: "node_of k d = Some n \<Longrightarrow> n \<in> set (db_nodes d) \<and> n_id n = k"
  by (auto simp: node_of_def dest: find_row_Some)

text \<open>A store with one node, tested once: the rows the examples below look at.\<close>

definition born_store :: db where
  "born_store = snd (ingest_many 0 1 (\<lambda>_. ''a'') [sample_proxy] empty_db)"

definition tested_row :: "TestStage \<Rightarrow> FailureClass \<Rightarrow> test_event list \<Rightarrow> node" where
  "tested_row st c ts =
     (let n = inserted_row 0 1 ''a'' sample_proxy; e = sample_event ''a'' ''r1'' st c;
          ev = evidence_sums 0 ''a'' ts
      in decided_row 0 e (decide (\<lambda>x. x) (health_input 0 sample_intervals e n ev)) ev n)"

lemma born_store_nodes: "db_nodes born_store = [inserted_row 0 1 ''a'' sample_proxy]" "db_events born_store = []"
  by (simp_all add: born_store_def ingest_many_def ingest_step_def empty_db_def find_row_def add_member_def on_nodes_def)

lemma born_store_reached: "transactions empty_db born_store"
proof -
  have "fresh_for (\<lambda>_. ''a'') (length [sample_proxy]) empty_db"
    by (simp add: fresh_for_def ids_def empty_db_def inj_on_def)
  then have "transaction empty_db born_store" unfolding born_store_def by (rule transaction.Ingest)
  then show ?thesis by (rule r_into_rtranclp)
qed

lemma born_store_node:
  "node_of ''a'' born_store = Some (inserted_row 0 1 ''a'' sample_proxy)" "\<not> already_applied e born_store"
  by (simp_all add: node_of_def find_row_def born_store_nodes already_applied_def inserted_row_def new_node_def)

lemma born_store_tested:
  obtains r d ts where
    "apply_test_event 0 (\<lambda>x. x) sample_intervals (sample_event ''a'' ''r1'' st c) born_store = Inr (r, d)"
    "db_nodes d = [tested_row st c ts]"
proof -
  have "ti_proxy_id (sample_event ''a'' ''r1'' st c) = ''a''" "n_id (inserted_row 0 1 ''a'' sample_proxy) = ''a''"
    by (simp_all add: sample_event_def inserted_row_def new_node_def)
  then show thesis
    using that by (auto simp: apply_test_event_def born_store_node Let_def born_store_nodes update_where_def tested_row_def)
qed

lemma tested_store:
  obtains d ts where "transactions empty_db d" "db_nodes d = [tested_row st c ts]"
    "node_of ''a'' d = Some (tested_row st c ts)"
proof -
  obtain r d ts where d:
      "apply_test_event 0 (\<lambda>x. x) sample_intervals (sample_event ''a'' ''r1'' st c) born_store = Inr (r, d)"
      "db_nodes d = [tested_row st c ts]"
    by (rule born_store_tested)
  have "transactions empty_db d"
    using born_store_reached transaction.Apply [OF d(1)] by (rule rtranclp.rtrancl_into_rtrancl)
  moreover have "n_id (tested_row st c ts) = ''a''"
    by (simp add: tested_row_def decided_row_def Let_def inserted_row_def new_node_def)
  then have "node_of ''a'' d = Some (tested_row st c ts)" by (simp add: node_of_def find_row_def d(2))
  ultimately show thesis using d(2) that by blast
qed

text \<open>C2. What is published rests on evidence: whatever the tasks of the program did to the
  store, in whatever order, every configuration of the publication snapshot belongs to a
  node that is structurally valid, neither INVALID nor RETIRED, and for which a successful
  test less than twelve hours old is on record.\<close>

theorem published_rests_on_success:
  assumes "transactions empty_db d" and "raw \<in> set (ps_raw_configs (publication_snapshot now d))"
  shows "\<exists>n \<in> set (db_nodes d). n_raw_config n = raw \<and> n_structurally_valid n = 1 \<and>
    n_lifecycle_state n \<notin> {''INVALID'', ''RETIRED''} \<and>
    (\<exists>v \<in> set (db_events d). te_proxy_id v = n_id n \<and> te_result v = ''SUCCESS'' \<and>
       now - hours 12 < te_occurred_at v)"
proof -
  obtain n where n: "n \<in> set (db_nodes d)" "publishable now n" "n_raw_config n = raw"
    using assms(2) by (auto simp: publication_snapshot_def)
  then obtain t where t: "n_publication_lease_until n = Some t" "now < t"
    by (cases "n_publication_lease_until n") (auto simp: publishable_def)
  have "leased (set (db_events d)) n" using leases.from_empty [OF assms(1)] n(1) by blast
  with t n show ?thesis by (fastforce simp: leased_def publishable_def)
qed

theorem published_rests_on_success_witness:
  "\<exists>d. transactions empty_db d \<and> ps_raw_configs (publication_snapshot 0 d) = [''trojan://pw@h:443''] \<and>
     (\<exists>v \<in> set (db_events d). te_result v = ''SUCCESS'')"
proof -
  obtain d ts where d: "transactions empty_db d" "db_nodes d = [tested_row Download Success ts]"
    by (rule tested_store)
  have raw: "n_raw_config (tested_row Download Success ts) = ''trojan://pw@h:443''"
    by (simp add: tested_row_def decided_row_def Let_def inserted_row_def sample_proxy_def)
  have "publishable 0 (tested_row Download Success ts)"
    by (simp add: tested_row_def decided_row_def Let_def publishable_def inserted_row_def new_node_def
        sample_event_def health_input_def decide_def decide_lease_def decide_lifecycle_def prior_lifecycle_def
        state_of_str_def lease_until_def time_defs)
  then have "ps_raw_configs (publication_snapshot 0 d) = [''trojan://pw@h:443'']"
    by (simp add: publication_snapshot_def d(2) raw)
  moreover from this have "''trojan://pw@h:443'' \<in> set (ps_raw_configs (publication_snapshot 0 d))" by simp
  from published_rests_on_success [OF d(1) this] have "\<exists>v \<in> set (db_events d). te_result v = ''SUCCESS''" by blast
  ultimately show ?thesis using d(1) by blast
qed

text \<open>C5. The table stays consistent: in every store the transactions can reach, no two nodes
  share an identifier or a configuration, no run and stage of a node is recorded twice, the
  eight state columns of the counts add up to the number of nodes, the status of a node is
  its lifecycle state, exactly the INVALID nodes are marked structurally invalid, and every
  RETIRED node has a tombstone, so that its removal is only a matter of time.\<close>

theorem store_stays_consistent:
  assumes "transactions empty_db d"
  shows "unique_nodes d \<and> distinct (map event_key (db_events d)) \<and>
    fc_candidate (counts now d) + fc_testing (counts now d) + fc_active (counts now d) +
      fc_probation (counts now d) + fc_dormant (counts now d) + fc_invalid (counts now d) +
      fc_retired (counts now d) + fc_waiting_for_port (counts now d) = int (length (db_nodes d)) \<and>
    (\<forall>n \<in> set (db_nodes d). n_status n = n_lifecycle_state n \<and>
       n_structurally_valid n = (if n_lifecycle_state n = ''INVALID'' then 0 else 1) \<and>
       (n_lifecycle_state n = ''RETIRED'' \<longrightarrow>
          (\<exists>t. n_tombstone_until n = Some t \<and> node_of (n_id n) (snd (cleanup_retired t d)) = None)))"
proof -
  have keys: "store_keys d" using assms by (rule reachable_keys)
  have rows: "\<forall>n \<in> set (db_nodes d). worded E n" for E
    using words.from_empty [OF assms] by (simp add: worded_def)
  have "\<forall>n \<in> set (db_nodes d). \<exists>s. n_lifecycle_state n = state_str s"
    using rows unfolding worded_def by blast
  note eight_states [OF this]
  moreover have "node_of (n_id n) (snd (cleanup_retired t d)) = None"
    if n: "n \<in> set (db_nodes d)" "n_lifecycle_state n = ''RETIRED''" "n_tombstone_until n = Some t" for n t
  proof -
    have "expired_tombstone t n" using n(2,3) by (simp add: expired_tombstone_def)
    moreover have "m = n" if "m \<in> set (db_nodes d)" "n_id m = n_id n" for m
      using that n(1) store_keys_simps(2) [OF keys] by (auto simp: distinct_map inj_on_def)
    ultimately show ?thesis by (auto simp: cleanup_retired_def node_of_def find_row_None)
  qed
  ultimately show ?thesis
    using keys rows by (auto simp: store_keys_def worded_def withdrawn_def)
qed

theorem store_stays_consistent_witness:
  "\<exists>d. transactions empty_db d \<and> unique_nodes d \<and> length (db_nodes d) = 1"
proof -
  obtain d ts where d: "transactions empty_db d" "db_nodes d = [tested_row Download Success ts]"
    by (rule tested_store)
  from store_stays_consistent [OF d(1)] d show ?thesis by auto
qed

text \<open>The score keeps a margin: no history of tests drives the score of a node below 1/65
  or above 24/25, since the evidence starts at one on either side and is capped at 24 and
  64; the stored score is always the one its two columns give, so no node is ever certainly good or certainly
  bad.\<close>

theorem score_keeps_margin:
  assumes "transactions empty_db d" and "n \<in> set (db_nodes d)"
  shows "1 / 65 \<le> n_health_score n \<and> n_health_score n \<le> 24 / 25 \<and>
    n_health_score n = n_health_alpha n / (n_health_alpha n + n_health_beta n)"
proof -
  have w: "weighed E n" for E
    using weights.from_empty [OF assms(1)] assms(2) by (simp add: weighed_def)
  let ?a = "n_health_alpha n" and ?b = "n_health_beta n"
  have r: "1 \<le> ?a" "?a \<le> 24" "1 \<le> ?b" "?b \<le> 64"
    using w by (simp_all add: weighed_def max_effective_alpha_def max_effective_beta_def)
  have q: "0 \<le> ?a / (?a + ?b)" "?a / (?a + ?b) \<le> 1" using r by simp_all
  have "n_health_score n = health ?a ?b" using w by (simp add: weighed_def)
  also have "\<dots> = ?a / (?a + ?b)" using r clamp_id [OF q] by (simp add: health_def)
  finally have s: "n_health_score n = ?a / (?a + ?b)" .
  moreover have "1 / 65 \<le> ?a / (?a + ?b)" using r by (simp add: field_simps)
  moreover have "?a / (?a + ?b) \<le> 24 / 25" using r by (simp add: field_simps)
  ultimately show ?thesis by simp
qed

theorem score_keeps_margin_witness:
  "\<exists>d n. transactions empty_db d \<and> n \<in> set (db_nodes d) \<and> n_health_score n \<le> 24 / 25"
proof -
  obtain d ts where d: "transactions empty_db d" "db_nodes d = [tested_row Download Success ts]"
    by (rule tested_store)
  then have "tested_row Download Success ts \<in> set (db_nodes d)" by simp
  from score_keeps_margin [OF d(1) this] this d(1) show ?thesis by blast
qed

subsection \<open>An invalid configuration stays invalid\<close>

lemma invalid_write:
  assumes "row_write E n m" and "worded E n" and "n_lifecycle_state n = ''INVALID''"
  shows "n_lifecycle_state m = ''INVALID'' \<and> n_id m = n_id n"
proof -
  have v: "n_structurally_valid n = 0" using assms(2,3) by (simp add: worded_def)
  from assms(1) show ?thesis
  proof (cases rule: row_write.cases)
    case (Decide now k e ev pid ts draw iv)
    have "prior_lifecycle n = Invalid" using prior_of_word [of n Invalid] assms(3) by simp
    then have "decide_lifecycle (health_input now iv e n ev) = Invalid" by (simp add: decide_words(1))
    then show ?thesis by (simp add: Decide(1) decided_row_def Let_def)
  qed (use v assms(3) in \<open>auto simp: row_defs retirable_def restartable_def test_due_def\<close>)
qed

lemma invalid_writes:
  "(row_write E)\<^sup>*\<^sup>* n m \<Longrightarrow> worded E n \<Longrightarrow> n_lifecycle_state n = ''INVALID'' \<Longrightarrow>
     n_lifecycle_state m = ''INVALID'' \<and> n_id m = n_id n \<and> worded E m"
  by (induction rule: rtranclp_induct) (auto dest: invalid_write worded_write)

text \<open>C6. An invalid configuration is final: once a node is INVALID, no refresh, revival, claim,
  test result or clean-up ever changes that or removes the node, and it is never claimed
  for a test, never offered to a client and never published again.\<close>

theorem invalid_is_final:
  assumes "transactions empty_db d" and "transactions d d'"
    and "node_of k d = Some n" and "n_lifecycle_state n = ''INVALID''"
  shows "\<exists>m. node_of k d' = Some m \<and> n_lifecycle_state m = ''INVALID'' \<and> n_structurally_valid m = 0 \<and>
    \<not> publishable now m \<and> \<not> servable now m \<and>
    (\<forall>queue \<in> set queue_order. \<forall>r \<in> set (eligible (fst queue) now (db_nodes d')). n_id (fst r) \<noteq> k)"
proof -
  have n: "n \<in> set (db_nodes d)" "n_id n = k" using node_of_mem [OF assms(3)] by simp_all
  have reach: "transactions empty_db d'" using assms(1,2) by (rule rtranclp_trans)
  have w: "worded (set (db_events d')) n"
    using words.from_empty [OF assms(1)] n(1) by (simp add: worded_def)
  have "evolves d d'"
    using transactions_lawful [OF assms(2)] reachable_keys [OF assms(1)] by (simp add: lawful_upto_def)
  then obtain m where m: "m \<in> set (db_nodes d') \<or> n_lifecycle_state m = ''RETIRED''"
      "(row_write (set (db_events d')))\<^sup>*\<^sup>* n m"
    using n(1) by (rule evolves_target) auto
  have i: "n_lifecycle_state m = ''INVALID''" "n_id m = k" "worded (set (db_events d')) m"
    using invalid_writes [OF m(2) w assms(4)] n(2) by simp_all
  then have mem: "m \<in> set (db_nodes d')" using m(1) by simp
  have keys: "store_keys d'" using reach by (rule reachable_keys)
  have "node_of k d' = Some m" using node_of_row [OF keys mem] i(2) by simp
  moreover have valid: "n_structurally_valid m = 0" using i by (simp add: worded_def)
  moreover have "n_id (fst r) \<noteq> k" if "r \<in> set (eligible s now (db_nodes d'))" for r s
  proof
    assume "n_id (fst r) = k"
    moreover have "fst r \<in> set (db_nodes d')" "test_due now (fst r)" using that by (auto simp: eligible_def)
    ultimately have "fst r = m"
      using mem i(2) store_keys_simps(2) [OF keys] by (auto simp: distinct_map inj_on_def)
    with \<open>test_due now (fst r)\<close> valid show False by (simp add: test_due_def)
  qed
  ultimately show ?thesis using i(1) by (auto simp: publishable_def servable_def)
qed

theorem invalid_is_final_witness:
  "\<exists>d m. node_of ''a'' (snd (revive_node 5 ''a'' (snd (revive_dormant 3 d)))) = Some m \<and>
     n_lifecycle_state m = ''INVALID''"
proof -
  obtain d ts where d: "transactions empty_db d" "node_of ''a'' d = Some (tested_row Static InvalidConfig ts)"
    by (rule tested_store)
  have "transactions d (snd (revive_node 5 ''a'' (snd (revive_dormant 3 d))))"
    by (meson transaction.Revive_Dormant transaction.Revive_Node converse_rtranclp_into_rtranclp r_into_rtranclp)
  moreover have "n_lifecycle_state (tested_row Static InvalidConfig ts) = ''INVALID''"
    by (simp add: tested_row_def decided_row_def Let_def decide_words(1) decide_lifecycle_def sample_event_def)
  ultimately show ?thesis using invalid_is_final [OF d(1) _ d(2)] by blast
qed

subsection \<open>What is proven stays published\<close>

text \<open>A row that holds a lease until \<open>l\<close> or longer, and was retired, if at all, not before \<open>l\<close>.\<close>

definition held :: "instant \<Rightarrow> node \<Rightarrow> bool" where
  "held l n \<longleftrightarrow> (\<exists>u. n_publication_lease_until n = Some u \<and> l \<le> u) \<and>
     (withdrawn n \<longrightarrow> (\<exists>s. n_retired_at n = Some s \<and> l \<le> s))"

lemma held_write:
  assumes "row_write E n m" and "worded E n" and "held l n"
  shows "held l m"
  using assms(1)
proof (cases rule: row_write.cases)
  case (Decide now k e ev pid ts draw iv)
  let ?i = "health_input now iv e n ev"
  obtain u where u: "n_publication_lease_until n = Some u" "l \<le> u" using assms(3) by (auto simp: held_def)
  have "\<exists>v. hd_lease_until (decide draw ?i) = Some v \<and> u \<le> v"
    using decide_lease_prior [of ?i u] u(1) by (simp add: health_input_def decide_def)
  moreover have "withdrawn n" if "state_str (decide_lifecycle ?i) = ''RETIRED''"
  proof -
    have "decide_lifecycle ?i = Retired"
      using that state_str_inj [of "decide_lifecycle ?i" Retired] by (simp del: state_str_inj)
    then show ?thesis using decide_words(2) prior_of_worded(2) [OF assms(2)] by fastforce
  qed
  ultimately show ?thesis
    using assms(3) u(2) by (fastforce simp: Decide(1) held_def withdrawn_def decided_row_def Let_def)
next
  case (Release now)
  then show ?thesis
    using assms(3) by (cases "n_testing_from_state n") (auto simp: held_def withdrawn_def release_row_def)
next
  case (Claim now l')
  have rest: "n_publication_lease_until m = n_publication_lease_until n" "n_retired_at m = n_retired_at n"
    "n_lifecycle_state m = ''TESTING''"
    by (simp_all add: Claim(1) claimed_row_def)
  from Claim(3) show ?thesis
  proof (cases rule: claimed_from [where now = now and l = l'])
    case (queue v)
    then show ?thesis using rest assms(3) by (auto simp: Claim(1) held_def withdrawn_def)
  next
    case retired
    then show ?thesis using rest assms(3) by (auto simp: held_def withdrawn_def)
  qed
qed (use assms(3) in \<open>auto simp: held_def row_defs retirable_def withdrawn_def restartable_def\<close>)

lemma held_writes:
  "(row_write E)\<^sup>*\<^sup>* n m \<Longrightarrow> worded E n \<Longrightarrow> held l n \<Longrightarrow> worded E m \<and> held l m \<and> n_id m = n_id n"
proof (induction rule: rtranclp_induct)
  case (step m m')
  moreover have "n_id m' = n_id m" using step.hyps(2) by (cases rule: row_write.cases) (simp_all add: row_defs)
  ultimately show ?case using worded_write held_write by metis
qed simp

lemma reachable_worded: "transactions empty_db d \<Longrightarrow> n \<in> set (db_nodes d) \<Longrightarrow> worded E n"
  using words.from_empty [of d] by (simp add: worded_def)

lemma success_is_held:
  assumes "transactions empty_db d" and "apply_test_event now draw iv e d = Inr (r, d1)"
    and "\<not> already_applied e d" and "ti_class e = Success"
    and "node_of (ti_proxy_id e) d = Some n" and "prior_lifecycle n \<notin> {Invalid, Retired}"
  obtains m where "node_of (ti_proxy_id e) d1 = Some m" "m \<in> set (db_nodes d1)"
    "held (lease_until (ti_stage e) (ti_fast_download e) now) m"
    "ti_stage e = Download \<Longrightarrow> ta_lifecycle_state r = ''ACTIVE''"
  using assms(2)
proof (cases rule: apply_cases)
  case (fresh n' ev dec)
  then have n': "n' = n" using assms(5) by simp
  let ?m = "decided_row now e dec ev n"
  have m: "node_of (ti_proxy_id e) d1 = Some ?m"
    using assms(5) node_of_id [OF assms(5)] by (simp add: fresh(5) decided.node_of_upd)
  note prior = assms(6)
  have state: "n_lifecycle_state ?m = state_str (decide_lifecycle (health_input now iv e n ev))"
    by (simp add: fresh(4) n' decided_row_def Let_def)
  have "\<exists>u. hd_lease_until dec = Some u \<and> lease_until (ti_stage e) (ti_fast_download e) now \<le> u"
    using assms(4)
    by (cases "n_publication_lease_until n")
       (simp_all add: fresh(4) n' decide_def decide_lease_def health_input_def Let_def)
  moreover have "decide_lifecycle (health_input now iv e n ev) \<noteq> Retired" using decide_words(2) prior by fastforce
  then have "state_str (decide_lifecycle (health_input now iv e n ev)) \<noteq> ''RETIRED''"
    using state_str_inj [of _ Retired] by (metis state_str.simps(7))
  ultimately have "held (lease_until (ti_stage e) (ti_fast_download e) now) ?m"
    by (simp add: held_def withdrawn_def state) (simp add: decided_row_def Let_def)
  moreover have "ta_lifecycle_state r = ''ACTIVE''" if "ti_stage e = Download"
    using that assms(4) prior by (simp add: fresh(4,6) n' decide_lifecycle_def Let_def health_input_def)
  ultimately show thesis using that m node_of_mem [OF m] by blast
qed (use assms(3) in simp)

lemma transaction_stays:
  assumes "transaction d d'" and "store_keys d" and "n \<in> set (db_nodes d)" and "n_lifecycle_state n \<noteq> ''RETIRED''"
  obtains m where "m \<in> set (db_nodes d')" "(row_write (set (db_events d')))\<^sup>*\<^sup>* n m"
proof -
  consider "lawful_upto False d d'" | now where "d' = snd (cleanup_retired now d)"
    using transaction_kept [OF assms(1)] by blast
  then show thesis
  proof cases
    case 1
    then have "evolves_upto False d d'" using assms(2) by (simp add: lawful_upto_def)
    then show thesis using assms(3) that by (rule evolves_target) simp
  next
    case 2
    then have "n \<in> set (db_nodes d')"
      using assms(3,4) by (simp add: cleanup_retired_def expired_tombstone_def)
    then show thesis using that by blast
  qed
qed

lemma held_until_retired:
  assumes "transactions d1 d2" and "transactions empty_db d1" and "node_of k d1 = Some n" and "held l n"
  shows "(\<exists>m. node_of k d2 = Some m \<and> held l m) \<or>
    (\<exists>d m. transactions d1 d \<and> transactions d d2 \<and> node_of k d = Some m \<and>
       n_lifecycle_state m = ''RETIRED'' \<and> held l m)"
  using assms(1)
proof (induction rule: rtranclp_induct)
  case (step d d')
  have reach: "transactions empty_db d" using assms(2) step.hyps(1) by (rule rtranclp_trans)
  have reach': "transactions empty_db d'" using reach step.hyps(2) by (rule rtranclp.rtrancl_into_rtrancl)
  from step.IH show ?case
  proof
    assume "\<exists>m. node_of k d = Some m \<and> held l m"
    then obtain m where m: "node_of k d = Some m" "held l m" by blast
    note mem = node_of_mem [OF m(1)]
    show ?thesis
    proof (cases "n_lifecycle_state m = ''RETIRED''")
      case True
      then show ?thesis using m step.hyps by blast
    next
      case False
      obtain m' where m': "m' \<in> set (db_nodes d')" "(row_write (set (db_events d')))\<^sup>*\<^sup>* m m'"
        using transaction_stays [OF step.hyps(2) reachable_keys [OF reach] _ False] mem by blast
      have "worded (set (db_events d')) m" using reachable_worded [OF reach] mem by blast
      from held_writes [OF m'(2) this m(2)] have "held l m'" "n_id m' = k" using mem by simp_all
      then show ?thesis using node_of_row [OF reachable_keys [OF reach'] m'(1)] by blast
    qed
  next
    assume "\<exists>d0 m. transactions d1 d0 \<and> transactions d0 d \<and> node_of k d0 = Some m \<and>
       n_lifecycle_state m = ''RETIRED'' \<and> held l m"
    then show ?thesis using step.hyps(2) by (meson rtranclp.rtrancl_into_rtrancl)
  qed
qed (use assms(3,4) in blast)

text \<open>C3. What is proven stays published: a new successful result for a node that is not taken for
  INVALID or RETIRED, recorded in any reachable store, has its configuration in every publication
  until the lease of that success ends (for a real download six hours or more), whatever the
  tasks do meanwhile: failures, claims, tests cut short, waits for a port, refreshes, revivals
  and restarts withdraw nothing. Only a result that finds the configuration INVALID does, or
  a retirement, which happens at an instant after the end of the lease. A real download makes
  the node ACTIVE at once.\<close>

theorem proven_node_stays_published:
  assumes "transactions empty_db d" and "apply_test_event now draw iv e d = Inr (r, d1)"
    and "\<not> already_applied e d" and "ti_class e = Success"
    and "node_of (ti_proxy_id e) d = Some n" and "prior_lifecycle n \<notin> {Invalid, Retired}"
    and "transactions d1 d2"
  shows "(ti_stage e = Download \<longrightarrow> ta_lifecycle_state r = ''ACTIVE'') \<and>
    ((\<exists>m. node_of (ti_proxy_id e) d2 = Some m \<and>
       (n_lifecycle_state m = ''INVALID'' \<or>
        (\<forall>t < lease_until (ti_stage e) (ti_fast_download e) now.
           n_raw_config m \<in> set (ps_raw_configs (publication_snapshot t d2))))) \<or>
     (\<exists>d3 m s. transactions d1 d3 \<and> transactions d3 d2 \<and> node_of (ti_proxy_id e) d3 = Some m \<and>
        n_lifecycle_state m = ''RETIRED'' \<and> n_retired_at m = Some s \<and>
        lease_until (ti_stage e) (ti_fast_download e) now \<le> s))"
proof -
  let ?l = "lease_until (ti_stage e) (ti_fast_download e) now"
  obtain n1 where n1: "node_of (ti_proxy_id e) d1 = Some n1" "held ?l n1"
      "ti_stage e = Download \<Longrightarrow> ta_lifecycle_state r = ''ACTIVE''"
    using success_is_held [OF assms(1-6)] by blast
  have reach1: "transactions empty_db d1"
    using assms(1) transaction.Apply [OF assms(2)] by (rule rtranclp.rtrancl_into_rtrancl)
  have reach2: "transactions empty_db d2" using reach1 assms(7) by (rule rtranclp_trans)
  have published: "n_raw_config m \<in> set (ps_raw_configs (publication_snapshot t d2))"
    if m: "node_of (ti_proxy_id e) d2 = Some m" "held ?l m" and t: "t < ?l"
      and "n_lifecycle_state m \<noteq> ''INVALID''" "n_lifecycle_state m \<noteq> ''RETIRED''" for m t
  proof -
    have mem: "m \<in> set (db_nodes d2)" using node_of_mem [OF m(1)] by blast
    then have "worded (set (db_events d2)) m" by (rule reachable_worded [OF reach2])
    then have "publishable t m" using that by (auto simp: publishable_def held_def worded_def)
    then show ?thesis using mem by (auto simp: publication_snapshot_def)
  qed
  from held_until_retired [OF assms(7) reach1 n1(1,2)] show ?thesis
  proof (elim disjE exE conjE)
    fix m assume m: "node_of (ti_proxy_id e) d2 = Some m" "held ?l m"
    then show ?thesis
      using n1(3) published [OF m] assms(7) by (cases "n_lifecycle_state m = ''RETIRED''") (auto simp: held_def withdrawn_def)
  qed (use n1(3) in \<open>auto simp: held_def withdrawn_def\<close>)
qed

theorem proven_node_stays_published_witness:
  "\<exists>r d1. apply_test_event 0 (\<lambda>x. x) sample_intervals (sample_event ''a'' ''r1'' Download Success) born_store = Inr (r, d1) \<and>
     ta_lifecycle_state r = ''ACTIVE'' \<and>
     ps_raw_configs (publication_snapshot (hours 5) (mark_waiting_for_port 3 ''a'' 1 d1)) = [''trojan://pw@h:443'']"
proof -
  let ?e = "sample_event ''a'' ''r1'' Download Success" and ?row = "\<lambda>ts. tested_row Download Success ts"
  obtain r d1 ts where d1: "apply_test_event 0 (\<lambda>x. x) sample_intervals ?e born_store = Inr (r, d1)"
      "db_nodes d1 = [?row ts]"
    by (rule born_store_tested)
  have e: "ti_proxy_id ?e = ''a''" "ti_stage ?e = Download" "ti_class ?e = Success" by (simp_all add: sample_event_def)
  have row: "n_structurally_valid (?row ts) = 1" "n_id (?row ts) = ''a''"
    "n_raw_config (?row ts) = ''trojan://pw@h:443''" "n_publication_lease_until (?row ts) = Some (hours 6)"
    by (simp_all add: tested_row_def decided_row_def Let_def inserted_row_def new_node_def sample_event_def
        sample_proxy_def decide_def decide_lease_def health_input_def lease_until_def)
  have "ps_raw_configs (publication_snapshot (hours 5) (mark_waiting_for_port 3 ''a'' 1 d1)) = [''trojan://pw@h:443'']"
    by (simp add: publication_snapshot_def mark_waiting_for_port_def update_where_def d1(2) waiting_row_def
        publishable_def row time_defs)
  moreover have "transactions d1 (mark_waiting_for_port 3 ''a'' 1 d1)"
    by (rule r_into_rtranclp) (rule transaction.Wait)
  from proven_node_stays_published [OF born_store_reached d1(1) born_store_node(2) e(3) _ _ this] e(1,2)
  have "ta_lifecycle_state r = ''ACTIVE''"
    by (simp add: born_store_node prior_of_word [of _ Candidate])
  ultimately show ?thesis using d1(1) by blast
qed

end
