(* ===== verification/Runtime.thy ===== *)
theory Runtime
  imports Scheduler Clients "HOL-Library.Multiset"
begin

text \<open>
  The persistent Xray runtimes and the VIP runtime (\<open>src/src/xray/runtime.rs\<close>).

  \<^item> The manager is the state behind its three mutexes: the running processes by node, the
    nodes whose start-up is in flight, and the VIP runtime. \<open>runtime_state\<close> adds what its
    operations also write: the process-wide port reservations and the database.
  \<^item> What the operating system and the Xray child do is a \<open>start_obs\<close> (theory Xray); the
    effects on files and children are returned as a list.
  \<^item> \<open>ensure\<close> is the composition of the sections that each hold one lock. The step
    relation at the end interleaves these sections for any number of concurrent calls.
\<close>

section \<open>State\<close>

record PersistentRuntime =
  run_port :: u16
  run_started_at :: instant

record VipRuntime =
  vr_node_id :: string
  vr_score :: real
  vr_raw_config :: string
  vr_started_at :: instant

record RuntimeManager =
  rm_inner :: "(string \<times> PersistentRuntime) list"
  rm_starting :: "string list"
  rm_vip :: "VipRuntime option"

definition empty_manager :: RuntimeManager where
  "empty_manager = \<lparr>rm_inner = [], rm_starting = [], rm_vip = None\<rparr>"

record runtime_state =
  rs_mgr :: RuntimeManager
  rs_ports :: "u16 set"
  rs_db :: db

text \<open>What one call sees: the clock, the ports that can be bound, what other tasks do to the
  reservations meanwhile, the start of the child, its stop when it turns out redundant,
  and the failure of the statement that records the port.\<close>

record ensure_env =
  en_now :: instant
  en_bindable :: "u16 \<Rightarrow> bool"
  en_others :: "u16 \<Rightarrow> u16 set \<Rightarrow> u16 set"
  en_start :: start_obs
  en_redundant :: stop_obs
  en_db_error :: "string option"

section \<open>Ensuring a runtime\<close>

definition port_for :: "string \<Rightarrow> RuntimeManager \<Rightarrow> u16 option" where
  "port_for nid m = map_option run_port (map_of (rm_inner m) nid)"

definition active_count :: "RuntimeManager \<Rightarrow> nat" where
  "active_count m = length (rm_inner m)"

definition starting_count :: "RuntimeManager \<Rightarrow> nat" where
  "starting_count m = length (rm_starting m)"

definition cap_reached :: "nat \<Rightarrow> string" where
  "cap_reached cap = ''persistent Xray runtime cap ('' @ show_nat cap @ '') reached''"

text \<open>The section that holds the lock of the start-ups in flight.\<close>

definition reserve_slot :: "nat \<Rightarrow> string \<Rightarrow> RuntimeManager \<Rightarrow> string + RuntimeManager" where
  "reserve_slot cap nid m =
     (if nid \<in> set (rm_starting m) then Inl (''runtime startup already in progress for '' @ nid)
      else if cap \<le> active_count m + starting_count m then Inl (cap_reached cap)
      else Inr (m\<lparr>rm_starting := nid # rm_starting m\<rparr>))"

definition release_slot :: "string \<Rightarrow> RuntimeManager \<Rightarrow> RuntimeManager" where
  "release_slot nid m = m\<lparr>rm_starting := filter (\<lambda>x. x \<noteq> nid) (rm_starting m)\<rparr>"

text \<open>The section that holds the lock of the running processes: a runtime that another call
  registered meanwhile is kept.\<close>

definition register ::
  "instant \<Rightarrow> string \<Rightarrow> u16 \<Rightarrow> RuntimeManager \<Rightarrow> u16 option \<times> RuntimeManager" where
  "register now nid port m =
     (case port_for nid m of
        Some p \<Rightarrow> (Some p, m)
      | None \<Rightarrow> (None, m\<lparr>rm_inner := (nid, \<lparr>run_port = port, run_started_at = now\<rparr>) # rm_inner m\<rparr>))"

text \<open>From a free port to a child that serves it; a failed start gives the port back.\<close>

definition start_on_free_port ::
  "libs \<Rightarrow> (u16 \<Rightarrow> bool) \<Rightarrow> (u16 \<Rightarrow> u16 set \<Rightarrow> u16 set) \<Rightarrow> start_obs \<Rightarrow> PortRange \<Rightarrow> string \<Rightarrow>
   ParsedProxy \<Rightarrow> u16 set \<Rightarrow> (string + u16) \<times> u16 set \<times> xray_effect list" where
  "start_on_free_port L bindable others w r listen proxy S =
     (case allocate_port bindable others (range_ports r) S of
        (Inl e, S') \<Rightarrow> (Inl e, S', [])
      | (Inr p, S') \<Rightarrow>
          (case start_at_port L w proxy p listen of
             (Inl e, es) \<Rightarrow> (Inl e, S' - {p}, es)
           | (Inr _, es) \<Rightarrow> (Inr p, S', es)))"

definition ensure_runtime ::
  "libs \<Rightarrow> AppConfig \<Rightarrow> ensure_env \<Rightarrow> string \<Rightarrow> string \<Rightarrow> runtime_state \<Rightarrow>
   (string + u16) \<times> runtime_state \<times> xray_effect list" where
  "ensure_runtime L cfg w nid raw s =
     (case port_for nid (rs_mgr s) of
        Some p \<Rightarrow> (Inr p, s, [])
      | None \<Rightarrow>
     (case parse_share_url L raw ''runtime'' of
        Inl e \<Rightarrow> (Inl e, s, [])
      | Inr proxy \<Rightarrow>
     (case reserve_slot (hc_max_active_runtimes (cfg_health cfg)) nid (rs_mgr s) of
        Inl e \<Rightarrow> (Inl e, s, [])
      | Inr m \<Rightarrow>
     (case start_on_free_port L (en_bindable w) (en_others w) (en_start w)
             (ports_main (cfg_ports cfg)) ''0.0.0.0'' proxy (rs_ports s) of
        (Inl e, S, es) \<Rightarrow> (Inl e, s\<lparr>rs_mgr := release_slot nid m, rs_ports := S\<rparr>, es)
      | (Inr port, S, es) \<Rightarrow>
     (case register (en_now w) nid port (release_slot nid m) of
        (Some p, m') \<Rightarrow>
          (Inr p, s\<lparr>rs_mgr := m', rs_ports := S - {port}\<rparr>, es @ stop_session (en_redundant w))
      | (None, m') \<Rightarrow>
     (case en_db_error w of
        Some e \<Rightarrow> (Inl e, s\<lparr>rs_mgr := m', rs_ports := S\<rparr>, es)
      | None \<Rightarrow>
          (Inr port,
           s\<lparr>rs_mgr := m', rs_ports := S, rs_db := set_main_port (en_now w) nid port (rs_db s)\<rparr>,
           es)))))))"

section \<open>Stopping and shutting down\<close>

text \<open>A session that is stopped is dropped: its reservation ends with it.\<close>

definition stop_runtime ::
  "instant \<Rightarrow> stop_obs \<Rightarrow> bool \<Rightarrow> string \<Rightarrow> runtime_state \<Rightarrow> runtime_state \<times> xray_effect list" where
  "stop_runtime now w clear_ok nid s =
     (let m = rs_mgr s;
          running = map_of (rm_inner m) nid;
          d = if clear_ok then clear_main_port now nid (rs_db s) else rs_db s
      in (s\<lparr>rs_mgr := m\<lparr>rm_inner := filter (\<lambda>(k, _). k \<noteq> nid) (rm_inner m)\<rparr>,
            rs_ports := (case running of None \<Rightarrow> rs_ports s | Some r \<Rightarrow> rs_ports s - {run_port r}),
            rs_db := d\<rparr>,
          case running of None \<Rightarrow> [] | Some r \<Rightarrow> stop_session w))"

definition shutdown ::
  "instant \<Rightarrow> (string \<Rightarrow> stop_obs) \<Rightarrow> (string \<Rightarrow> bool) \<Rightarrow> stop_obs \<Rightarrow> runtime_state \<Rightarrow>
   (nat \<times> nat) \<times> runtime_state \<times> xray_effect list" where
  "shutdown now w clear_ok vip_stop s =
     (let m = rs_mgr s; running = rm_inner m
      in ((length running, case rm_vip m of None \<Rightarrow> 0 | Some _ \<Rightarrow> 1),
          s\<lparr>rs_mgr := m\<lparr>rm_inner := [], rm_vip := None\<rparr>,
            rs_ports := rs_ports s - (run_port \<circ> snd) ` set running,
            rs_db := fold (\<lambda>(nid, _) d. if clear_ok nid then clear_main_port now nid d else d)
                       running (rs_db s)\<rparr>,
          concat (map (\<lambda>(nid, _). stop_session (w nid)) running) @
          (case rm_vip m of None \<Rightarrow> [] | Some _ \<Rightarrow> stop_session vip_stop)))"

section \<open>The VIP runtime\<close>

definition vip_status :: "RuntimeManager \<Rightarrow> (string \<times> real \<times> instant) option" where
  "vip_status m = map_option (\<lambda>v. (vr_node_id v, vr_score v, vr_started_at v)) (rm_vip m)"

record vip_env =
  ve_now :: instant
  ve_candidate_error :: "string option"
  ve_bindable :: "u16 \<Rightarrow> bool"
  ve_others :: "u16 \<Rightarrow> u16 set \<Rightarrow> u16 set"
  ve_preflight :: start_obs
  ve_preflight_stop :: stop_obs
  ve_old_stop :: stop_obs
  ve_switch :: start_obs
  ve_recovery :: start_obs
  ve_switched_at :: instant

text \<open>Which of the four processes of a switch an effect concerns.\<close>

datatype vip_process = TestProcess | OldProcess | NewProcess | RecoveryProcess

definition on_process :: "vip_process \<Rightarrow> xray_effect list \<Rightarrow> (vip_process \<times> xray_effect) list" where
  "on_process p es = map (Pair p) es"

text \<open>The early returns: the same node, too soon, or not enough better.\<close>

definition keep_current :: "VipPortConfig \<Rightarrow> instant \<Rightarrow> VipCandidate \<Rightarrow> VipRuntime option \<Rightarrow> bool" where
  "keep_current c now cand current =
     (case current of
        None \<Rightarrow> False
      | Some v \<Rightarrow>
          vr_node_id v = vc_id cand \<or>
          now - vr_started_at v < seconds (int (vip_min_switch_interval_seconds c)) \<or>
          vc_score cand - vr_score v < vip_switch_threshold_score_diff c)"

definition set_vip :: "VipRuntime option \<Rightarrow> runtime_state \<Rightarrow> runtime_state" where
  "set_vip v s = s\<lparr>rs_mgr := (rs_mgr s)\<lparr>rm_vip := v\<rparr>\<rparr>"

definition recover_vip ::
  "libs \<Rightarrow> start_obs \<Rightarrow> u16 \<Rightarrow> VipRuntime option \<Rightarrow> VipRuntime option \<times> xray_effect list" where
  "recover_vip L w port previous =
     (case previous of
        None \<Rightarrow> (None, [])
      | Some old \<Rightarrow>
         (case parse_share_url L (vr_raw_config old) ''vip-recovery'' of
            Inl _ \<Rightarrow> (None, [])
          | Inr proxy \<Rightarrow>
             (case start_at_port L w proxy port ''0.0.0.0'' of
                (Inl _, es) \<Rightarrow> (None, es)
              | (Inr _, es) \<Rightarrow> (Some old, es))))"

text \<open>The switch itself: the old process is stopped, then the new one takes the fixed port.\<close>

definition switch_vip ::
  "libs \<Rightarrow> u16 \<Rightarrow> vip_env \<Rightarrow> VipCandidate \<Rightarrow> ParsedProxy \<Rightarrow> runtime_state \<Rightarrow>
   (string + unit) \<times> runtime_state \<times> (vip_process \<times> xray_effect) list" where
  "switch_vip L port w cand proxy s =
     (let previous = rm_vip (rs_mgr s);
          stopped = (case previous of None \<Rightarrow> [] | Some _ \<Rightarrow> on_process OldProcess (stop_session (ve_old_stop w)))
      in case start_at_port L (ve_switch w) proxy port ''0.0.0.0'' of
           (Inr _, es) \<Rightarrow>
             (Inr (),
              set_vip (Some \<lparr>vr_node_id = vc_id cand, vr_score = vc_score cand,
                             vr_raw_config = vc_raw_config cand, vr_started_at = ve_switched_at w\<rparr>) s,
              stopped @ on_process NewProcess es)
         | (Inl e, es) \<Rightarrow>
             (case recover_vip L (ve_recovery w) port previous of
                (v, es') \<Rightarrow>
                  (Inl e, set_vip v s,
                   stopped @ on_process NewProcess es @ on_process RecoveryProcess es')))"

definition maintain_vip ::
  "libs \<Rightarrow> AppConfig \<Rightarrow> vip_env \<Rightarrow> runtime_state \<Rightarrow>
   (string + unit) \<times> runtime_state \<times> (vip_process \<times> xray_effect) list" where
  "maintain_vip L cfg w s =
     (if \<not> vip_enabled (cfg_vip_port cfg) then (Inr (), s, [])
      else case ve_candidate_error w of Some e \<Rightarrow> (Inl e, s, []) | None \<Rightarrow>
     (case best_vip_candidate (ve_now w) (rs_db s) of
        None \<Rightarrow> (Inr (), s, [])
      | Some cand \<Rightarrow>
     (if keep_current (cfg_vip_port cfg) (ve_now w) cand (rm_vip (rs_mgr s)) then (Inr (), s, [])
      else case parse_share_url L (vc_raw_config cand) ''vip'' of
        Inl e \<Rightarrow> (Inl e, s, [])
      | Inr proxy \<Rightarrow>
     (case start_on_free_port L (ve_bindable w) (ve_others w) (ve_preflight w)
             (ports_test (cfg_ports cfg)) ''127.0.0.1'' proxy (rs_ports s) of
        (Inl e, S, es) \<Rightarrow> (Inl e, s\<lparr>rs_ports := S\<rparr>, on_process TestProcess es)
      | (Inr p, S, es) \<Rightarrow>
     (case switch_vip L (vip_port (cfg_vip_port cfg)) w cand proxy (s\<lparr>rs_ports := S - {p}\<rparr>) of
        (r, s', es') \<Rightarrow>
          (r, s',
           on_process TestProcess (es @ stop_session (ve_preflight_stop w)) @ es'))))))"

section \<open>What the operations keep\<close>

definition runtime_ports :: "runtime_state \<Rightarrow> u16 list" where
  "runtime_ports s = map (run_port \<circ> snd) (rm_inner (rs_mgr s))"

text \<open>Other tasks release only what they have reserved themselves.\<close>

definition leaves_own :: "u16 set \<Rightarrow> (u16 \<Rightarrow> u16 set \<Rightarrow> u16 set) \<Rightarrow> bool" where
  "leaves_own own others \<longleftrightarrow> (\<forall>p S. own \<subseteq> S \<longrightarrow> own \<subseteq> others p S)"

definition runtime_ok :: "AppConfig \<Rightarrow> runtime_state \<Rightarrow> bool" where
  "runtime_ok cfg s \<longleftrightarrow>
     distinct (map fst (rm_inner (rs_mgr s))) \<and> distinct (runtime_ports s) \<and>
     set (runtime_ports s) \<subseteq> rs_ports s \<inter> set (range_ports (ports_main (cfg_ports cfg))) \<and>
     active_count (rs_mgr s) \<le> hc_max_active_runtimes (cfg_health cfg) \<and>
     rm_starting (rs_mgr s) = []"

lemma leaves_ownD: "leaves_own own others \<Longrightarrow> own \<subseteq> S \<Longrightarrow> own \<subseteq> others p S"
  by (simp add: leaves_own_def)

lemma leaves_own_id [simp]: "leaves_own own (\<lambda>_ S. S)"
  by (simp add: leaves_own_def)

lemma allocate_port_sound:
  "allocate_port bindable others ps S = (r, S') \<Longrightarrow> leaves_own own others \<Longrightarrow> own \<subseteq> S \<Longrightarrow>
     own \<subseteq> S' \<and> (\<forall>p. r = Inr p \<longrightarrow> p \<in> set ps \<and> bindable p \<and> p \<in> S' \<and> p \<notin> own)"
proof (induction bindable others ps S rule: allocate_port.induct)
  case (2 bindable others p ps S)
  have "own \<subseteq> others p S" using 2(4,5) by (rule leaves_ownD)
  with 2 show ?case by (auto simp: Let_def split: if_splits)
qed auto

lemma allocate_port_alone:
  "allocate_port bindable (\<lambda>_ S. S) ps S =
     (case filter (\<lambda>p. bindable p \<and> p \<notin> S) ps of
        [] \<Rightarrow> (Inl ''no available test port'', S)
      | p # _ \<Rightarrow> (Inr p, insert p S))"
  by (induction ps) (auto simp: Let_def)

lemma start_on_free_port_sound:
  assumes "start_on_free_port L bindable others w r listen proxy S = (x, S', es)"
    and "leaves_own own others" and "own \<subseteq> S"
  shows "own \<subseteq> S' \<and> (\<forall>p. x = Inr p \<longrightarrow>
     p \<in> set (range_ports r) \<and> bindable p \<and> p \<in> S' \<and> p \<notin> own \<and>
     start_at_port L w proxy p listen = (Inr (), es))"
  using assms allocate_port_sound [OF _ assms(2,3)]
  by (fastforce simp: start_on_free_port_def split: prod.splits sum.splits)

text \<open>When no other task interferes, a failed start leaves the reservations as they were.\<close>

lemma start_on_free_port_error:
  "start_on_free_port L bindable (\<lambda>_ S. S) w r listen proxy S = (Inl e, S', es) \<Longrightarrow> S' = S"
  by (auto simp: start_on_free_port_def allocate_port_alone filter_eq_Cons_iff
      split: prod.splits sum.splits list.splits)

lemma start_on_free_port_fresh:
  "start_on_free_port L bindable (\<lambda>_ S. S) w r listen proxy S = (Inr p, S', es) \<Longrightarrow>
     p \<notin> S \<and> S' = insert p S"
  by (auto simp: start_on_free_port_def allocate_port_alone filter_eq_Cons_iff
      split: prod.splits sum.splits list.splits)

lemma port_for_None: "port_for nid m = None \<longleftrightarrow> nid \<notin> fst ` set (rm_inner m)"
  by (simp add: port_for_def map_of_eq_None_iff)

lemma reserve_slot_Inr:
  "reserve_slot cap nid m = Inr m' \<longleftrightarrow> nid \<notin> set (rm_starting m) \<and>
     active_count m + starting_count m < cap \<and> m' = m\<lparr>rm_starting := nid # rm_starting m\<rparr>"
  by (auto simp: reserve_slot_def)

lemma release_reserved:
  "reserve_slot cap nid m = Inr m' \<Longrightarrow> release_slot nid m' = m"
  by (cases m) (auto simp: reserve_slot_Inr release_slot_def intro!: filter_True)

text \<open>The five ways a call ends.\<close>

lemma ensure_runtime_cases:
  assumes "ensure_runtime L cfg w nid raw s = (r, s', es)"
  obtains
    (running) p where "port_for nid (rs_mgr s) = Some p" "r = Inr p" "s' = s" "es = []"
  | (refused) e where "port_for nid (rs_mgr s) = None" "r = Inl e" "s' = s" "es = []"
  | (not_started) e S where "port_for nid (rs_mgr s) = None" "r = Inl e" "s' = s\<lparr>rs_ports := S\<rparr>"
      "\<And>own. leaves_own own (en_others w) \<Longrightarrow> own \<subseteq> rs_ports s \<Longrightarrow> own \<subseteq> S"
      "en_others w = (\<lambda>_ S. S) \<Longrightarrow> S = rs_ports s"
  | (started) p S m where "port_for nid (rs_mgr s) = None"
      "active_count (rs_mgr s) + starting_count (rs_mgr s) < hc_max_active_runtimes (cfg_health cfg)"
      "m = (rs_mgr s)\<lparr>rm_inner := (nid, \<lparr>run_port = p, run_started_at = en_now w\<rparr>) # rm_inner (rs_mgr s)\<rparr>"
      "p \<in> set (range_ports (ports_main (cfg_ports cfg)))" "en_bindable w p"
      "\<And>own. leaves_own own (en_others w) \<Longrightarrow> own \<subseteq> rs_ports s \<Longrightarrow> own \<subseteq> S \<and> p \<in> S \<and> p \<notin> own"
      "case en_db_error w of
         None \<Rightarrow> r = Inr p \<and> s' = s\<lparr>rs_mgr := m, rs_ports := S, rs_db := set_main_port (en_now w) nid p (rs_db s)\<rparr>
       | Some e \<Rightarrow> r = Inl e \<and> s' = s\<lparr>rs_mgr := m, rs_ports := S\<rparr>"
proof (cases "port_for nid (rs_mgr s)")
  case (Some p)
  with assms show ?thesis by (intro running) (auto simp: ensure_runtime_def)
next
  case None
  note fresh = this
  let ?cap = "hc_max_active_runtimes (cfg_health cfg)"
  show ?thesis
  proof (cases "isl (parse_share_url L raw ''runtime'') \<or> isl (reserve_slot ?cap nid (rs_mgr s))")
    case True
    with assms fresh show ?thesis
      by (cases "parse_share_url L raw ''runtime''"; cases "reserve_slot ?cap nid (rs_mgr s)")
         (auto simp: ensure_runtime_def intro: refused)
  next
    case False
    then obtain proxy m where m: "parse_share_url L raw ''runtime'' = Inr proxy"
      "reserve_slot ?cap nid (rs_mgr s) = Inr m"
      by (cases "parse_share_url L raw ''runtime''"; cases "reserve_slot ?cap nid (rs_mgr s)") auto
    obtain x S es' where x: "start_on_free_port L (en_bindable w) (en_others w) (en_start w)
        (ports_main (cfg_ports cfg)) ''0.0.0.0'' proxy (rs_ports s) = (x, S, es')"
      by (cases "start_on_free_port L (en_bindable w) (en_others w) (en_start w)
        (ports_main (cfg_ports cfg)) ''0.0.0.0'' proxy (rs_ports s)") auto
    note sound = start_on_free_port_sound [OF x]
    show ?thesis
    proof (cases x)
      case (Inl e)
      have "en_others w = (\<lambda>_ S. S) \<Longrightarrow> S = rs_ports s"
        using x Inl start_on_free_port_error by metis
      with assms fresh m x Inl sound show ?thesis
        by (intro not_started [of e S]) (auto simp: ensure_runtime_def release_reserved)
    next
      case (Inr p)
      have "register (en_now w) nid p (rs_mgr s) =
          (None, (rs_mgr s)\<lparr>rm_inner := (nid, \<lparr>run_port = p, run_started_at = en_now w\<rparr>) # rm_inner (rs_mgr s)\<rparr>)"
        using fresh by (simp add: register_def)
      moreover have "p \<in> set (range_ports (ports_main (cfg_ports cfg))) \<and> en_bindable w p"
        using sound [of "{}"] Inr by (simp add: leaves_own_def)
      ultimately show ?thesis
        using assms fresh m x Inr sound
        by (intro started [OF _ _ refl, of p S])
           (auto simp: ensure_runtime_def release_reserved reserve_slot_Inr split: option.splits)
    qed
  qed
qed

lemma runtime_ports_simps [simp]:
  "runtime_ports (s\<lparr>rs_ports := S\<rparr>) = runtime_ports s"
  "runtime_ports (s\<lparr>rs_db := d\<rparr>) = runtime_ports s"
  "runtime_ports (set_vip v s) = runtime_ports s"
  by (simp_all add: runtime_ports_def set_vip_def)

lemma runtime_okD:
  assumes "runtime_ok cfg s"
  shows "set (runtime_ports s) \<subseteq> rs_ports s" and "distinct (runtime_ports s)"
  using assms by (auto simp: runtime_ok_def)

text \<open>Only the reservations of the runtimes matter: whoever keeps them keeps the invariant.\<close>

lemma runtime_ok_frame:
  "runtime_ok cfg s \<Longrightarrow> set (runtime_ports s) \<subseteq> rs_ports s' \<Longrightarrow> rm_inner (rs_mgr s') = rm_inner (rs_mgr s) \<Longrightarrow>
     rm_starting (rs_mgr s') = rm_starting (rs_mgr s) \<Longrightarrow> runtime_ok cfg s'"
  by (simp add: runtime_ok_def runtime_ports_def active_count_def)

lemma ensure_runtime_ok:
  assumes "ensure_runtime L cfg w nid raw s = (r, s', es)" and "runtime_ok cfg s"
    and own: "leaves_own (set (runtime_ports s)) (en_others w)"
  shows "runtime_ok cfg s'"
  using assms(1)
proof (cases rule: ensure_runtime_cases)
  case (not_started e S)
  have "set (runtime_ports s) \<subseteq> S" using own runtime_okD(1) [OF assms(2)] by (rule not_started(4))
  with not_started(3) show ?thesis by (intro runtime_ok_frame [OF assms(2)]) auto
next
  case (started p S m)
  have S: "set (runtime_ports s) \<subseteq> S" "p \<in> S" "p \<notin> set (runtime_ports s)"
    using started(6) [OF own runtime_okD(1) [OF assms(2)]] by auto
  have s': "rs_mgr s' = m" "rs_ports s' = S"
    using started(7) by (auto split: option.splits)
  have "runtime_ports s' = p # runtime_ports s"
    by (simp add: runtime_ports_def s' started(3))
  with S s' started(1-4) assms(2) show ?thesis
    by (auto simp: runtime_ok_def port_for_None active_count_def)
qed (use assms(2) in auto)

lemma stop_runtime_ok:
  assumes "stop_runtime now w clear_ok nid s = (s', es)" and "runtime_ok cfg s"
  shows "runtime_ok cfg s'"
proof -
  let ?rs = "rm_inner (rs_mgr s)" and ?keep = "\<lambda>(k, r :: PersistentRuntime). k \<noteq> nid"
  have inner: "rm_inner (rs_mgr s') = filter ?keep ?rs"
    and ports: "rs_ports s' = (case map_of ?rs nid of None \<Rightarrow> rs_ports s | Some r \<Rightarrow> rs_ports s - {run_port r})"
    and starting: "rm_starting (rs_mgr s') = rm_starting (rs_mgr s)"
    using assms(1) by (auto simp: stop_runtime_def Let_def)
  have d: "distinct (map fst (filter ?keep ?rs))" "distinct (map (run_port \<circ> snd) (filter ?keep ?rs))"
    "length (filter ?keep ?rs) \<le> hc_max_active_runtimes (cfg_health cfg)"
    using assms(2) by (auto simp: runtime_ok_def runtime_ports_def distinct_map_filter active_count_def
        intro: le_trans [OF length_filter_le])
  have sub: "set (runtime_ports s') \<subseteq> set (runtime_ports s)"
    by (auto simp: runtime_ports_def inner)
  have "run_port r \<notin> set (runtime_ports s')" if r: "map_of ?rs nid = Some r" for r
  proof
    assume "run_port r \<in> set (runtime_ports s')"
    then obtain k q where "(k, q) \<in> set ?rs" "k \<noteq> nid" "run_port q = run_port r"
      by (auto simp: runtime_ports_def inner)
    moreover have "(nid, r) \<in> set ?rs" using r by (rule map_of_SomeD)
    moreover have "inj_on (run_port \<circ> snd) (set ?rs)"
      using runtime_okD(2) [OF assms(2)] by (simp add: runtime_ports_def distinct_map)
    ultimately show False
      using inj_onD [of "run_port \<circ> snd" "set ?rs" "(k, q)" "(nid, r)"] by auto
  qed
  then have "set (runtime_ports s') \<subseteq> rs_ports s'"
    using sub runtime_okD(1) [OF assms(2)] by (auto simp: ports split: option.splits)
  with d sub assms(2) show ?thesis
    by (auto simp: runtime_ok_def runtime_ports_def inner starting active_count_def)
qed

lemma shutdown_ok: "shutdown now w clear_ok v s = (n, s', es) \<Longrightarrow> runtime_ok cfg s \<Longrightarrow> runtime_ok cfg s'"
  by (auto simp: shutdown_def Let_def runtime_ok_def runtime_ports_def active_count_def)

lemma switch_vip_frame:
  "switch_vip L port w cand proxy s = (r, s', es) \<Longrightarrow>
     rm_inner (rs_mgr s') = rm_inner (rs_mgr s) \<and> rm_starting (rs_mgr s') = rm_starting (rs_mgr s) \<and>
     rs_ports s' = rs_ports s \<and> rs_db s' = rs_db s"
  by (auto simp: switch_vip_def set_vip_def Let_def split: prod.splits sum.splits)

text \<open>The ways VIP maintenance ends: nothing to do, a candidate that fails its test, a switch.\<close>

lemma maintain_vip_cases:
  assumes "maintain_vip L cfg w s = (r, s', es)"
  obtains
    (unchanged) "s' = s" "es = []"
  | (rejected) e S where "r = Inl e" "s' = s\<lparr>rs_ports := S\<rparr>" "\<forall>x \<in> set es. fst x = TestProcess"
      "\<And>own. leaves_own own (ve_others w) \<Longrightarrow> own \<subseteq> rs_ports s \<Longrightarrow> own \<subseteq> S"
      "ve_others w = (\<lambda>_ S. S) \<Longrightarrow> S = rs_ports s"
  | (switched) cand proxy p S es1 es2 where "vip_enabled (cfg_vip_port cfg)"
      "best_vip_candidate (ve_now w) (rs_db s) = Some cand"
      "\<not> keep_current (cfg_vip_port cfg) (ve_now w) cand (rm_vip (rs_mgr s))"
      "parse_share_url L (vc_raw_config cand) ''vip'' = Inr proxy"
      "start_at_port L (ve_preflight w) proxy p ''127.0.0.1'' = (Inr (), es1)"
      "switch_vip L (vip_port (cfg_vip_port cfg)) w cand proxy (s\<lparr>rs_ports := S - {p}\<rparr>) = (r, s', es2)"
      "es = on_process TestProcess (es1 @ stop_session (ve_preflight_stop w)) @ es2"
      "\<And>own. leaves_own own (ve_others w) \<Longrightarrow> own \<subseteq> rs_ports s \<Longrightarrow> own \<subseteq> S - {p}"
      "ve_others w = (\<lambda>_ S. S) \<Longrightarrow> S - {p} = rs_ports s"
proof (cases "vip_enabled (cfg_vip_port cfg) \<and> ve_candidate_error w = None")
  case False
  with assms show ?thesis
    by (intro unchanged) (auto simp: maintain_vip_def split: if_splits option.splits)
next
  case True
  show ?thesis
  proof (cases "best_vip_candidate (ve_now w) (rs_db s)")
    case None
    with assms True show ?thesis by (intro unchanged) (auto simp: maintain_vip_def)
  next
    case (Some cand)
    note cand = this
    show ?thesis
    proof (cases "keep_current (cfg_vip_port cfg) (ve_now w) cand (rm_vip (rs_mgr s)) \<or>
        isl (parse_share_url L (vc_raw_config cand) ''vip'')")
      case True
      with assms cand show ?thesis
        by (intro unchanged)
           (auto simp: maintain_vip_def split: if_splits option.splits sum.splits)
    next
      case False
      then obtain proxy where proxy: "parse_share_url L (vc_raw_config cand) ''vip'' = Inr proxy"
        by (cases "parse_share_url L (vc_raw_config cand) ''vip''") auto
      obtain x S es' where x: "start_on_free_port L (ve_bindable w) (ve_others w) (ve_preflight w)
          (ports_test (cfg_ports cfg)) ''127.0.0.1'' proxy (rs_ports s) = (x, S, es')"
        by (cases "start_on_free_port L (ve_bindable w) (ve_others w) (ve_preflight w)
          (ports_test (cfg_ports cfg)) ''127.0.0.1'' proxy (rs_ports s)") auto
      note sound = start_on_free_port_sound [OF x]
      show ?thesis
      proof (cases x)
        case (Inl e)
        have "ve_others w = (\<lambda>_ S. S) \<Longrightarrow> S = rs_ports s"
          using x Inl start_on_free_port_error by metis
        with assms True cand False proxy x Inl sound show ?thesis
          by (intro rejected [of e S]) (auto simp: maintain_vip_def on_process_def)
      next
        case (Inr p)
        have alone: "ve_others w = (\<lambda>_ S. S) \<Longrightarrow> S - {p} = rs_ports s"
          using x Inr start_on_free_port_fresh by (metis Diff_insert_absorb)
        have ok: "start_at_port L (ve_preflight w) proxy p ''127.0.0.1'' = (Inr (), es')"
          using sound [of "{}"] Inr by (simp add: leaves_own_def)
        obtain r' s'' es2 where sw: "switch_vip L (vip_port (cfg_vip_port cfg)) w cand proxy
            (s\<lparr>rs_ports := S - {p}\<rparr>) = (r', s'', es2)"
          using prod_cases3 by blast
        with assms True cand False proxy x Inr have
          "r = r'" "s' = s''" "es = on_process TestProcess (es' @ stop_session (ve_preflight_stop w)) @ es2"
          by (auto simp: maintain_vip_def)
        with True cand False proxy Inr sound alone ok sw show ?thesis
          by (intro switched [of cand proxy p es' S es2]) auto
      qed
    qed
  qed
qed

lemma maintain_vip_ok:
  assumes "maintain_vip L cfg w s = (r, s', es)" and "runtime_ok cfg s"
    and own: "leaves_own (set (runtime_ports s)) (ve_others w)"
  shows "runtime_ok cfg s'"
  using assms(1)
proof (cases rule: maintain_vip_cases)
  case (rejected e S)
  have "set (runtime_ports s) \<subseteq> S" using own runtime_okD(1) [OF assms(2)] by (rule rejected(4))
  with rejected(2) show ?thesis by (intro runtime_ok_frame [OF assms(2)]) auto
next
  case (switched cand proxy p S es1 es2)
  show ?thesis
    using switch_vip_frame [OF switched(6)] switched(8) [OF own runtime_okD(1) [OF assms(2)]]
    by (intro runtime_ok_frame [OF assms(2)]) auto
qed (use assms(2) in auto)

section \<open>The life of the manager\<close>

text \<open>
  One call after the other, as the service makes them: the runtimes are restored before
  the scheduler starts, and the scheduler ensures one after the other. Between two calls
  the rest of the service may change the database and reserve and release ports of its
  own.
\<close>

inductive runtime_step :: "libs \<Rightarrow> AppConfig \<Rightarrow> runtime_state \<Rightarrow> runtime_state \<Rightarrow> bool"
  for L cfg where
  Ensure: "ensure_runtime L cfg w nid raw s = (r, s', es) \<Longrightarrow>
     leaves_own (set (runtime_ports s)) (en_others w) \<Longrightarrow> runtime_step L cfg s s'"
| Stop: "stop_runtime now w clear_ok nid s = (s', es) \<Longrightarrow> runtime_step L cfg s s'"
| Shutdown: "shutdown now w clear_ok v s = (n, s', es) \<Longrightarrow> runtime_step L cfg s s'"
| Vip: "maintain_vip L cfg w s = (r, s', es) \<Longrightarrow>
     leaves_own (set (runtime_ports s)) (ve_others w) \<Longrightarrow> runtime_step L cfg s s'"
| Elsewhere: "set (runtime_ports s) \<subseteq> S \<Longrightarrow> runtime_step L cfg s (s\<lparr>rs_ports := S, rs_db := d\<rparr>)"

inductive runtime_reach :: "libs \<Rightarrow> AppConfig \<Rightarrow> runtime_state \<Rightarrow> bool" for L cfg where
  Initial: "rs_mgr s = empty_manager \<Longrightarrow> runtime_reach L cfg s"
| Step: "runtime_reach L cfg s \<Longrightarrow> runtime_step L cfg s s' \<Longrightarrow> runtime_reach L cfg s'"

inductive_cases runtime_stepE: "runtime_step L cfg s s'"

lemma runtime_step_ok: "runtime_step L cfg s s' \<Longrightarrow> runtime_ok cfg s \<Longrightarrow> runtime_ok cfg s'"
proof (induction rule: runtime_step.induct)
  case (Ensure w nid raw s r s' es)
  show ?case using Ensure(1,3,2) by (rule ensure_runtime_ok)
next
  case (Stop now w clear_ok nid s s' es)
  then show ?case by (rule stop_runtime_ok)
next
  case (Shutdown now w clear_ok v s n s' es)
  then show ?case by (rule shutdown_ok)
next
  case (Vip w s r s' es)
  show ?case using Vip(1,3,2) by (rule maintain_vip_ok)
next
  case (Elsewhere s S d)
  show ?case by (rule runtime_ok_frame [OF Elsewhere(2)]) (use Elsewhere(1) in auto)
qed

lemma runtime_reach_ok: "runtime_reach L cfg s \<Longrightarrow> runtime_ok cfg s"
proof (induction rule: runtime_reach.induct)
  case (Initial s)
  then show ?case
    by (simp add: runtime_ok_def runtime_ports_def active_count_def empty_manager_def)
qed (rule runtime_step_ok)

section \<open>Concurrent calls\<close>

text \<open>Where a call of \<open>ensure\<close> stands between two sections that hold a lock.\<close>

datatype call_phase =
  Checked string | Starting string | Started string u16 | Failed string | Released string u16

inductive call_step :: "nat \<Rightarrow> RuntimeManager \<times> call_phase list \<Rightarrow> RuntimeManager \<times> call_phase list \<Rightarrow> bool"
  for cap where
  Lookup: "port_for nid m = None \<Longrightarrow> call_step cap (m, ts) (m, Checked nid # ts)"
| Refuse: "reserve_slot cap nid m = Inl e \<Longrightarrow> call_step cap (m, us @ Checked nid # vs) (m, us @ vs)"
| Reserve: "reserve_slot cap nid m = Inr m' \<Longrightarrow>
     call_step cap (m, us @ Checked nid # vs) (m', us @ Starting nid # vs)"
| StartOk: "call_step cap (m, us @ Starting nid # vs) (m, us @ Started nid p # vs)"
| StartErr: "call_step cap (m, us @ Starting nid # vs) (m, us @ Failed nid # vs)"
| GiveUp: "call_step cap (m, us @ Failed nid # vs) (release_slot nid m, us @ vs)"
| Release: "call_step cap (m, us @ Started nid p # vs) (release_slot nid m, us @ Released nid p # vs)"
| Register: "register now nid p m = (x, m') \<Longrightarrow>
     call_step cap (m, us @ Released nid p # vs) (m', us @ vs)"

text \<open>Calls that have given up their slot and are not registered yet, and those that hold one.\<close>

fun is_released :: "call_phase \<Rightarrow> bool" where
  "is_released (Released nid p) = True"
| "is_released _ = False"

definition released :: "call_phase list \<Rightarrow> nat" where
  "released ts = length (filter is_released ts)"

fun slot_of :: "call_phase \<Rightarrow> string list" where
  "slot_of (Starting nid) = [nid]"
| "slot_of (Started nid p) = [nid]"
| "slot_of (Failed nid) = [nid]"
| "slot_of _ = []"

definition slots :: "call_phase list \<Rightarrow> string list" where
  "slots ts = concat (map slot_of ts)"

text \<open>Schedules in which at most \<open>gap\<close> calls are between the two sections at a time.\<close>

inductive call_reach :: "nat \<Rightarrow> nat \<Rightarrow> RuntimeManager \<times> call_phase list \<Rightarrow> bool" for cap gap where
  Idle: "call_reach cap gap (empty_manager, [])"
| Call: "call_reach cap gap s \<Longrightarrow> call_step cap s s' \<Longrightarrow> released (snd s') \<le> gap \<Longrightarrow> call_reach cap gap s'"

lemma released_simps [simp]:
  "released [] = 0" "released (t # ts) = (if is_released t then 1 else 0) + released ts"
  "released (us @ vs) = released us + released vs"
  by (simp_all add: released_def)

lemma slots_simps [simp]:
  "slots [] = []" "slots (t # ts) = slot_of t @ slots ts" "slots (us @ vs) = slots us @ slots vs"
  by (simp_all add: slots_def)

definition calls_ok :: "nat \<Rightarrow> nat \<Rightarrow> RuntimeManager \<times> call_phase list \<Rightarrow> bool" where
  "calls_ok cap gap s \<longleftrightarrow> (case s of (m, ts) \<Rightarrow>
     distinct (map fst (rm_inner m)) \<and> distinct (rm_starting m) \<and>
     mset (rm_starting m) = mset (slots ts) \<and> released ts \<le> gap \<and>
     active_count m + starting_count m + released ts \<le> cap + gap)"

lemma filter_neq_remove1: "distinct xs \<Longrightarrow> filter (\<lambda>x. x \<noteq> a) xs = remove1 a xs"
  by (induction xs) (auto simp: filter_id_conv)

lemma release_slot_count:
  assumes "distinct (rm_starting m)" and "nid \<in> set (rm_starting m)"
  shows "Suc (starting_count (release_slot nid m)) = starting_count m"
  using assms by (auto simp: release_slot_def starting_count_def filter_neq_remove1 length_remove1
      intro!: Suc_pred length_pos_if_in_set)

lemma release_slot_mset:
  "distinct (rm_starting m) \<Longrightarrow> mset (rm_starting m) = mset (nid # xs) \<Longrightarrow>
     mset (rm_starting (release_slot nid m)) = mset xs"
  by (simp add: release_slot_def filter_neq_remove1)

lemma release_slot_frame [simp]:
  "rm_inner (release_slot nid m) = rm_inner m" "active_count (release_slot nid m) = active_count m"
  "distinct (rm_starting m) \<Longrightarrow> distinct (rm_starting (release_slot nid m))"
  by (simp_all add: release_slot_def active_count_def)

lemma call_step_ok:
  assumes "call_step cap s s'" and "calls_ok cap gap s" and "released (snd s') \<le> gap"
  shows "calls_ok cap gap s'"
  using assms
proof (induction rule: call_step.induct)
  case (Reserve nid m m' us vs)
  then show ?case
    by (auto simp: calls_ok_def reserve_slot_Inr active_count_def starting_count_def)
next
  case (GiveUp m us nid vs)
  then have d: "distinct (rm_starting m)"
    and m: "mset (rm_starting m) = mset (nid # slots us @ slots vs)"
    by (auto simp: calls_ok_def)
  have "nid \<in> set (rm_starting m)" using mset_eq_setD [OF m] by simp
  from release_slot_count [OF d this] release_slot_mset [OF d m] GiveUp show ?case
    by (auto simp: calls_ok_def)
next
  case (Release m us nid p vs)
  then have d: "distinct (rm_starting m)"
    and m: "mset (rm_starting m) = mset (nid # slots us @ slots vs)"
    by (auto simp: calls_ok_def)
  have "nid \<in> set (rm_starting m)" using mset_eq_setD [OF m] by simp
  from release_slot_count [OF d this] release_slot_mset [OF d m] Release show ?case
    by (auto simp: calls_ok_def)
next
  case (Register now nid p m x m' us vs)
  then show ?case
    by (auto simp: calls_ok_def register_def active_count_def starting_count_def port_for_None
        split: option.splits)
qed (auto simp: calls_ok_def)

lemma call_reach_ok: "call_reach cap gap s \<Longrightarrow> calls_ok cap gap s"
proof (induction rule: call_reach.induct)
  case Idle
  show ?case by (simp add: calls_ok_def empty_manager_def active_count_def starting_count_def)
qed (rule call_step_ok)

section \<open>Overshooting the cap\<close>

definition released_calls :: "u16 \<Rightarrow> nat \<Rightarrow> call_phase list" where
  "released_calls p k = map (\<lambda>i. Released (show_nat i) p) (rev [0 ..< k])"

definition running_after :: "u16 \<Rightarrow> nat \<Rightarrow> RuntimeManager" where
  "running_after p k =
     empty_manager\<lparr>rm_inner := rev (map (\<lambda>i. (show_nat i, \<lparr>run_port = p, run_started_at = 0\<rparr>)) (rev [0 ..< k]))\<rparr>"

lemma is_released_calls [simp]: "released (released_calls p k) = k"
  by (induction k) (auto simp: released_calls_def)

text \<open>One more call passes the cap check: the slots of the released calls are free again.\<close>

lemma start_one_more:
  assumes "call_reach 1 gap (empty_manager, ts)" and "released ts \<le> gap"
  shows "call_reach 1 gap (empty_manager\<lparr>rm_starting := [nid]\<rparr>, Started nid p # ts)"
proof -
  let ?m = "empty_manager\<lparr>rm_starting := [nid]\<rparr>"
  have "call_reach 1 gap (empty_manager, Checked nid # ts)"
    by (rule Call [OF assms(1) Lookup])
       (use assms(2) in \<open>simp_all add: port_for_def empty_manager_def\<close>)
  moreover have "reserve_slot 1 nid empty_manager = Inr ?m"
    by (simp add: reserve_slot_def empty_manager_def active_count_def starting_count_def)
  from Reserve [OF this, of "[]" ts] have "call_step 1 (empty_manager, Checked nid # ts) (?m, Starting nid # ts)"
    by simp
  ultimately have "call_reach 1 gap (?m, Starting nid # ts)"
    by (rule Call) (use assms(2) in simp)
  moreover from StartOk [of 1 ?m "[]" nid ts p]
  have "call_step 1 (?m, Starting nid # ts) (?m, Started nid p # ts)" by simp
  ultimately show ?thesis by (rule Call) (use assms(2) in simp)
qed

lemma release_first:
  assumes "call_reach 1 gap (m, Started nid p # ts)" and "rm_starting m = [nid]" and "released ts < gap"
  shows "call_reach 1 gap (m\<lparr>rm_starting := []\<rparr>, Released nid p # ts)"
proof -
  have "release_slot nid m = m\<lparr>rm_starting := []\<rparr>" using assms(2) by (simp add: release_slot_def)
  with Release [of 1 m "[]" nid p ts]
  have "call_step 1 (m, Started nid p # ts) (m\<lparr>rm_starting := []\<rparr>, Released nid p # ts)" by simp
  with assms(1) show ?thesis by (rule Call) (use assms(3) in simp)
qed

lemma reach_released: "k \<le> gap \<Longrightarrow> call_reach 1 gap (empty_manager, released_calls p k)"
proof (induction k)
  case 0
  show ?case by (simp add: released_calls_def Idle)
next
  case (Suc k)
  have "call_reach 1 gap (empty_manager\<lparr>rm_starting := [show_nat k]\<rparr>,
      Started (show_nat k) p # released_calls p k)"
    using Suc by (intro start_one_more) auto
  from release_first [OF this] Suc.prems have "call_reach 1 gap (empty_manager\<lparr>rm_starting := []\<rparr>,
      Released (show_nat k) p # released_calls p k)"
    by simp
  then show ?case by (simp add: released_calls_def empty_manager_def)
qed

text \<open>The released calls then register, one after the other, whatever the count is by now.\<close>

lemma register_released:
  assumes "call_reach 1 gap (m, us @ released_calls p k)" and "released us + k \<le> gap"
    and "show_nat ` {..< k} \<inter> fst ` set (rm_inner m) = {}"
  shows "\<exists>m'. call_reach 1 gap (m', us) \<and> rm_starting m' = rm_starting m \<and>
    active_count m' = active_count m + k \<and>
    fst ` set (rm_inner m') = fst ` set (rm_inner m) \<union> show_nat ` {..< k}"
  using assms
proof (induction k arbitrary: m)
  case 0
  then show ?case by (auto simp: released_calls_def)
next
  case (Suc k)
  let ?m = "m\<lparr>rm_inner := (show_nat k, \<lparr>run_port = p, run_started_at = 0\<rparr>) # rm_inner m\<rparr>"
  have "register 0 (show_nat k) p m = (None, ?m)"
  proof -
    have "port_for (show_nat k) m = None" using Suc.prems(3) by (auto simp: port_for_None)
    then show ?thesis by (simp add: register_def)
  qed
  from Register [OF this] have "call_step 1 (m, us @ released_calls p (Suc k)) (?m, us @ released_calls p k)"
    by (simp add: released_calls_def)
  with Suc.prems(1) have "call_reach 1 gap (?m, us @ released_calls p k)"
    by (rule Call) (use Suc.prems(2) in simp)
  moreover have "show_nat ` {..< k} \<inter> fst ` set (rm_inner ?m) = {}"
  proof -
    have "show_nat k \<notin> show_nat ` {..< k}" by auto
    moreover have "show_nat ` {..< k} \<inter> fst ` set (rm_inner m) = {}"
      using Suc.prems(3) unfolding lessThan_Suc by blast
    ultimately show ?thesis by simp
  qed
  ultimately have "\<exists>m'. call_reach 1 gap (m', us) \<and> rm_starting m' = rm_starting ?m \<and>
    active_count m' = active_count ?m + k \<and>
    fst ` set (rm_inner m') = fst ` set (rm_inner ?m) \<union> show_nat ` {..< k}"
    using Suc.prems(2) by (intro Suc.IH) auto
  then show ?case by (auto simp: active_count_def lessThan_Suc)
qed

lemma overshoot:
  assumes "0 < gap"
  shows "\<exists>m. call_reach 1 gap (m, []) \<and> active_count m = Suc gap"
proof -
  let ?nid = "show_nat gap" and ?p = "30000 :: u16"
  have "call_reach 1 gap (empty_manager\<lparr>rm_starting := [?nid]\<rparr>, [Started ?nid ?p] @ released_calls ?p gap)"
    using start_one_more [OF reach_released [OF order_refl]] by simp
  from register_released [OF this] obtain m where m: "call_reach 1 gap (m, [Started ?nid ?p])"
    "rm_starting m = [?nid]" "active_count m = gap" "fst ` set (rm_inner m) = show_nat ` {..< gap}"
    by (auto simp: empty_manager_def active_count_def)
  let ?m = "m\<lparr>rm_starting := []\<rparr>"
  have "call_reach 1 gap (?m, [Released ?nid ?p])"
    using release_first [OF m(1,2)] assms by simp
  moreover have "register 0 ?nid ?p ?m =
      (None, ?m\<lparr>rm_inner := (?nid, \<lparr>run_port = ?p, run_started_at = 0\<rparr>) # rm_inner ?m\<rparr>)"
  proof -
    have "port_for ?nid ?m = None" using m(4) by (auto simp: port_for_None)
    then show ?thesis by (simp add: register_def)
  qed
  from Register [OF this, of 1 "[]" "[]"] have "call_step 1 (?m, [Released ?nid ?p])
      (?m\<lparr>rm_inner := (?nid, \<lparr>run_port = ?p, run_started_at = 0\<rparr>) # rm_inner ?m\<rparr>, [])" by simp
  ultimately have "call_reach 1 gap
      (?m\<lparr>rm_inner := (?nid, \<lparr>run_port = ?p, run_started_at = 0\<rparr>) # rm_inner ?m\<rparr>, [])"
    by (rule Call) simp
  then show ?thesis using m(3) by (intro exI conjI) (auto simp: active_count_def)
qed

section \<open>Properties\<close>

text \<open>Ensuring a runtime: a node that has one keeps it, and nothing is started. A success
  registers a child that serves a free port of the main range and records that port with
  the node. An error leaves the manager and the database alone, and the reservations
  too when no other task interferes. No call stops another runtime or exceeds the cap.
  One error is different: when the port cannot be recorded, the runtime stays registered,
  and every later call finds it and returns without recording the port.\<close>

theorem ensure_effects:
  assumes "ensure_runtime L cfg w nid raw s = (r, s', es)"
  shows "(\<forall>p. port_for nid (rs_mgr s) = Some p \<longrightarrow> r = Inr p \<and> s' = s \<and> es = []) \<and>
    (\<forall>p. port_for nid (rs_mgr s) = None \<and> r = Inr p \<longrightarrow>
       port_for nid (rs_mgr s') = Some p \<and> p \<in> set (range_ports (ports_main (cfg_ports cfg))) \<and>
       en_bindable w p \<and> rs_db s' = set_main_port (en_now w) nid p (rs_db s)) \<and>
    (\<forall>e. r = Inl e \<longrightarrow> rs_db s' = rs_db s \<and>
       (en_db_error w = None \<longrightarrow> rs_mgr s' = rs_mgr s \<and>
          (en_others w = (\<lambda>_ S. S) \<longrightarrow> rs_ports s' = rs_ports s))) \<and>
    (\<forall>k p. port_for k (rs_mgr s) = Some p \<longrightarrow> port_for k (rs_mgr s') = Some p) \<and>
    active_count (rs_mgr s') \<le> max (active_count (rs_mgr s)) (hc_max_active_runtimes (cfg_health cfg)) \<and>
    (isl r \<and> rs_mgr s' \<noteq> rs_mgr s \<longrightarrow>
       (\<exists>p. \<forall>L' cfg' w' raw'. ensure_runtime L' cfg' w' nid raw' s' = (Inr p, s', [])))"
  using assms
proof (cases rule: ensure_runtime_cases)
  case (started p S m)
  have m: "port_for nid m = Some p" "rm_inner m = (nid, \<lparr>run_port = p, run_started_at = en_now w\<rparr>) # rm_inner (rs_mgr s)"
    by (simp_all add: port_for_def started(3))
  have keep: "port_for k (rs_mgr s) = Some q \<Longrightarrow> port_for k m = Some q" for k q
    using started(1) by (auto simp: port_for_def m(2))
  have "ensure_runtime L' cfg' w' nid raw' s' = (Inr p, s', [])" if "rs_mgr s' = m" for L' cfg' w' raw'
    using that m(1) by (simp add: ensure_runtime_def)
  with started m keep show ?thesis
    by (auto simp: active_count_def split: option.splits)
qed auto

definition two_ports :: AppConfig where
  "two_ports = default_config\<lparr>cfg_ports :=
     \<lparr>ports_main = \<lparr>pr_start = 30000, pr_end = 30001\<rparr>, ports_test = \<lparr>pr_start = 32000, pr_end = 32001\<rparr>\<rparr>\<rparr>"

lemma ready_start_at_port:
  assumes "xray_outbound L p = Inr out"
  shows "start_at_port L ready_start p port listen =
    (Inr (), [WriteConfig (single_config out listen port), SpawnChild])"
proof -
  have "wait_ready_from 0 label (so_ready ready_start) summary ports = Inr ()" for label summary ports
    by (subst wait_ready_from.simps) (simp add: ready_start_def no_binary_def list_all_iff)
  moreover have "so_write_error ready_start = None" "so_spawn_error ready_start = None"
    by (simp_all add: ready_start_def no_binary_def)
  ultimately show ?thesis by (simp add: start_at_port_def start_session_def assms)
qed

definition idle_state :: "db \<Rightarrow> runtime_state" where
  "idle_state d = \<lparr>rs_mgr = empty_manager, rs_ports = {}, rs_db = d\<rparr>"

definition alone_env :: "string option \<Rightarrow> ensure_env" where
  "alone_env e = \<lparr>en_now = 5, en_bindable = (\<lambda>_. True), en_others = (\<lambda>_ S. S), en_start = ready_start,
     en_redundant = calm_stop, en_db_error = e\<rparr>"

lemma sample_ensure:
  "fst (ensure_runtime sample_libs two_ports (alone_env e) ''a'' ''vless://a'' (idle_state d)) =
     (case e of None \<Rightarrow> Inr 30000 | Some m \<Rightarrow> Inl m)"
  "port_for ''a'' (rs_mgr (fst (snd (ensure_runtime sample_libs two_ports (alone_env e) ''a'' ''vless://a''
     (idle_state d))))) = Some 30000"
proof -
  obtain proxy where p: "parse_share_url sample_libs ''vless://a'' ''runtime'' = Inr proxy"
    "\<not> isl (xray_outbound sample_libs proxy)"
  proof -
    have "case parse_share_url sample_libs ''vless://a'' ''runtime'' of
        Inl _ \<Rightarrow> False | Inr proxy \<Rightarrow> \<not> isl (xray_outbound sample_libs proxy)"
      by code_simp
    then show ?thesis using that by (auto split: sum.splits)
  qed
  then obtain out where out: "xray_outbound sample_libs proxy = Inr out"
    by (cases "xray_outbound sample_libs proxy") auto
  have ports: "range_ports (ports_main (cfg_ports two_ports)) = [30000, 30001]"
    by (simp add: range_ports_def two_ports_def upt_rec [of "Suc _"] upt_rec [of 30000] upt_rec [of 30001])
  have slot: "reserve_slot (hc_max_active_runtimes (cfg_health two_ports)) ''a'' empty_manager =
      Inr (empty_manager\<lparr>rm_starting := [''a'']\<rparr>)"
    by (simp add: reserve_slot_def empty_manager_def active_count_def starting_count_def two_ports_def
        default_defs)
  have rest: "port_for ''a'' empty_manager = None"
    "release_slot ''a'' (empty_manager\<lparr>rm_starting := [''a'']\<rparr>) = empty_manager"
    by (simp_all add: port_for_def release_slot_def empty_manager_def)
  have free: "start_on_free_port sample_libs (\<lambda>_. True) (\<lambda>_ S. S) ready_start
      (ports_main (cfg_ports two_ports)) ''0.0.0.0'' proxy {} =
      (Inr 30000, {30000}, [WriteConfig (single_config out ''0.0.0.0'' 30000), SpawnChild])"
    by (simp add: start_on_free_port_def ports ready_start_at_port [OF out])
  note run = ensure_runtime_def [of sample_libs two_ports "alone_env e" "''a''" "''vless://a''" "idle_state d"]
  have env: "en_bindable (alone_env e) = (\<lambda>_. True)" "en_others (alone_env e) = (\<lambda>_ S. S)"
    "en_start (alone_env e) = ready_start" "en_db_error (alone_env e) = e"
    "rs_mgr (idle_state d) = empty_manager" "rs_ports (idle_state d) = {}"
    by (simp_all add: alone_env_def idle_state_def)
  show "fst (ensure_runtime sample_libs two_ports (alone_env e) ''a'' ''vless://a'' (idle_state d)) =
     (case e of None \<Rightarrow> Inr 30000 | Some m \<Rightarrow> Inl m)"
    by (simp add: run env rest p(1) slot free register_def split: option.split)
  have "port_for ''a'' (snd (register (en_now (alone_env e)) ''a'' 30000 empty_manager)) = Some 30000"
    by (simp add: register_def rest(1)) (simp add: port_for_def)
  moreover have "en_now (alone_env x) = 5" for x by (simp add: alone_env_def)
  ultimately show "port_for ''a'' (rs_mgr (fst (snd (ensure_runtime sample_libs two_ports (alone_env e) ''a'' ''vless://a''
     (idle_state d))))) = Some 30000"
    by (simp add: run env rest p(1) slot free register_def split: option.split)
qed

theorem ensure_effects_witness:
  "\<exists>s'. (\<exists>es. ensure_runtime sample_libs two_ports (alone_env (Some ''disk full'')) ''a'' ''vless://a''
       (idle_state sample_fleet) = (Inl ''disk full'', s', es)) \<and>
     rs_db s' = sample_fleet \<and>
     (\<exists>p. \<forall>w. ensure_runtime sample_libs two_ports w ''a'' ''vless://a'' s' = (Inr p, s', []))"
proof -
  obtain r s' es where e: "ensure_runtime sample_libs two_ports (alone_env (Some ''disk full'')) ''a''
      ''vless://a'' (idle_state sample_fleet) = (r, s', es)"
    using prod_cases3 by blast
  then have r: "r = Inl ''disk full''" "port_for ''a'' (rs_mgr s') = Some 30000"
    using sample_ensure [of "Some ''disk full''" sample_fleet] by simp_all
  moreover have "rs_mgr s' \<noteq> rs_mgr (idle_state sample_fleet)"
    using r(2) by (auto simp: idle_state_def empty_manager_def port_for_def)
  moreover have "rs_db (idle_state sample_fleet) = sample_fleet" by (simp add: idle_state_def)
  ultimately show ?thesis
    using ensure_effects [OF e] e by auto
qed

text \<open>C20. Whatever the sequence of calls, each node has at most one runtime, no two runtimes share
  a port, every port is reserved and in the main range, the number of runtimes never
  exceeds the configured cap, and no start-up slot is left behind.\<close>

theorem runtimes_exclusive:
  assumes "runtime_reach L cfg s"
  shows "distinct (map fst (rm_inner (rs_mgr s))) \<and>
    distinct (map (run_port \<circ> snd) (rm_inner (rs_mgr s))) \<and>
    (\<forall>(k, run) \<in> set (rm_inner (rs_mgr s)). run_port run \<in> rs_ports s \<and>
       pr_start (ports_main (cfg_ports cfg)) \<le> run_port run \<and>
       run_port run \<le> pr_end (ports_main (cfg_ports cfg))) \<and>
    active_count (rs_mgr s) \<le> hc_max_active_runtimes (cfg_health cfg) \<and>
    starting_count (rs_mgr s) = 0"
  using runtime_reach_ok [OF assms]
  by (auto simp: runtime_ok_def runtime_ports_def set_range_ports starting_count_def)

theorem runtimes_exclusive_witness:
  "\<exists>s :: runtime_state. port_for ''a'' (rs_mgr s) = Some 30000 \<and> active_count (rs_mgr s) \<le> 128"
proof -
  obtain r s es where e: "ensure_runtime sample_libs two_ports (alone_env None) ''a''
      ''vless://a'' (idle_state sample_fleet) = (r, s, es)"
    using prod_cases3 by blast
  have "runtime_reach sample_libs two_ports (idle_state sample_fleet)"
    by (rule Initial) (simp add: idle_state_def)
  moreover have "runtime_step sample_libs two_ports (idle_state sample_fleet) s"
    by (rule Ensure [OF e]) (simp add: alone_env_def)
  ultimately have "runtime_reach sample_libs two_ports s" by (rule Step)
  moreover have "port_for ''a'' (rs_mgr s) = Some 30000"
    using e sample_ensure(2) [of None sample_fleet] by simp
  moreover have "hc_max_active_runtimes (cfg_health two_ports) = 128"
    by (simp add: two_ports_def default_defs)
  ultimately have "port_for ''a'' (rs_mgr s) = Some 30000 \<and> active_count (rs_mgr s) \<le> 128"
    using runtimes_exclusive [of sample_libs two_ports s] by auto
  then show ?thesis by (rule exI)
qed


definition vip_state :: runtime_state where
  "vip_state = \<lparr>rs_mgr = empty_manager\<lparr>rm_vip := Some
       \<lparr>vr_node_id = ''gone'', vr_score = 9 / 10, vr_raw_config = ''vless://a'', vr_started_at = 0\<rparr>\<rparr>,
     rs_ports = {},
     rs_db = sample_fleet\<lparr>db_nodes := (new_node ''gone'' ''h2'' 0)\<lparr>n_lifecycle_state := ''DEAD''\<rparr> #
       db_nodes sample_fleet\<rparr>\<rparr>"

definition vip_round :: "instant \<Rightarrow> vip_env" where
  "vip_round t = \<lparr>ve_now = t, ve_candidate_error = None, ve_bindable = (\<lambda>_. True), ve_others = (\<lambda>_ S. S),
     ve_preflight = ready_start, ve_preflight_stop = calm_stop, ve_old_stop = calm_stop,
     ve_switch = ready_start, ve_recovery = ready_start, ve_switched_at = t\<rparr>"


text \<open>The cap under concurrency: however concurrent calls interleave, no node is registered
  twice and the number of runtimes exceeds the cap at most by the number of calls that are
  at one moment between giving up their start-up slot and registering. That bound is
  reached: a reservation does not cover the whole start-up, so concurrent calls can
  overshoot the cap.\<close>

theorem cap_overshoot_bounded:
  "(call_reach cap gap (m, ts) \<longrightarrow>
      distinct (map fst (rm_inner m)) \<and>
      active_count m + starting_count m + released ts \<le> cap + gap) \<and>
   (0 < gap \<longrightarrow> (\<exists>m'. call_reach 1 gap (m', []) \<and> active_count m' = 1 + gap))"
  using overshoot [of gap] call_reach_ok [of cap gap "(m, ts)"] by (auto simp: calls_ok_def)

theorem cap_overshoot_bounded_witness:
  "\<exists>m. call_reach 1 3 (m, []) \<and> active_count m = 4"
  using cap_overshoot_bounded [of 1 3 empty_manager "[]"] by auto

end
