(* ===== verification/App.thy ===== *)
theory App
  imports Runtime Views Leases Ledger
begin

text \<open>
  The background services of the process (\<open>src/src/app.rs\<close>): restoring runtimes at
  start-up, the network guard, the heartbeat, the scheduler tick with its concurrency
  controller, and the retry-log sampler.

  \<^item> Each service is a loop over ticks; a definition here is one tick.
  \<^item> What a tick observes (clock, pressure, the probes' outcome, which writes fail) is a
    record of arguments. A statement whose failure is only logged is \<open>logged ok f\<close>.
  \<^item> An I/O error of the claim statement is taken to come before its first update.
\<close>

section \<open>State\<close>

record RuntimeStatus =
  rst_started_at :: instant
  rst_scheduler_ticks :: nat
  rst_last_tick_at :: "instant option"
  rst_last_error :: string
  rst_xray_concurrency :: nat
  rst_download_concurrency :: nat
  rst_last_concurrency_change :: string
  rst_system_pressure :: real
  rst_system_load_pressure :: real
  rst_system_memory_pressure :: real
  rst_open_fds :: nat
  rst_child_processes :: nat
  rst_event_loop_lag_ms :: int
  rst_last_scheduler_jobs :: nat
  rst_fleet_counts :: FleetCounts
  rst_network_incident :: bool
  rst_network_message :: string

type_synonym log_samples = "((string \<times> string) \<times> instant) list"

record app_state =
  as_status :: RuntimeStatus
  as_rt :: runtime_state
  as_samples :: log_samples

definition initial_status :: "instant \<Rightarrow> AppConfig \<Rightarrow> RuntimeStatus" where
  "initial_status now cfg =
     \<lparr>rst_started_at = now, rst_scheduler_ticks = 0, rst_last_tick_at = None, rst_last_error = [],
      rst_xray_concurrency = hc_xray_concurrency_min (cfg_health cfg),
      rst_download_concurrency = hc_download_concurrency_min (cfg_health cfg),
      rst_last_concurrency_change = ''initial configured minimum'', rst_system_pressure = 0,
      rst_system_load_pressure = 0, rst_system_memory_pressure = 0, rst_open_fds = 0,
      rst_child_processes = 0, rst_event_loop_lag_ms = 0, rst_last_scheduler_jobs = 0,
      rst_fleet_counts = default_counts, rst_network_incident = False,
      rst_network_message = ''baseline pending''\<rparr>"

definition logged :: "bool \<Rightarrow> ('a \<Rightarrow> 'a) \<Rightarrow> 'a \<Rightarrow> 'a" where
  "logged ok f x = (if ok then f x else x)"

definition on_status :: "(RuntimeStatus \<Rightarrow> RuntimeStatus) \<Rightarrow> app_state \<Rightarrow> app_state" where
  "on_status f st = st\<lparr>as_status := f (as_status st)\<rparr>"

definition on_db :: "(db \<Rightarrow> db) \<Rightarrow> app_state \<Rightarrow> app_state" where
  "on_db f st = st\<lparr>as_rt := (as_rt st)\<lparr>rs_db := f (rs_db (as_rt st))\<rparr>\<rparr>"

definition db_of :: "app_state \<Rightarrow> db" where
  "db_of st = rs_db (as_rt st)"

section \<open>Retry-log sampling\<close>

definition retry_log_sample_window :: duration where
  "retry_log_sample_window = seconds 30"

definition since :: "instant \<Rightarrow> instant \<Rightarrow> duration" where
  "since now seen = max 0 (now - seen)"

definition should_emit_failure_log ::
  "string \<Rightarrow> string \<Rightarrow> instant \<Rightarrow> log_samples \<Rightarrow> bool \<times> log_samples" where
  "should_emit_failure_log proxy_id failure_class now samples0 =
     (let samples = filter (\<lambda>(_, seen). since now seen < retry_log_sample_window) samples0;
          key = (proxy_id, failure_class);
          insert_now = (key, now) # filter (\<lambda>(k, _). k \<noteq> key) samples
      in case map_of samples key of
           Some seen \<Rightarrow> if since now seen < retry_log_sample_window then (False, samples) else (True, insert_now)
         | None \<Rightarrow> (True, insert_now))"

section \<open>Restoring runtimes at start-up\<close>

text \<open>The cap ends the loop: what is left counts as failed.\<close>

fun reconcile_from ::
  "libs \<Rightarrow> AppConfig \<Rightarrow> nat \<Rightarrow> (nat \<Rightarrow> ensure_env) \<Rightarrow> nat \<Rightarrow> nat \<Rightarrow> nat \<Rightarrow> RuntimeCandidate list \<Rightarrow>
   runtime_state \<Rightarrow> (nat \<times> nat) \<times> runtime_state" where
  "reconcile_from L cfg candidates w i started failed [] s = ((started, failed), s)"
| "reconcile_from L cfg candidates w i started failed (c # cs) s =
     (case ensure_runtime L cfg (w i) (rc_id c) (rc_raw_config c) s of
        (Inr _, s', _) \<Rightarrow> reconcile_from L cfg candidates w (Suc i) (Suc started) failed cs s'
      | (Inl e, s', _) \<Rightarrow>
          if contains e ''persistent Xray runtime cap'' then ((started, candidates - started), s')
          else reconcile_from L cfg candidates w (Suc i) started (Suc failed) cs s')"

definition reconcile_active_runtimes ::
  "libs \<Rightarrow> AppConfig \<Rightarrow> instant \<Rightarrow> bool \<Rightarrow> (nat \<Rightarrow> ensure_env) \<Rightarrow> runtime_state \<Rightarrow>
   (nat \<times> nat) \<times> runtime_state" where
  "reconcile_active_runtimes L cfg now load_ok w s =
     (if \<not> load_ok then ((0, 0), s)
      else let cs = active_runtime_candidates now (rs_db s)
           in reconcile_from L cfg (length cs) w 0 0 0 cs s)"

section \<open>The network guard\<close>

record guard_state =
  gs_failures :: nat
  gs_recoveries :: nat

record incident_event =
  ie_level :: string
  ie_kind :: string
  ie_message :: string
  ie_details :: json

definition guard_observe ::
  "NetworkGuardConfig \<Rightarrow> bool \<times> string \<Rightarrow> guard_state \<times> RuntimeStatus \<Rightarrow>
   (guard_state \<times> RuntimeStatus) \<times> incident_event option" where
  "guard_observe c obs gr =
     (case obs of (healthy, message) \<Rightarrow> case gr of (g, r) \<Rightarrow>
        if healthy then
          (let g' = \<lparr>gs_failures = 0, gs_recoveries = sat_add32 (gs_recoveries g) 1\<rparr>
           in if rst_network_incident r \<and> max (ng_recovery_threshold c) 1 \<le> gs_recoveries g' then
                (let m = ''recovered: '' @ message
                 in ((g', r\<lparr>rst_network_incident := False, rst_network_message := m\<rparr>),
                     Some \<lparr>ie_level = ''INFO'', ie_kind = ''RECOVERED'', ie_message = m, ie_details = JObj []\<rparr>))
              else ((g', if rst_network_incident r then r else r\<lparr>rst_network_message := message\<rparr>), None))
        else
          (let g' = \<lparr>gs_failures = sat_add32 (gs_failures g) 1, gs_recoveries = 0\<rparr>;
               r' = r\<lparr>rst_network_message := message\<rparr>
           in if \<not> rst_network_incident r \<and> max (ng_failure_threshold c) 1 \<le> gs_failures g' then
                ((g', r'\<lparr>rst_network_incident := True\<rparr>),
                 Some \<lparr>ie_level = ''WARN'', ie_kind = ''STARTED'', ie_message = message,
                       ie_details = json_obj [(''consecutive_failures'', JInt (int (gs_failures g')))]\<rparr>)
              else ((g', r'), None)))"

definition incident_json :: "(instant \<Rightarrow> string) \<Rightarrow> instant \<Rightarrow> incident_event \<Rightarrow> json" where
  "incident_json stamp now e =
     json_obj [(''at'', JStr (stamp now)), (''level'', JStr (ie_level e)), (''kind'', JStr (ie_kind e)),
               (''message'', JStr (ie_message e)), (''details'', ie_details e)]"

record write_obs =
  wo_now :: instant
  wo_uid :: string
  wo_event_ok :: bool
  wo_state_ok :: bool

text \<open>An incident is logged as a system event and remembered as the last one.\<close>

definition record_incident ::
  "(instant \<Rightarrow> string) \<Rightarrow> write_obs \<Rightarrow> incident_event \<Rightarrow> db \<Rightarrow> db" where
  "record_incident stamp w e d =
     logged (wo_state_ok w) (set_service_state (wo_now w) ''last_incident'' (incident_json stamp (wo_now w) e))
       (logged (wo_event_ok w)
          (record_system_event (wo_now w) (wo_uid w) (ie_level e) ''incident'' (ie_kind e) (ie_message e)
             (ie_details e)) d)"

definition guard_tick ::
  "(instant \<Rightarrow> string) \<Rightarrow> NetworkGuardConfig \<Rightarrow> bool \<times> string \<Rightarrow> write_obs \<Rightarrow> guard_state \<Rightarrow> app_state \<Rightarrow>
   guard_state \<times> app_state" where
  "guard_tick stamp c obs w g st =
     (case guard_observe c obs (g, as_status st) of
        ((g', r'), e) \<Rightarrow>
          (g', on_db (case e of None \<Rightarrow> (\<lambda>d. d) | Some x \<Rightarrow> record_incident stamp w x)
                 (st\<lparr>as_status := r'\<rparr>)))"

text \<open>The health of the sentinels: how many targets answered, and whether one answered over HTTP.
  \<open>answers\<close> is what each target's request saw.\<close>

definition minimum_successes :: "NetworkGuardConfig \<Rightarrow> nat" where
  "minimum_successes c =
     min (max (ng_minimum_successful_targets c) 1) (max (length (ng_sentinel_targets c)) 1)"

definition is_http :: "SentinelTarget \<Rightarrow> bool" where
  "is_http t = eq_ignore_case (st_kind t) ''http''"

definition show_bool :: "bool \<Rightarrow> string" where
  "show_bool b = (if b then ''true'' else ''false'')"

definition sentinel_health :: "NetworkGuardConfig \<Rightarrow> bool \<Rightarrow> bool list \<Rightarrow> bool \<times> string" where
  "sentinel_health c client_ok answers =
     (if ng_sentinel_targets c = [] then (True, ''no sentinel targets configured'')
      else if \<not> client_ok then (False, ''could not build sentinel client'')
      else
        (let up = filter snd (zip (ng_sentinel_targets c) answers);
             http_success = (\<not> ng_require_http_success c \<or> list_ex (is_http \<circ> fst) up)
         in (minimum_successes c \<le> length up \<and> http_success,
             ''sentinel successes='' @ show_nat (length up) @ ''/'' @
             show_nat (length (ng_sentinel_targets c)) @ '' http_success='' @ show_bool http_success)))"

section \<open>The heartbeat\<close>

record SystemMetrics =
  sm_pressure :: real
  sm_load_pressure :: real
  sm_memory_pressure :: real
  sm_open_fds :: nat
  sm_child_processes :: nat

text \<open>
  An entry of \<open>/proc\<close> is its name and, when it can be read, its status file; the children of the
  process are the numbered entries that name it as their parent.
\<close>

fun parent_of :: "string list \<Rightarrow> string option" where
  "parent_of [] = None"
| "parent_of (l # ls) =
     (case Option.bind (strip_prefix_opt ''PPid:'' l) first_word of Some p \<Rightarrow> Some p | None \<Rightarrow> parent_of ls)"

definition child_processes :: "string \<Rightarrow> (string \<times> string option) list \<Rightarrow> nat" where
  "child_processes own_pid entries =
     length (filter (\<lambda>(name, status). list_all is_digit name \<and>
        Option.bind status (\<lambda>t. parent_of (str_lines t)) = Some own_pid) entries)"

definition system_metrics ::
  "nat option \<Rightarrow> real option \<Rightarrow> meminfo_line list option \<Rightarrow> string \<Rightarrow> (string \<times> string option) list option \<Rightarrow>
   nat option \<Rightarrow> SystemMetrics" where
  "system_metrics cores loadavg meminfo own_pid entries fds =
     \<lparr>sm_pressure = max (load_component cores loadavg) (memory_component meminfo),
      sm_load_pressure = load_component cores loadavg, sm_memory_pressure = memory_component meminfo,
      sm_open_fds = coalesce fds 0,
      sm_child_processes = (case entries of None \<Rightarrow> 0 | Some es \<Rightarrow> child_processes own_pid es)\<rparr>"

record heartbeat_obs =
  hb_lag_ms :: int
  hb_count_error :: "string option"
  hb_count_at :: instant
  hb_metrics :: SystemMetrics
  hb_now :: instant
  hb_prune_ok :: bool

definition heartbeat :: "AppConfig \<Rightarrow> heartbeat_obs \<Rightarrow> app_state \<Rightarrow> app_state" where
  "heartbeat cfg w st =
     (let r = as_status st;
          m = hb_metrics w;
          r1 = r\<lparr>rst_scheduler_ticks := sat_add64 (rst_scheduler_ticks r) 1,
                 rst_last_tick_at := Some (hb_now w), rst_system_pressure := sm_pressure m,
                 rst_system_load_pressure := sm_load_pressure m,
                 rst_system_memory_pressure := sm_memory_pressure m, rst_open_fds := sm_open_fds m,
                 rst_child_processes := sm_child_processes m, rst_event_loop_lag_ms := hb_lag_ms w\<rparr>;
          r2 = (case hb_count_error w of
                  None \<Rightarrow> r1\<lparr>rst_fleet_counts := counts (hb_count_at w) (db_of st)\<rparr>
                | Some e \<Rightarrow> r1\<lparr>rst_last_error := e\<rparr>);
          prune = (rst_scheduler_ticks r2 mod 720 = 0 \<and> hb_prune_ok w)
      in on_db (logged prune (\<lambda>d. snd (prune_system_events (rt_system_event_max_rows (cfg_retention cfg)) d)))
           (st\<lparr>as_status := r2\<rparr>))"

section \<open>The concurrency controller\<close>

definition backed_off :: "nat \<Rightarrow> nat \<Rightarrow> nat \<Rightarrow> nat" where
  "backed_off lo hi c = clamp lo hi (nat \<lfloor>real c * (7 / 10)\<rfloor>)"

definition stepped_up :: "nat \<Rightarrow> nat \<Rightarrow> nat \<Rightarrow> nat" where
  "stepped_up lo hi c = clamp lo hi (sat_add64 c 1)"

definition set_concurrency ::
  "HealthConfig \<Rightarrow> (nat \<Rightarrow> nat \<Rightarrow> nat \<Rightarrow> nat) \<Rightarrow> string \<Rightarrow> RuntimeStatus \<Rightarrow> RuntimeStatus" where
  "set_concurrency h f reason r =
     r\<lparr>rst_xray_concurrency := f (hc_xray_concurrency_min h) (hc_xray_concurrency_max h) (rst_xray_concurrency r),
       rst_download_concurrency :=
         f (hc_download_concurrency_min h) (hc_download_concurrency_max h) (rst_download_concurrency r),
       rst_last_concurrency_change := reason\<rparr>"

record load_signs =
  ls_pressure :: real
  ls_timeout_cluster :: bool
  ls_latency_spike :: bool
  ls_local_overload :: bool

definition timeout_class :: "FailureClass \<Rightarrow> bool" where
  "timeout_class c = (c \<in> {TcpTimeout, TlsTimeout, RelayTimeout, DownloadTimeout})"

definition load_signs_of :: "HealthConfig \<Rightarrow> real \<Rightarrow> (string \<times> ProbeReport) list \<Rightarrow> load_signs" where
  "load_signs_of h pressure reports =
     (let evs = concat (map (pr_events \<circ> snd) reports)
      in \<lparr>ls_pressure = pressure,
          ls_timeout_cluster = (3 \<le> length evs \<and>
            length evs \<le> length (filter (timeout_class \<circ> pv_class) evs) * 2),
          ls_latency_spike =
            list_ex (\<lambda>e. real (hc_max_relay_delay_ms h) < coalesce (pv_latency_ms e) 0) evs,
          ls_local_overload = list_ex (\<lambda>e. pv_class e = LocalOverload) evs\<rparr>)"

definition decrease_reason :: "load_signs \<Rightarrow> string option" where
  "decrease_reason s =
     (if 75 / 100 \<le> ls_pressure s then Some ''system_pressure''
      else if ls_timeout_cluster s then Some ''timeout_cluster''
      else if ls_latency_spike s then Some ''latency_spike''
      else if ls_local_overload s then Some ''local_overload''
      else None)"

definition recovered_window :: "load_signs \<Rightarrow> bool list \<Rightarrow> bool" where
  "recovered_window s results =
     (length (filter (\<lambda>b. b) results) = length results \<and> results \<noteq> [] \<and> ls_pressure s < 65 / 100 \<and>
      \<not> ls_latency_spike s \<and> \<not> ls_local_overload s)"

definition control :: "HealthConfig \<Rightarrow> load_signs \<Rightarrow> bool list \<Rightarrow> RuntimeStatus \<Rightarrow> RuntimeStatus" where
  "control h s results r =
     (case decrease_reason s of
        Some reason \<Rightarrow> set_concurrency h backed_off (''decreased: '' @ reason) r
      | None \<Rightarrow>
          if recovered_window s results then set_concurrency h stepped_up ''increased: stable window'' r
          else r)"

section \<open>The report of one node\<close>

definition waiting_for_port :: "ProbeReport \<Rightarrow> bool" where
  "waiting_for_port report =
     (pr_events report \<noteq> [] \<and>
      list_all (\<lambda>e. pv_class e = LocalOverload \<and>
        Option.bind (json_get ''reason'' (pv_detail e)) json_str = Some ''port_capacity'') (pr_events report))"

definition real_download :: "ProbeReport \<Rightarrow> bool" where
  "real_download report =
     list_ex (\<lambda>e. pv_stage e = Download \<and> pv_class e = Success) (pr_events report)"

text \<open>During a shared incident what failed is blamed on the endpoint, which is no evidence.\<close>

definition masked_class :: "bool \<Rightarrow> FailureClass \<Rightarrow> FailureClass" where
  "masked_class incident c =
     (if incident \<and> c \<noteq> Success \<and> c \<noteq> InvalidConfig then EndpointFailure else c)"

record report_obs =
  ro_run_id :: string
  ro_clock :: "nat \<Rightarrow> instant"
  ro_draw :: "nat \<Rightarrow> nat \<Rightarrow> nat"
  ro_pressure :: "nat \<Rightarrow> real"
  ro_apply_ok :: "nat \<Rightarrow> bool"
  ro_ensure :: ensure_env
  ro_claim_at :: instant
  ro_claim_ok :: bool
  ro_settled_at :: instant
  ro_settle_ok :: bool

definition report_event ::
  "report_obs \<Rightarrow> string option \<Rightarrow> string \<Rightarrow> nat \<Rightarrow> ProbeEvent \<Rightarrow> TestEventInput" where
  "report_event w incident_id nid j e =
     \<lparr>ti_proxy_id = nid, ti_run_id = ro_run_id w, ti_stage = pv_stage e,
      ti_class = masked_class (incident_id \<noteq> None) (pv_class e),
      ti_fast_download = pv_fast_download e, ti_latency_ms = pv_latency_ms e,
      ti_download_bps = pv_download_bps e, ti_bytes_transferred = pv_bytes_transferred e,
      ti_duration_ms = pv_duration_ms e, ti_endpoint = pv_endpoint e,
      ti_system_pressure = Some (ro_pressure w j), ti_incident_id = incident_id,
      ti_detail_json = pv_detail e\<rparr>"

definition test_intervals :: "HealthConfig \<Rightarrow> intervals" where
  "test_intervals h =
     \<lparr>iv_active_relay = seconds (int (hc_active_pool_relay_check_interval_seconds h)),
      iv_active_download = seconds (int (hc_active_pool_download_check_interval_seconds h)),
      iv_active_min_residence = seconds (int (hc_active_min_residence_seconds h))\<rparr>"

definition sample_failure :: "string \<Rightarrow> instant \<Rightarrow> TestEventInput \<Rightarrow> log_samples \<Rightarrow> log_samples" where
  "sample_failure nid now e samples =
     (if ti_class e = Success then samples
      else snd (should_emit_failure_log nid (class_str (ti_class e)) now samples))"

fun apply_events ::
  "HealthConfig \<Rightarrow> report_obs \<Rightarrow> string option \<Rightarrow> string \<Rightarrow> nat \<Rightarrow> ProbeEvent list \<Rightarrow> log_samples \<times> db \<Rightarrow>
   log_samples \<times> db" where
  "apply_events h w incident_id nid j [] s = s"
| "apply_events h w incident_id nid j (e # es) s =
     (let x = report_event w incident_id nid j e;
          now = ro_clock w j
      in apply_events h w incident_id nid (Suc j) es
           (sample_failure nid now x (fst s),
            case apply_test_event now (ro_draw w j) (test_intervals h) x (snd s) of
              Inl _ \<Rightarrow> snd s
            | Inr (_, d) \<Rightarrow> logged (ro_apply_ok w j) (\<lambda>_. d) (snd s)))"

text \<open>A real download earns the node a runtime; a fresh runtime may claim a metadata lookup, which
  runs as a task of its own.\<close>

definition reward ::
  "libs \<Rightarrow> AppConfig \<Rightarrow> report_obs \<Rightarrow> string \<Rightarrow> string option \<Rightarrow> runtime_state \<Rightarrow>
   runtime_state \<times> (string \<times> u16) list" where
  "reward L cfg w nid raw s =
     (case raw of
        None \<Rightarrow> (s, [])
      | Some text \<Rightarrow>
         (case ensure_runtime L cfg (ro_ensure w) nid text s of
            (Inl _, s', _) \<Rightarrow> (s', [])
          | (Inr port, s', _) \<Rightarrow>
              if md_enabled (cfg_metadata cfg) \<and> ro_claim_ok w then
                (case claim_metadata_refresh (ro_claim_at w) nid
                        (seconds (int (max (md_cache_ttl_seconds (cfg_metadata cfg)) 1)))
                        (seconds (int (max (md_timeout_seconds (cfg_metadata cfg)) 1 + 5))) (rs_db s') of
                   (claimed, d) \<Rightarrow> (s'\<lparr>rs_db := d\<rparr>, if claimed then [(nid, port)] else []))
              else (s', [])))"

definition settle :: "report_obs \<Rightarrow> string \<Rightarrow> ProbeReport \<Rightarrow> db \<Rightarrow> db" where
  "settle w nid report =
     logged (ro_settle_ok w)
       (if waiting_for_port report then mark_waiting_for_port (ro_settled_at w) nid (seconds 5)
        else release_test_lease (ro_settled_at w) nid)"

definition handle_report ::
  "libs \<Rightarrow> AppConfig \<Rightarrow> string option \<Rightarrow> (string \<Rightarrow> string option) \<Rightarrow> report_obs \<Rightarrow> string \<times> ProbeReport \<Rightarrow>
   app_state \<Rightarrow> bool \<times> (string \<times> u16) list \<times> app_state" where
  "handle_report L cfg incident_id raws w job st =
     (case job of (nid, report) \<Rightarrow>
        let (samples, d) = apply_events (cfg_health cfg) w incident_id nid 0 (pr_events report)
                             (as_samples st, db_of st);
            s1 = (as_rt st)\<lparr>rs_db := d\<rparr>;
            (s2, lookups) = (if real_download report then reward L cfg w nid (raws nid) s1 else (s1, []))
        in (real_download report, lookups,
            on_db (settle w nid report) (st\<lparr>as_rt := s2, as_samples := samples\<rparr>)))"

fun handle_reports ::
  "libs \<Rightarrow> AppConfig \<Rightarrow> string option \<Rightarrow> (string \<Rightarrow> string option) \<Rightarrow> (nat \<Rightarrow> report_obs) \<Rightarrow> nat \<Rightarrow>
   (string \<times> ProbeReport) list \<Rightarrow> app_state \<Rightarrow> bool list \<times> (string \<times> u16) list \<times> app_state" where
  "handle_reports L cfg incident_id raws w i [] st = ([], [], st)"
| "handle_reports L cfg incident_id raws w i (r # rs) st =
     (let (ok, lookups, st1) = handle_report L cfg incident_id raws (w i) r st;
          (oks, more, st2) = handle_reports L cfg incident_id raws w (Suc i) rs st1
      in (ok # oks, lookups @ more, st2))"

section \<open>The scheduler tick\<close>

record tick_obs =
  tk_pressure :: real
  tk_claim_error :: "string option"
  tk_claim_at :: instant
  tk_claim_pressure :: real
  tk_jobs :: "nat \<Rightarrow> job_obs"
  tk_order :: "nat list"
  tk_batch :: batch_obs
  tk_incident_id :: string
  tk_incident :: write_obs
  tk_reports :: "nat \<Rightarrow> report_obs"
  tk_done_at :: instant
  tk_recovered_at :: instant
  tk_state_ok :: bool

definition paused :: "HealthConfig \<Rightarrow> real \<Rightarrow> RuntimeStatus \<Rightarrow> RuntimeStatus" where
  "paused h pressure r =
     (if 90 / 100 \<le> pressure
      then set_concurrency h backed_off ''decreased: scheduler paused for system_pressure'' r
      else r\<lparr>rst_last_concurrency_change := ''scheduler paused: network incident''\<rparr>)"

definition mass_failure_event :: "AppConfig \<Rightarrow> string \<Rightarrow> nat \<Rightarrow> incident_event" where
  "mass_failure_event cfg reason jobs =
     \<lparr>ie_level = ''WARN'', ie_kind = ''MASS_FAILURE'',
      ie_message = reason @ '' detected across '' @ show_nat jobs @ '' scheduler jobs'',
      ie_details = json_obj [(''jobs'', JInt (int jobs)),
        (''threshold_percent'', JInt (int (ng_mass_failure_threshold_percent (cfg_network_guard cfg)))),
        (''reason'', JStr reason)]\<rparr>"

text \<open>A shared incident is raised in the status, logged and remembered.\<close>

definition raise_incident ::
  "(instant \<Rightarrow> string) \<Rightarrow> AppConfig \<Rightarrow> write_obs \<Rightarrow> string option \<Rightarrow> nat \<Rightarrow> app_state \<Rightarrow> app_state" where
  "raise_incident stamp cfg w reason jobs st =
     (case reason of
        None \<Rightarrow> st
      | Some text \<Rightarrow>
          (let e = mass_failure_event cfg text jobs
           in on_db (record_incident stamp w e)
                (on_status (\<lambda>r. r\<lparr>rst_network_incident := True, rst_network_message := ie_message e\<rparr>) st)))"

definition scheduler_state_json ::
  "(instant \<Rightarrow> string) \<Rightarrow> tick_obs \<Rightarrow> bool \<Rightarrow> RuntimeStatus \<Rightarrow> json" where
  "scheduler_state_json stamp w recovered r =
     json_obj [(''at'', JStr (stamp (tk_done_at w))), (''pressure'', JReal (tk_pressure w)),
       (''xray_concurrency'', JInt (int (rst_xray_concurrency r))),
       (''download_concurrency'', JInt (int (rst_download_concurrency r))),
       (''last_scheduler_jobs'', JInt (int (rst_last_scheduler_jobs r))),
       (''network_incident'', JBool (rst_network_incident r)),
       (''last_concurrency_change'', JStr (rst_last_concurrency_change r)),
       (''last_recovery_at'', if recovered then JStr (stamp (tk_recovered_at w)) else JNull)]"

definition batch_incident_id :: "tick_obs \<Rightarrow> string" where
  "batch_incident_id w = ''batch-'' @ tk_incident_id w"

definition run_jobs ::
  "(instant \<Rightarrow> string) \<Rightarrow> libs \<Rightarrow> AppConfig \<Rightarrow> tick_obs \<Rightarrow> TestJob list \<Rightarrow> app_state \<Rightarrow>
   app_state \<times> (string \<times> u16) list" where
  "run_jobs stamp L cfg w jobs st =
     (let raws = map_of (rev (map (\<lambda>j. (tj_id j, tj_raw_config j)) jobs));
          (reports, S) = test_batch L cfg ''scheduler'' (tk_jobs w) (tk_order w) (tk_batch w)
             (map (\<lambda>j. (tj_id j, tj_raw_config j, tj_download_due j)) jobs) (rs_ports (as_rt st));
          st1 = on_status (\<lambda>r. r\<lparr>rst_last_scheduler_jobs := length jobs\<rparr>)
                  (st\<lparr>as_rt := (as_rt st)\<lparr>rs_ports := S\<rparr>\<rparr>);
          signs = load_signs_of (cfg_health cfg) (tk_pressure w) reports;
          reason = correlated_incident reports (ng_mass_failure_threshold_percent (cfg_network_guard cfg));
          incident_id = map_option (\<lambda>_. batch_incident_id w) reason;
          (results, lookups, st2) = handle_reports L cfg incident_id raws (tk_reports w) 0 reports
             (raise_incident stamp cfg (tk_incident w) reason (length reports) st1);
          st3 = on_status (control (cfg_health cfg) signs results) st2
      in (on_db (logged (tk_state_ok w) (set_scheduler_state (tk_done_at w) ''runtime''
            (scheduler_state_json stamp w (recovered_window signs results) (as_status st3)))) st3,
          lookups))"

definition tick_claim :: "HealthConfig \<Rightarrow> tick_obs \<Rightarrow> claim_env" where
  "tick_claim h w =
     \<lparr>ce_now = tk_claim_at w, ce_lease = seconds (int (hc_candidate_batch_timeout_seconds h)),
      ce_active_download_interval = seconds (int (hc_active_pool_download_check_interval_seconds h)),
      ce_pressure = tk_claim_pressure w\<rparr>"

definition scheduler_tick ::
  "(instant \<Rightarrow> string) \<Rightarrow> libs \<Rightarrow> AppConfig \<Rightarrow> tick_obs \<Rightarrow> app_state \<Rightarrow>
   app_state \<times> (string \<times> u16) list" where
  "scheduler_tick stamp L cfg w st0 =
     (let st = on_status (\<lambda>r. r\<lparr>rst_system_pressure := tk_pressure w\<rparr>) st0;
          r = as_status st
      in if 90 / 100 \<le> tk_pressure w \<or> rst_network_incident r
         then (on_status (paused (cfg_health cfg) (tk_pressure w)) st, [])
         else case tk_claim_error w of
           Some _ \<Rightarrow> (st, [])
         | None \<Rightarrow>
             (case claim_due (tick_claim (cfg_health cfg) w) (rst_xray_concurrency r) (db_of st) of
                (jobs, d) \<Rightarrow>
                  if jobs = [] then (on_db (\<lambda>_. d) st, [])
                  else run_jobs stamp L cfg w jobs (on_db (\<lambda>_. d) st)))"

section \<open>The remaining loops\<close>

definition vip_tick :: "libs \<Rightarrow> AppConfig \<Rightarrow> vip_env \<Rightarrow> app_state \<Rightarrow> app_state" where
  "vip_tick L cfg w st =
     (if rst_network_incident (as_status st) then st
      else st\<lparr>as_rt := fst (snd (maintain_vip L cfg w (as_rt st)))\<rparr>)"

text \<open>The publication period in seconds: the debounce window, rounded up, is a lower bound.\<close>

definition publish_interval :: "PublishingConfig \<Rightarrow> nat" where
  "publish_interval c =
     max (pub_reconcile_interval_seconds c) (max (nat \<lceil>pub_debounce_seconds c\<rceil>) 1)"

section \<open>Lemmas\<close>

lemma on_db_simps [simp]:
  "as_status (on_db f st) = as_status st" "as_samples (on_db f st) = as_samples st"
  "rs_mgr (as_rt (on_db f st)) = rs_mgr (as_rt st)" "rs_ports (as_rt (on_db f st)) = rs_ports (as_rt st)"
  "db_of (on_db f st) = f (db_of st)"
  by (simp_all add: on_db_def db_of_def)

lemma on_status_simps [simp]:
  "as_status (on_status f st) = f (as_status st)" "as_rt (on_status f st) = as_rt st"
  "as_samples (on_status f st) = as_samples st" "db_of (on_status f st) = db_of st"
  by (simp_all add: on_status_def db_of_def)

text \<open>Handling reports is work on the store and the runtimes: the status is not touched.\<close>

lemma handle_report_status:
  "handle_report L cfg incident_id raws w job st = (ok, ls, st') \<Longrightarrow> as_status st' = as_status st"
  by (auto simp: handle_report_def Let_def split: prod.splits if_splits)

lemma handle_reports_status:
  "handle_reports L cfg incident_id raws w i rs st = (oks, ls, st') \<Longrightarrow> as_status st' = as_status st"
  by (induction L cfg incident_id raws w i rs st arbitrary: oks ls st' rule: handle_reports.induct)
     (auto split: prod.splits dest: handle_report_status)

lemma length_handle_reports:
  "length (fst (handle_reports L cfg incident_id raws w i rs st)) = length rs"
  by (induction L cfg incident_id raws w i rs st rule: handle_reports.induct) (auto split: prod.splits)

subsection \<open>The concurrency stays within its bounds\<close>

definition concurrency_ok :: "HealthConfig \<Rightarrow> RuntimeStatus \<Rightarrow> bool" where
  "concurrency_ok h r \<longleftrightarrow>
     rst_xray_concurrency r \<in> {hc_xray_concurrency_min h .. hc_xray_concurrency_max h} \<and>
     rst_download_concurrency r \<in> {hc_download_concurrency_min h .. hc_download_concurrency_max h}"

definition concurrency_range :: "HealthConfig \<Rightarrow> bool" where
  "concurrency_range h \<longleftrightarrow>
     hc_xray_concurrency_min h \<le> hc_xray_concurrency_max h \<and>
     hc_download_concurrency_min h \<le> hc_download_concurrency_max h"

lemma set_concurrency_ok:
  assumes "concurrency_range h" and "f \<in> {backed_off, stepped_up}"
  shows "concurrency_ok h (set_concurrency h f reason r)"
  using assms by (auto simp: concurrency_ok_def concurrency_range_def set_concurrency_def backed_off_def
      stepped_up_def)

lemma control_ok: "concurrency_range h \<Longrightarrow> concurrency_ok h r \<Longrightarrow> concurrency_ok h (control h s results r)"
  by (simp add: control_def set_concurrency_ok split: option.splits)

lemma seven_tenths: "nat \<lfloor>real c * (7 / 10)\<rfloor> \<le> c"
proof -
  have "real c * (7 / 10) \<le> real c" by simp
  then have "\<lfloor>real c * (7 / 10)\<rfloor> \<le> int c" by (simp add: floor_le_iff)
  then show ?thesis by simp
qed

lemma control_steps:
  assumes "concurrency_ok h r" and "hc_xray_concurrency_min h \<le> hc_xray_concurrency_max h"
  shows "rst_xray_concurrency (control h s results r) \<le> rst_xray_concurrency r + 1 \<and>
    (decrease_reason s \<noteq> None \<longrightarrow> rst_xray_concurrency (control h s results r) =
       max (hc_xray_concurrency_min h) (nat \<lfloor>real (rst_xray_concurrency r) * (7 / 10)\<rfloor>))"
proof -
  let ?c = "rst_xray_concurrency r"
  have c: "hc_xray_concurrency_min h \<le> ?c" "?c \<le> hc_xray_concurrency_max h"
    using assms(1) by (simp_all add: concurrency_ok_def)
  have down: "backed_off (hc_xray_concurrency_min h) (hc_xray_concurrency_max h) ?c =
      max (hc_xray_concurrency_min h) (nat \<lfloor>real ?c * (7 / 10)\<rfloor>)"
    using seven_tenths [of ?c] c by (simp add: backed_off_def clamp_def max_def)
  have up: "stepped_up (hc_xray_concurrency_min h) (hc_xray_concurrency_max h) ?c \<le> ?c + 1"
    using c by (simp add: stepped_up_def clamp_def sat_add64_def min_def)
  show ?thesis
  proof (cases "decrease_reason s")
    case None
    with up show ?thesis by (simp add: control_def set_concurrency_def)
  next
    case (Some reason)
    then have "rst_xray_concurrency (control h s results r) = max (hc_xray_concurrency_min h) (nat \<lfloor>real ?c * (7 / 10)\<rfloor>)"
      by (simp add: control_def set_concurrency_def down)
    moreover have "max (hc_xray_concurrency_min h) (nat \<lfloor>real ?c * (7 / 10)\<rfloor>) \<le> ?c + 1"
      using seven_tenths [of ?c] c(1) by simp
    ultimately show ?thesis by simp
  qed
qed

lemma paused_ok: "concurrency_range h \<Longrightarrow> concurrency_ok h r \<Longrightarrow> concurrency_ok h (paused h p r)"
  by (simp add: paused_def set_concurrency_ok) (simp add: concurrency_ok_def)

lemma concurrency_ok_frame:
  "rst_xray_concurrency r' = rst_xray_concurrency r \<Longrightarrow>
     rst_download_concurrency r' = rst_download_concurrency r \<Longrightarrow>
     concurrency_ok h r' = concurrency_ok h r"
  by (simp add: concurrency_ok_def)

lemma raise_incident_status:
  "as_status (raise_incident stamp cfg w reason k st) =
     (case reason of None \<Rightarrow> as_status st
      | Some text \<Rightarrow> (as_status st)\<lparr>rst_network_incident := True,
          rst_network_message := ie_message (mass_failure_event cfg text k)\<rparr>)"
  by (simp add: raise_incident_def Let_def split: option.splits)

text \<open>What a tick that runs jobs leaves in the status.\<close>

lemma run_jobs_status:
  assumes "run_jobs stamp L cfg w jobs st = (st', ls)"
  obtains reports S results where
    "test_batch L cfg ''scheduler'' (tk_jobs w) (tk_order w) (tk_batch w)
       (map (\<lambda>j. (tj_id j, tj_raw_config j, tj_download_due j)) jobs) (rs_ports (as_rt st)) = (reports, S)"
    "as_status st' = control (cfg_health cfg) (load_signs_of (cfg_health cfg) (tk_pressure w) reports) results
       (as_status (raise_incident stamp cfg (tk_incident w)
          (correlated_incident reports (ng_mass_failure_threshold_percent (cfg_network_guard cfg)))
          (length reports) (on_status (\<lambda>r. r\<lparr>rst_last_scheduler_jobs := length jobs\<rparr>)
             (st\<lparr>as_rt := (as_rt st)\<lparr>rs_ports := S\<rparr>\<rparr>))))"
    "length results = length reports"
proof -
  let ?jobs = "map (\<lambda>j. (tj_id j, tj_raw_config j, tj_download_due j)) jobs"
  let ?raws = "map_of (rev (map (\<lambda>j. (tj_id j, tj_raw_config j)) jobs))"
  obtain reports S where t: "test_batch L cfg ''scheduler'' (tk_jobs w) (tk_order w) (tk_batch w) ?jobs
      (rs_ports (as_rt st)) = (reports, S)"
    by fastforce
  let ?reason = "correlated_incident reports (ng_mass_failure_threshold_percent (cfg_network_guard cfg))"
  let ?st = "raise_incident stamp cfg (tk_incident w) ?reason (length reports)
      (on_status (\<lambda>r. r\<lparr>rst_last_scheduler_jobs := length jobs\<rparr>) (st\<lparr>as_rt := (as_rt st)\<lparr>rs_ports := S\<rparr>\<rparr>))"
  obtain results lookups st2 where h: "handle_reports L cfg (map_option (\<lambda>_. batch_incident_id w) ?reason)
      ?raws (tk_reports w) 0 reports ?st = (results, lookups, st2)"
    using prod_cases3 by blast
  have "length results = length reports"
    using length_handle_reports [of L cfg "map_option (\<lambda>_. batch_incident_id w) ?reason"
        ?raws "tk_reports w" 0 reports ?st] h by simp
  moreover have "as_status st' = control (cfg_health cfg)
      (load_signs_of (cfg_health cfg) (tk_pressure w) reports) results (as_status ?st)"
    using assms handle_reports_status [OF h] by (auto simp: run_jobs_def Let_def t h)
  ultimately show thesis using t by (intro that) 
qed

lemma run_jobs_ok:
  assumes "run_jobs stamp L cfg w jobs st = (st', ls)" and "concurrency_range (cfg_health cfg)"
    and "concurrency_ok (cfg_health cfg) (as_status st)"
  shows "concurrency_ok (cfg_health cfg) (as_status st')"
  using assms(1)
proof (rule run_jobs_status)
  fix reports S results
  let ?r = "as_status (raise_incident stamp cfg (tk_incident w)
          (correlated_incident reports (ng_mass_failure_threshold_percent (cfg_network_guard cfg)))
          (length reports) (on_status (\<lambda>r. r\<lparr>rst_last_scheduler_jobs := length jobs\<rparr>)
             (st\<lparr>as_rt := (as_rt st)\<lparr>rs_ports := S\<rparr>\<rparr>)))"
  assume s: "as_status st' = control (cfg_health cfg)
      (load_signs_of (cfg_health cfg) (tk_pressure w) reports) results ?r"
  have "concurrency_ok (cfg_health cfg) ?r"
    using assms(3) by (auto simp: raise_incident_status concurrency_ok_def split: option.splits)
  with s assms(2) show ?thesis by (simp add: control_ok)
qed

lemma scheduler_tick_ok:
  assumes "scheduler_tick stamp L cfg w st = (st', ls)" and "concurrency_range (cfg_health cfg)"
    and "concurrency_ok (cfg_health cfg) (as_status st)"
  shows "concurrency_ok (cfg_health cfg) (as_status st')"
proof -
  let ?st = "on_status (\<lambda>r. r\<lparr>rst_system_pressure := tk_pressure w\<rparr>) st"
  have ok: "concurrency_ok (cfg_health cfg) (as_status ?st)"
    using assms(3) by (simp add: concurrency_ok_def)
  with assms show ?thesis
    by (auto simp: scheduler_tick_def Let_def intro: paused_ok run_jobs_ok
        split: if_splits option.splits prod.splits)
qed

lemma guard_observe_frame:
  "guard_observe c obs (g, r) = ((g', r'), e) \<Longrightarrow>
     rst_xray_concurrency r' = rst_xray_concurrency r \<and>
     rst_download_concurrency r' = rst_download_concurrency r"
  by (auto simp: guard_observe_def Let_def split: prod.splits if_splits)

lemma heartbeat_frame:
  "rst_xray_concurrency (as_status (heartbeat cfg w st)) = rst_xray_concurrency (as_status st)"
  "rst_download_concurrency (as_status (heartbeat cfg w st)) = rst_download_concurrency (as_status st)"
  "rst_network_incident (as_status (heartbeat cfg w st)) = rst_network_incident (as_status st)"
  by (simp_all add: heartbeat_def Let_def split: option.splits)

subsection \<open>The services together\<close>

text \<open>One tick of one service after the other; the guard runs only when it is enabled. Between
  ticks the API and the other loops may change the store, the runtimes and the
  reservations, but not the status.\<close>

inductive app_step ::
  "(instant \<Rightarrow> string) \<Rightarrow> libs \<Rightarrow> AppConfig \<Rightarrow> guard_state \<times> app_state \<Rightarrow> guard_state \<times> app_state \<Rightarrow> bool"
  for stamp L cfg where
  Schedule: "scheduler_tick stamp L cfg w st = (st', ls) \<Longrightarrow> app_step stamp L cfg (g, st) (g, st')"
| Guard: "ng_enabled (cfg_network_guard cfg) \<Longrightarrow>
     guard_tick stamp (cfg_network_guard cfg) obs w g st = (g', st') \<Longrightarrow> app_step stamp L cfg (g, st) (g', st')"
| Heartbeat: "app_step stamp L cfg (g, st) (g, heartbeat cfg w st)"
| VipTick: "app_step stamp L cfg (g, st) (g, vip_tick L cfg w st)"
| Others: "app_step stamp L cfg (g, st) (g, st\<lparr>as_rt := s, as_samples := samples\<rparr>)"

inductive app_run ::
  "(instant \<Rightarrow> string) \<Rightarrow> libs \<Rightarrow> AppConfig \<Rightarrow> guard_state \<times> app_state \<Rightarrow> guard_state \<times> app_state \<Rightarrow> bool"
  for stamp L cfg s where
  Begin: "app_run stamp L cfg s s"
| Continue: "app_run stamp L cfg s t \<Longrightarrow> app_step stamp L cfg t u \<Longrightarrow> app_run stamp L cfg s u"

inductive_cases app_stepE: "app_step stamp L cfg s t"

lemma vip_tick_status [simp]: "as_status (vip_tick L cfg w st) = as_status st"
  by (simp add: vip_tick_def)

lemma app_step_concurrency:
  assumes "app_step stamp L cfg s t" and "concurrency_range (cfg_health cfg)"
    and "concurrency_ok (cfg_health cfg) (as_status (snd s))"
  shows "concurrency_ok (cfg_health cfg) (as_status (snd t))"
  using assms
proof (induction rule: app_step.induct)
  case (Schedule w st st' ls g)
  then show ?case by (auto intro: scheduler_tick_ok)
next
  case (Guard obs w g st g' st')
  then obtain r' e where "guard_observe (cfg_network_guard cfg) obs (g, as_status st) = ((g', r'), e)"
    "as_status st' = r'"
    by (auto simp: guard_tick_def split: prod.splits)
  with guard_observe_frame [OF this(1)] Guard show ?case
    by (simp add: concurrency_ok_frame [of r' "as_status st"])
qed (simp_all add: concurrency_ok_def heartbeat_frame)

text \<open>Only the guard ends an incident.\<close>

lemma paused_incident [simp]: "rst_network_incident (paused h p r) = rst_network_incident r"
  by (simp add: paused_def set_concurrency_def)

lemma control_incident [simp]: "rst_network_incident (control h s results r) = rst_network_incident r"
  by (simp add: control_def set_concurrency_def split: option.splits)

lemma run_jobs_incident:
  assumes "run_jobs stamp L cfg w jobs st = (st', ls)"
    and "test_batch L cfg ''scheduler'' (tk_jobs w) (tk_order w) (tk_batch w)
       (map (\<lambda>j. (tj_id j, tj_raw_config j, tj_download_due j)) jobs) (rs_ports (as_rt st)) = (reports, S)"
  shows "rst_network_incident (as_status st') \<longleftrightarrow> rst_network_incident (as_status st) \<or>
    correlated_incident reports (ng_mass_failure_threshold_percent (cfg_network_guard cfg)) \<noteq> None"
  using assms(1)
proof (rule run_jobs_status)
  fix reports' S' results
  assume "test_batch L cfg ''scheduler'' (tk_jobs w) (tk_order w) (tk_batch w)
       (map (\<lambda>j. (tj_id j, tj_raw_config j, tj_download_due j)) jobs) (rs_ports (as_rt st)) = (reports', S')"
    and "as_status st' = control (cfg_health cfg) (load_signs_of (cfg_health cfg) (tk_pressure w) reports') results
       (as_status (raise_incident stamp cfg (tk_incident w)
          (correlated_incident reports' (ng_mass_failure_threshold_percent (cfg_network_guard cfg)))
          (length reports') (on_status (\<lambda>r. r\<lparr>rst_last_scheduler_jobs := length jobs\<rparr>)
             (st\<lparr>as_rt := (as_rt st)\<lparr>rs_ports := S'\<rparr>\<rparr>))))"
  with assms(2) show ?thesis
    by (auto simp: raise_incident_status split: option.splits)
qed

lemma tick_incident:
  "scheduler_tick stamp L cfg w st = (st', ls) \<Longrightarrow> rst_network_incident (as_status st) \<Longrightarrow>
     rst_network_incident (as_status st') \<and> as_rt st' = as_rt st \<and> as_samples st' = as_samples st \<and> ls = []"
  by (auto simp: scheduler_tick_def Let_def)

lemma step_keeps_incident:
  assumes "app_step stamp L cfg s t" and "\<not> ng_enabled (cfg_network_guard cfg)"
    and "rst_network_incident (as_status (snd s))"
  shows "rst_network_incident (as_status (snd t))"
  using assms
  by (induction rule: app_step.induct) (auto simp: heartbeat_frame dest: tick_incident)

text \<open>A guard that requires HTTP but has only TCP targets never sees a healthy network.\<close>

lemma tcp_sentinels_never_healthy:
  assumes "ng_require_http_success c" and "ng_sentinel_targets c \<noteq> []"
    and "list_all (\<lambda>t. \<not> is_http t) (ng_sentinel_targets c)"
  shows "\<not> fst (sentinel_health c client_ok answers)"
proof -
  have "\<not> list_ex (is_http \<circ> fst) (filter snd (zip (ng_sentinel_targets c) answers))"
    using assms(3) by (auto simp: list_ex_iff list_all_iff dest: set_zip_leftD)
  with assms(1,2) show ?thesis by (simp add: sentinel_health_def Let_def)
qed

subsection \<open>The guard's counters\<close>

text \<open>The counters count the checks since the last one with the other outcome, whatever
  happens to the status meanwhile.\<close>

definition streak :: "bool \<Rightarrow> (bool \<times> string) list \<Rightarrow> nat" where
  "streak b checks = length (takeWhile (\<lambda>c. fst c = b) (rev checks))"

inductive guard_after :: "NetworkGuardConfig \<Rightarrow> (bool \<times> string) list \<Rightarrow> guard_state \<Rightarrow> bool" for c where
  Fresh: "guard_after c [] \<lparr>gs_failures = 0, gs_recoveries = 0\<rparr>"
| Check: "guard_after c checks g \<Longrightarrow> guard_observe c obs (g, r) = ((g', r'), e) \<Longrightarrow>
     guard_after c (checks @ [obs]) g'"

lemma streak_simps [simp]:
  "streak b [] = 0"
  "streak b (checks @ [obs]) = (if fst obs = b then Suc (streak b checks) else 0)"
  by (simp_all add: streak_def)

lemma guard_observe_counters:
  "guard_observe c obs (g, r) = ((g', r'), e) \<Longrightarrow>
     gs_failures g' = (if fst obs then 0 else sat_add32 (gs_failures g) 1) \<and>
     gs_recoveries g' = (if fst obs then sat_add32 (gs_recoveries g) 1 else 0)"
  by (auto simp: guard_observe_def Let_def split: prod.splits if_splits)

lemma guard_after_streaks:
  "guard_after c checks g \<Longrightarrow>
     gs_failures g = min (streak False checks) u32_max \<and> gs_recoveries g = min (streak True checks) u32_max"
proof (induction rule: guard_after.induct)
  case (Check checks g obs r g' r' e)
  then show ?case using guard_observe_counters [OF Check(2)] by (auto simp: sat_add32_def)
qed simp

subsection \<open>Observations during an incident\<close>

lemma masked_inconclusive: "c \<noteq> Success \<Longrightarrow> c \<noteq> InvalidConfig \<Longrightarrow> inconclusive (masked_class True c)"
  by (simp add: masked_class_def)

text \<open>What an inconclusive observation leaves alone in an ACTIVE node with fewer than two
  independent failures.\<close>

definition spared :: "node \<Rightarrow> node \<Rightarrow> bool" where
  "spared n n' \<longleftrightarrow> prior_lifecycle n' = Active \<and>
     n_failure_streak n' = n_failure_streak n \<and>
     n_independent_failure_count n' = n_independent_failure_count n \<and>
     n_publication_lease_until n' = n_publication_lease_until n \<and>
     n_last_failure_run_id n' = n_last_failure_run_id n \<and>
     n_structurally_valid n' = n_structurally_valid n"

definition steady :: "node \<Rightarrow> bool" where
  "steady n \<longleftrightarrow> prior_lifecycle n = Active \<and> n_failure_streak n \<in> {0 .. int u32_max} \<and>
     n_independent_failure_count n \<in> {0, 1}"

lemma as_u32_id: "0 \<le> i \<Longrightarrow> i \<le> int u32_max \<Longrightarrow> int (as_u32 i) = i"
  by (simp add: as_u32_def)

lemma inconclusive_row:
  assumes "steady n" and "inconclusive (ti_class e)"
  shows "spared n (decided_row now e (decide draw (health_input now iv e n ev)) ev n)"
proof -
  let ?i = "health_input now iv e n ev"
  have c: "ti_class e \<noteq> Success" "ti_class e \<noteq> InvalidConfig" using assms(2) by auto
  have i: "hi_class ?i = ti_class e" "hi_prior_lifecycle ?i = Active"
    "hi_failure_streak ?i = as_u32 (n_failure_streak n)"
    "hi_independent_failures ?i = as_u32 (n_independent_failure_count n)"
    "\<not> hi_new_independent_failure ?i"
    using assms by (simp_all add: health_input_def steady_def)
  have s: "int (as_u32 (n_failure_streak n)) = n_failure_streak n"
    "int (as_u32 (n_independent_failure_count n)) = n_independent_failure_count n"
    using assms(1) by (auto simp: steady_def intro: as_u32_id)
  have "as_u32 (n_independent_failure_count n) < 2" using s(2) assms(1) by (auto simp: steady_def)
  then have dec: "decide_lifecycle ?i = Active" "int (next_failure_streak ?i) = n_failure_streak n"
    "int (next_independent_failures ?i) = n_independent_failure_count n"
    "decide_lease ?i = n_publication_lease_until n"
    using assms(2) c i s
    by (auto simp: decide_lifecycle_def Let_def next_independent_failures_def next_failure_streak_def
        decide_lease_not_success health_input_def)
  then show ?thesis
    using assms(2) c by (simp add: spared_def prior_lifecycle_decided) (simp add: decided_row_def Let_def)
qed

lemma spared_trans: "steady n \<Longrightarrow> spared n m \<Longrightarrow> spared m k \<Longrightarrow> spared n k \<and> steady m"
  by (auto simp: spared_def steady_def)

lemma spared_refl: "steady n \<Longrightarrow> spared n n"
  by (simp add: spared_def steady_def)

lemma inconclusive_step:
  assumes "node_of (ti_proxy_id e) d = Some n" and "steady n" and "inconclusive (ti_class e)"
    and "apply_test_event now draw iv e d = Inr (r, d')"
  shows "(\<exists>n'. node_of (ti_proxy_id e) d' = Some n' \<and> spared n n') \<and>
    (\<forall>k. k \<noteq> ti_proxy_id e \<longrightarrow> node_of k d' = node_of k d) \<and>
    (\<exists>ts. db_events d' = db_events d @ ts \<and> (\<forall>t \<in> set ts. te_evidence_alpha t = 0 \<and> te_evidence_beta t = 0))"
  using assms(4)
proof (cases rule: apply_cases)
  case (replay n')
  with assms(1,2) show ?thesis by (auto simp: spared_refl)
next
  case (fresh m ev dec)
  have m: "m = n" using fresh(1) assms(1) by simp
  have row: "te_evidence_alpha (event_row now k e) = 0 \<and> te_evidence_beta (event_row now k e) = 0" for k
    using delta_inconclusive [OF assms(3)] by (simp add: event_row_def Let_def event_contribution_def)
  have "n_id n = ti_proxy_id e" using assms(1) by (rule node_of_id)
  then have "node_of (ti_proxy_id e) d' = Some (decided_row now e dec ev n)"
    by (simp add: fresh(5) decided.node_of_upd assms(1))
  moreover have "spared n (decided_row now e dec ev n)"
    unfolding fresh(4) m by (rule inconclusive_row) (rule assms(2,3))+
  moreover have "node_of k d' = node_of k d" if "k \<noteq> ti_proxy_id e" for k
    using that node_of_id [of k d] by (cases "node_of k d") (auto simp: fresh(5) decided.node_of_upd)
  ultimately show ?thesis using row by (auto simp: fresh(5))
qed

lemma masked_events:
  assumes "node_of nid d = Some n" and "steady n"
    and "\<forall>e \<in> set es. pv_class e \<noteq> Success \<and> pv_class e \<noteq> InvalidConfig"
    and "apply_events h w (Some inc) nid j es (samples, d) = (samples', d')"
  shows "(\<exists>n'. node_of nid d' = Some n' \<and> spared n n') \<and>
    (\<forall>k. k \<noteq> nid \<longrightarrow> node_of k d' = node_of k d) \<and>
    (\<exists>ts. db_events d' = db_events d @ ts \<and> (\<forall>t \<in> set ts. te_evidence_alpha t = 0 \<and> te_evidence_beta t = 0))"
  using assms
proof (induction es arbitrary: j samples d n)
  case Nil
  then show ?case by (auto simp: spared_refl)
next
  case (Cons e es)
  let ?x = "report_event w (Some inc) nid j e"
  have x: "ti_proxy_id ?x = nid" "inconclusive (ti_class ?x)"
    using Cons.prems(3) by (simp_all add: report_event_def masked_inconclusive)
  have "apply_test_event (ro_clock w j) (ro_draw w j) (test_intervals h) ?x d \<noteq> Inl m" for m
    using Cons.prems(1) x(1) by (simp add: apply_error)
  then obtain r d1 where a: "apply_test_event (ro_clock w j) (ro_draw w j) (test_intervals h) ?x d = Inr (r, d1)"
    by (cases "apply_test_event (ro_clock w j) (ro_draw w j) (test_intervals h) ?x d") auto
  let ?d = "if ro_apply_ok w j then d1 else d"
  have step: "(\<exists>n'. node_of nid ?d = Some n' \<and> spared n n') \<and> (\<forall>k. k \<noteq> nid \<longrightarrow> node_of k ?d = node_of k d) \<and>
    (\<exists>ts. db_events ?d = db_events d @ ts \<and> (\<forall>t \<in> set ts. te_evidence_alpha t = 0 \<and> te_evidence_beta t = 0))"
    using inconclusive_step [of ?x d n, OF _ Cons.prems(2) x(2) a] Cons.prems(1) x(1)
      spared_refl [OF Cons.prems(2)] by auto
  then obtain n1 where n1: "node_of nid ?d = Some n1" "spared n n1" by blast
  have st: "steady n1" using spared_trans [OF Cons.prems(2) n1(2)] n1(2) by (auto simp: spared_def steady_def)
  obtain samples1 where rest: "apply_events h w (Some inc) nid (Suc j) es (samples1, ?d) = (samples', d')"
    using Cons.prems(4) a by (auto simp: Let_def logged_def split: if_splits)
  have "\<forall>e \<in> set es. pv_class e \<noteq> Success \<and> pv_class e \<noteq> InvalidConfig" using Cons.prems(3) by simp
  note later = Cons.IH [OF n1(1) st this rest]
  obtain ts us where ts: "db_events ?d = db_events d @ ts" "\<forall>t \<in> set ts. te_evidence_alpha t = 0 \<and> te_evidence_beta t = 0"
    and us: "db_events d' = db_events ?d @ us" "\<forall>t \<in> set us. te_evidence_alpha t = 0 \<and> te_evidence_beta t = 0"
    using step later by blast
  then have "db_events d' = db_events d @ (ts @ us) \<and>
      (\<forall>t \<in> set (ts @ us). te_evidence_alpha t = 0 \<and> te_evidence_beta t = 0)"
    by auto
  moreover have "\<exists>n'. node_of nid d' = Some n' \<and> spared n n'"
    using later spared_trans [OF Cons.prems(2) n1(2)] by blast
  moreover have "\<forall>k. k \<noteq> nid \<longrightarrow> node_of k d' = node_of k d"
    using later step by metis
  ultimately show ?case by blast
qed

subsection \<open>Restoring\<close>

lemma reconcile_total:
  "reconcile_from L cfg k w i started failed cs s = ((a, b), s') \<Longrightarrow> started + failed + length cs = k \<Longrightarrow>
     a + b = k"
proof (induction L cfg k w i started failed cs s rule: reconcile_from.induct)
  case (2 L cfg k w i started failed c cs s)
  obtain r s1 es where e: "ensure_runtime L cfg (w i) (rc_id c) (rc_raw_config c) s = (r, s1, es)"
    using prod_cases3 by blast
  show ?case
  proof (cases r)
    case (Inl m)
    with 2 e show ?thesis
      by (cases "contains m ''persistent Xray runtime cap''") (auto simp: e Inl)
  next
    case (Inr p)
    with 2 e show ?thesis by (auto simp: e Inr)
  qed
qed simp

text \<open>Every port the database names is served by a runtime of this process.\<close>

definition ports_served :: "runtime_state \<Rightarrow> bool" where
  "ports_served s \<longleftrightarrow> (\<forall>k n p. node_of k (rs_db s) = Some n \<and> n_main_port n = Some p \<longrightarrow>
     (\<exists>q. port_for k (rs_mgr s) = Some q \<and> p = uint q))"

lemma ensure_ports_served:
  assumes "ensure_runtime L cfg w nid raw s = (r, s', es)" and "ports_served s"
  shows "ports_served s'"
  using assms(1)
proof (cases rule: ensure_runtime_cases)
  case (started p S m)
  have here: "port_for nid m = Some p" by (simp add: port_for_def started(3))
  have keep: "port_for k (rs_mgr s) = Some q \<Longrightarrow> port_for k m = Some q" for k q
    using started(1) by (auto simp: port_for_def started(3))
  have rows: "\<exists>q. port_for k m = Some q \<and> x = uint q"
    if "node_of k d = Some n" "n_main_port n = Some x"
      "d \<in> {rs_db s, set_main_port (en_now w) nid p (rs_db s)}" for k n x d
  proof (cases "node_of k (rs_db s)")
    case None
    with that show ?thesis by (auto simp: set_main_port_def port.node_of_upd)
  next
    case (Some n0)
    have "n_id n0 = k" using Some by (rule node_of_id)
    with that Some have "n = n0 \<or> k = nid \<and> x = uint p"
      by (auto simp: set_main_port_def port.node_of_upd port_row_def split: if_splits)
    with that(2) Some assms(2) keep here show ?thesis by (fastforce simp: ports_served_def)
  qed
  have m: "rs_mgr s' = m" and d: "rs_db s' \<in> {rs_db s, set_main_port (en_now w) nid p (rs_db s)}"
    using started(7) by (auto split: option.splits)
  show ?thesis unfolding ports_served_def m using rows [OF _ _ d] by blast
qed (use assms(2) in \<open>auto simp: ports_served_def\<close>)

lemma reconcile_from_served:
  "reconcile_from L cfg k w i started failed cs s = (ab, s') \<Longrightarrow> ports_served s \<Longrightarrow> ports_served s'"
proof (induction L cfg k w i started failed cs s rule: reconcile_from.induct)
  case (2 L cfg k w i started failed c cs s)
  obtain r s1 es where e: "ensure_runtime L cfg (w i) (rc_id c) (rc_raw_config c) s = (r, s1, es)"
    using prod_cases3 by blast
  note served = ensure_ports_served [OF e "2.prems"(2)]
  show ?case
  proof (cases r)
    case (Inl m)
    with 2 e served show ?thesis
      by (cases "contains m ''persistent Xray runtime cap''") (auto simp: e Inl)
  next
    case (Inr p)
    with 2 e served show ?thesis by (auto simp: e Inr)
  qed
qed simp

lemma clear_stale_no_port:
  assumes "clear_stale_runtime_ports now d = (k, d')" and "node_of i d' = Some n"
  shows "n_main_port n = None"
proof -
  obtain n0 where "n = (if n_main_port n0 \<noteq> None then port_row now None n0 else n0)"
    using assms by (auto simp: clear_stale_runtime_ports_def port.node_of_upd)
  then show ?thesis by (cases "n_main_port n0 = None") (simp_all add: port_row_def)
qed

subsection \<open>Log samples\<close>

definition samples_ok :: "log_samples \<Rightarrow> bool" where
  "samples_ok m \<longleftrightarrow> distinct (map fst m)"

text \<open>The sampled entries of a run of calls, by the instants at which they were emitted.\<close>

fun emitted :: "(string \<times> string \<times> instant) list \<Rightarrow> log_samples \<Rightarrow> ((string \<times> string) \<times> instant) list" where
  "emitted [] m = []"
| "emitted ((proxy, class, now) # calls) m =
     (case should_emit_failure_log proxy class now m of
        (b, m') \<Rightarrow> (if b then [((proxy, class), now)] else []) @ emitted calls m')"

lemma should_emit_cases:
  assumes "should_emit_failure_log p c now m = (b, m')" and "samples_ok m"
  shows "samples_ok m' \<and> (b \<longleftrightarrow> (\<forall>seen. ((p, c), seen) \<in> set m \<longrightarrow> retry_log_sample_window \<le> since now seen)) \<and>
    (b \<longrightarrow> ((p, c), now) \<in> set m') \<and> set m' \<subseteq> insert ((p, c), now) (set m) \<and>
    (\<forall>k seen. (k, seen) \<in> set m \<and> since now seen < retry_log_sample_window \<longrightarrow> (k, seen) \<in> set m')"
proof -
  let ?fresh = "filter (\<lambda>(_, seen). since now seen < retry_log_sample_window) m"
  have d: "distinct (map fst ?fresh)"
    using assms(2) by (simp add: samples_ok_def distinct_map_filter)
  then have look: "map_of ?fresh (p, c) = Some seen \<longleftrightarrow> ((p, c), seen) \<in> set m \<and> since now seen < retry_log_sample_window" for seen
    by (auto simp: map_of_eq_Some_iff)
  show ?thesis
  proof (cases "map_of ?fresh (p, c)")
    case None
    then have none: "\<not> (((p, c), seen) \<in> set m \<and> since now seen < retry_log_sample_window)" for seen
      using look by (metis option.distinct(1))
    with None assms(1) have "b" "m' = ((p, c), now) # filter (\<lambda>(k, _). k \<noteq> (p, c)) ?fresh"
      by (auto simp: should_emit_failure_log_def Let_def)
    have ok: "samples_ok m'"
      using distinct_map_filter [OF d, of "\<lambda>(k, _). k \<noteq> (p, c)"]
      by (auto simp: \<open>m' = _\<close> samples_ok_def simp del: filter_filter)
    have due: "\<forall>seen. ((p, c), seen) \<in> set m \<longrightarrow> retry_log_sample_window \<le> since now seen"
      using none not_less by blast
    have keep: "\<forall>k seen. (k, seen) \<in> set m \<and> since now seen < retry_log_sample_window \<longrightarrow> (k, seen) \<in> set m'"
      using none by (auto simp: \<open>m' = _\<close>)
    have sub: "set m' \<subseteq> insert ((p, c), now) (set m)" "((p, c), now) \<in> set m'"
      by (auto simp: \<open>m' = _\<close>)
    show ?thesis using ok due keep sub \<open>b\<close> by blast
  next
    case (Some seen)
    with look have s: "((p, c), seen) \<in> set m" "since now seen < retry_log_sample_window" by auto
    with Some assms(1) have "\<not> b" "m' = ?fresh"
      by (auto simp: should_emit_failure_log_def Let_def)
    moreover have "samples_ok ?fresh" using d by (simp add: samples_ok_def)
    moreover have "\<not> (\<forall>seen. ((p, c), seen) \<in> set m \<longrightarrow> retry_log_sample_window \<le> since now seen)"
      using s not_less by blast
    ultimately show ?thesis by auto
  qed
qed

lemma emitted_time: "(k, t) \<in> set (emitted calls m) \<Longrightarrow> \<exists>x \<in> set calls. snd (snd x) = t"
proof (induction calls arbitrary: m)
  case (Cons call calls)
  obtain p c now where call: "call = (p, c, now)" using prod_cases3 by blast
  obtain b m' where "should_emit_failure_log p c now m = (b, m')" by fastforce
  with Cons.prems have "t = now \<or> (k, t) \<in> set (emitted calls m')"
    by (auto simp: call split: if_splits)
  with Cons.IH show ?case by (auto simp: call)
qed simp

lemma emitted_spaced:
  assumes "sorted (map (snd \<circ> snd) calls)" and "samples_ok m"
    and "\<forall>(k, seen) \<in> set m. \<forall>call \<in> set calls. seen \<le> snd (snd call)"
  shows "sorted_wrt (\<lambda>(k1, t1) (k2, t2). k1 = k2 \<longrightarrow> t1 + retry_log_sample_window \<le> t2) (emitted calls m) \<and>
    (\<forall>(k, t) \<in> set (emitted calls m). \<forall>seen. (k, seen) \<in> set m \<longrightarrow> seen + retry_log_sample_window \<le> t)"
  using assms
proof (induction calls arbitrary: m)
  case (Cons call calls)
  obtain p c now where call: "call = (p, c, now)" using prod_cases3 by blast
  obtain b m' where e: "should_emit_failure_log p c now m = (b, m')" by fastforce
  note step = should_emit_cases [OF e Cons.prems(2)]
  have later: "now \<le> snd (snd x)" if "x \<in> set calls" for x
    using Cons.prems(1) that by (auto simp: call)
  have le: "\<forall>(k, seen) \<in> set m'. \<forall>call \<in> set calls. seen \<le> snd (snd call)"
  proof (clarify)
    fix k seen y1 y2 t assume x: "(k, seen) \<in> set m'" and y: "(y1, y2, t) \<in> set calls"
    have "(k, seen) = ((p, c), now) \<or> (k, seen) \<in> set m" using step x by blast
    then show "seen \<le> snd (snd (y1, y2, t))"
    proof
      assume "(k, seen) = ((p, c), now)"
      with later [OF y] show ?thesis by simp
    next
      assume "(k, seen) \<in> set m"
      from bspec [OF Cons.prems(3) this] y show ?thesis by fastforce
    qed
  qed
  have "sorted (map (snd \<circ> snd) calls)" and "samples_ok m'" using Cons.prems(1) step by (simp_all add: comp_def)
  note IH = Cons.IH [OF this le]
  have ih: "sorted_wrt (\<lambda>(k1, t1) (k2, t2). k1 = k2 \<longrightarrow> t1 + retry_log_sample_window \<le> t2) (emitted calls m')"
    using IH by (rule conjunct1)
  have ih2: "seen + retry_log_sample_window \<le> t"
    if "(k, t) \<in> set (emitted calls m')" "(k, seen) \<in> set m'" for k t seen
    using bspec [OF conjunct2 [OF IH] that(1)] that(2) by simp
  have after: "now \<le> t" if "(k, t) \<in> set (emitted calls m')" for k t
    using emitted_time [OF that] later by blast
  have kept: "seen + retry_log_sample_window \<le> t"
    if "(k, t) \<in> set (emitted calls m')" "(k, seen) \<in> set m" for k t seen
  proof (cases "since now seen < retry_log_sample_window")
    case True
    with step that(2) have "(k, seen) \<in> set m'" by blast
    with that(1) show ?thesis by (rule ih2)
  next
    case False
    with after [OF that(1)] show ?thesis
      by (auto simp: since_def retry_log_sample_window_def time_defs max_def split: if_splits)
  qed
  have first: "seen + retry_log_sample_window \<le> now" if "b" "((p, c), seen) \<in> set m" for seen
    using step that by (force simp: since_def retry_log_sample_window_def time_defs max_def split: if_splits)
  have head: "emitted (call # calls) m = (if b then [((p, c), now)] else []) @ emitted calls m'"
    by (simp add: call e)
  have next_one: "now + retry_log_sample_window \<le> t" if "b" "((p, c), t) \<in> set (emitted calls m')" for t
    using step that by (intro ih2 [of "(p, c)"]) auto
  show ?case
  proof (cases b)
    case True
    with ih next_one kept first show ?thesis by (auto simp: head)
  next
    case False
    with ih kept show ?thesis by (auto simp: head)
  qed
qed simp

section \<open>Properties\<close>

text \<open>C23. The adaptive concurrency: starting from the configured minimum, every sequence of ticks
  of the services keeps both concurrency values within their configured bounds, and so a
  tick always has at least one slot when the minimum is positive. One window changes a
  value by at most one step up, or down to at most seven tenths (but not below the
  minimum).\<close>

theorem concurrency_bounded:
  assumes "app_run stamp L cfg (g, st) (g', st')" and "as_status st = initial_status now cfg"
    and "hc_xray_concurrency_min (cfg_health cfg) \<le> hc_xray_concurrency_max (cfg_health cfg)"
    and "hc_download_concurrency_min (cfg_health cfg) \<le> hc_download_concurrency_max (cfg_health cfg)"
  shows "rst_xray_concurrency (as_status st') \<in>
      {hc_xray_concurrency_min (cfg_health cfg) .. hc_xray_concurrency_max (cfg_health cfg)} \<and>
    rst_download_concurrency (as_status st') \<in>
      {hc_download_concurrency_min (cfg_health cfg) .. hc_download_concurrency_max (cfg_health cfg)} \<and>
    (\<forall>signs results r. concurrency_ok (cfg_health cfg) r \<longrightarrow>
       (let r' = control (cfg_health cfg) signs results r
        in rst_xray_concurrency r' \<le> rst_xray_concurrency r + 1 \<and>
           (decrease_reason signs \<noteq> None \<longrightarrow>
              rst_xray_concurrency r' = max (hc_xray_concurrency_min (cfg_health cfg))
                (nat \<lfloor>real (rst_xray_concurrency r) * (7 / 10)\<rfloor>))))"
proof (intro conjI allI impI)
  have range: "concurrency_range (cfg_health cfg)" using assms(3,4) by (simp add: concurrency_range_def)
  have "concurrency_ok (cfg_health cfg) (as_status (snd (g', st')))"
    using assms(1)
  proof (induction rule: app_run.induct)
    case Begin
    show ?case using assms(2-4) by (simp add: concurrency_ok_def initial_status_def)
  next
    case (Continue t u)
    show ?case by (rule app_step_concurrency [OF Continue(2) range Continue(3)])
  qed
  then show "rst_xray_concurrency (as_status st') \<in>
      {hc_xray_concurrency_min (cfg_health cfg) .. hc_xray_concurrency_max (cfg_health cfg)}"
    "rst_download_concurrency (as_status st') \<in>
      {hc_download_concurrency_min (cfg_health cfg) .. hc_download_concurrency_max (cfg_health cfg)}"
    by (simp_all add: concurrency_ok_def)
  fix signs :: load_signs and results and r :: RuntimeStatus
  assume ok: "concurrency_ok (cfg_health cfg) r"
  show "let r' = control (cfg_health cfg) signs results r
        in rst_xray_concurrency r' \<le> rst_xray_concurrency r + 1 \<and>
           (decrease_reason signs \<noteq> None \<longrightarrow>
              rst_xray_concurrency r' = max (hc_xray_concurrency_min (cfg_health cfg))
                (nat \<lfloor>real (rst_xray_concurrency r) * (7 / 10)\<rfloor>))"
    using control_steps [OF ok assms(3)] by (simp add: Let_def)
qed

definition idle_app :: app_state where
  "idle_app = \<lparr>as_status = initial_status 0 default_config, as_rt = idle_state empty_db, as_samples = []\<rparr>"

definition calm_guard :: guard_state where
  "calm_guard = \<lparr>gs_failures = 0, gs_recoveries = 0\<rparr>"

theorem concurrency_bounded_witness:
  "rst_xray_concurrency (as_status (vip_tick sample_libs default_config (vip_round 0) idle_app)) \<in>
     {hc_xray_concurrency_min default_health .. hc_xray_concurrency_max default_health}"
proof -
  have "app_run (\<lambda>_. []) sample_libs default_config (calm_guard, idle_app)
      (calm_guard, vip_tick sample_libs default_config (vip_round 0) idle_app)"
    by (rule Continue [OF Begin VipTick])
  moreover have "as_status idle_app = initial_status 0 default_config" by (simp add: idle_app_def)
  moreover have "cfg_health default_config = default_health" by (simp add: default_config_def)
  moreover have "hc_xray_concurrency_min default_health \<le> hc_xray_concurrency_max default_health"
    "hc_download_concurrency_min default_health \<le> hc_download_concurrency_max default_health"
    by (simp_all add: default_health_def)
  ultimately show ?thesis using concurrency_bounded [of "\<lambda>_. []" sample_libs default_config calm_guard idle_app
      calm_guard "vip_tick sample_libs default_config (vip_round 0) idle_app" 0] by simp
qed

text \<open>C24. The network guard has hysteresis: after any sequence of checks, the next check starts an
  incident exactly when it completes a run of failed checks of the configured length, and
  ends one exactly when it completes a run of successful checks of the configured length;
  every change, and nothing else, is reported. The run of successful checks may lie before
  the incident: one that the scheduler raised while the sentinels answer is ended by the
  very next check.\<close>

theorem guard_hysteresis:
  assumes "guard_after c checks g" and "guard_observe c obs (g, r) = ((g', r'), e)"
    and "ng_failure_threshold c \<le> u32_max" and "ng_recovery_threshold c \<le> u32_max"
  shows "(\<not> rst_network_incident r \<and> rst_network_incident r' \<longleftrightarrow>
       \<not> rst_network_incident r \<and> \<not> fst obs \<and>
       max (ng_failure_threshold c) 1 \<le> streak False (checks @ [obs])) \<and>
    (rst_network_incident r \<and> \<not> rst_network_incident r' \<longleftrightarrow>
       rst_network_incident r \<and> fst obs \<and>
       max (ng_recovery_threshold c) 1 \<le> streak True (checks @ [obs])) \<and>
    (e \<noteq> None \<longleftrightarrow> rst_network_incident r' \<noteq> rst_network_incident r) \<and>
    (rst_network_incident r \<and> fst obs \<and> ng_recovery_threshold c \<le> streak True checks \<longrightarrow>
       \<not> rst_network_incident r')"
proof -
  have g: "gs_failures g = min (streak False checks) u32_max" "gs_recoveries g = min (streak True checks) u32_max"
    using guard_after_streaks [OF assms(1)] by simp_all
  have up: "max k 1 \<le> sat_add32 (min n u32_max) 1 \<longleftrightarrow> max k 1 \<le> Suc n" if "k \<le> u32_max" for k n
    using that by (auto simp: sat_add32_def)
  show ?thesis
  proof (cases "fst obs")
    case True
    with assms(2) show ?thesis
      using up [OF assms(4), of "streak True checks"]
      by (auto simp: guard_observe_def Let_def g split: prod.splits if_splits)
  next
    case False
    with assms(2) show ?thesis
      using up [OF assms(3), of "streak False checks"]
      by (auto simp: guard_observe_def Let_def g split: prod.splits if_splits)
  qed
qed

theorem guard_hysteresis_witness:
  "\<exists>g r' e. guard_observe default_network_guard (True, ''ok'')
      (calm_guard, (initial_status 0 default_config)\<lparr>rst_network_incident := True\<rparr>) = ((g, r'), e) \<and>
     \<not> rst_network_incident r' \<and> e \<noteq> None"
proof -
  let ?r = "(initial_status 0 default_config)\<lparr>rst_network_incident := True\<rparr>"
  obtain g r' e where o: "guard_observe default_network_guard (True, ''ok'') (calm_guard, ?r) = ((g, r'), e)"
    by (metis surj_pair)
  have "guard_after default_network_guard [] calm_guard"
    unfolding calm_guard_def by (rule guard_after.Fresh)
  moreover have "streak True ([] @ [(True, ''ok'')]) = 1" by (subst streak_simps) simp
  moreover have "ng_failure_threshold default_network_guard = 1" "ng_recovery_threshold default_network_guard = 1"
    by (simp_all add: default_network_guard_def)
  ultimately have "\<not> rst_network_incident r' \<and> e \<noteq> None"
    using guard_hysteresis [of default_network_guard "[]" calm_guard "(True, ''ok'')" ?r g r' e] o by auto
  with o show ?thesis by blast
qed

text \<open>C14. A shared incident pauses the scheduler until the guard ends it: while the flag is set no
  tick touches the store, the runtimes or the ports, and a tick that detects a correlated
  failure sets the flag. With the guard disabled nothing clears it: whatever the services
  do from then on, the flag stays and no tick ever tests a proxy again.\<close>

theorem incident_without_guard:
  assumes "app_run stamp L cfg (g, st) (g', st')" and "\<not> ng_enabled (cfg_network_guard cfg)"
    and "rst_network_incident (as_status st)"
  shows "rst_network_incident (as_status st') \<and>
    (\<forall>w t ls. scheduler_tick stamp L cfg w st' = (t, ls) \<longrightarrow> as_rt t = as_rt st' \<and> ls = []) \<and>
    (\<forall>w jobs s t ls reports S. run_jobs stamp L cfg w jobs s = (t, ls) \<and>
       test_batch L cfg ''scheduler'' (tk_jobs w) (tk_order w) (tk_batch w)
         (map (\<lambda>j. (tj_id j, tj_raw_config j, tj_download_due j)) jobs) (rs_ports (as_rt s)) = (reports, S) \<and>
       is_mass_failure reports (ng_mass_failure_threshold_percent (cfg_network_guard cfg)) \<longrightarrow>
       rst_network_incident (as_status t))"
proof (intro conjI allI impI)
  have "rst_network_incident (as_status (snd (g', st')))"
    using assms(1)
  proof (induction rule: app_run.induct)
    case Begin
    show ?case using assms(3) by simp
  next
    case (Continue t u)
    show ?case by (rule step_keeps_incident [OF Continue(2) assms(2) Continue(3)])
  qed
  then show flag: "rst_network_incident (as_status st')" by simp
  show "as_rt t = as_rt st'" if "scheduler_tick stamp L cfg w st' = (t, ls)" for w t ls
    using tick_incident [OF that flag] by simp
  show "ls = []" if "scheduler_tick stamp L cfg w st' = (t, ls)" for w t ls
    using tick_incident [OF that flag] by simp
qed (auto simp: run_jobs_incident is_mass_failure_def)

definition unguarded :: AppConfig where
  "unguarded = default_config\<lparr>cfg_network_guard := default_network_guard\<lparr>ng_enabled := False\<rparr>\<rparr>"

theorem incident_without_guard_witness:
  "\<forall>w. rst_network_incident (as_status (heartbeat unguarded w
     (idle_app\<lparr>as_status := (initial_status 0 unguarded)\<lparr>rst_network_incident := True\<rparr>\<rparr>)))"
proof (rule allI)
  fix w
  let ?st = "idle_app\<lparr>as_status := (initial_status 0 unguarded)\<lparr>rst_network_incident := True\<rparr>\<rparr>"
  have "app_run (\<lambda>_. []) sample_libs unguarded (calm_guard, ?st) (calm_guard, heartbeat unguarded w ?st)"
    by (rule Continue [OF Begin Heartbeat])
  from incident_without_guard [OF this] show "rst_network_incident (as_status (heartbeat unguarded w ?st))"
    by (simp add: unguarded_def)
qed


definition lost_report :: ProbeReport where
  "lost_report = \<lparr>pr_proxy = None, pr_events = [event Relay RelayTimeout None (JObj [])]\<rparr>"

definition plain_report_obs :: report_obs where
  "plain_report_obs = \<lparr>ro_run_id = ''run'', ro_clock = (\<lambda>_. 7), ro_draw = (\<lambda>_ c. c), ro_pressure = (\<lambda>_. 0),
     ro_apply_ok = (\<lambda>_. True), ro_ensure = alone_env None, ro_claim_at = 8, ro_claim_ok = True,
     ro_settled_at = 9, ro_settle_ok = True\<rparr>"


text \<open>After a restart no client is sent to a dead port: once the stale ports are cleared and
  the runtimes are restored, every port the database names is served by a runtime of this
  process, whatever failed meanwhile, and every candidate is counted as started or failed.\<close>

theorem restart_serves_ports:
  assumes "clear_stale_runtime_ports now (rs_db s0) = (k, d)" and "rs_mgr s0 = empty_manager"
    and "reconcile_active_runtimes L cfg now' load_ok w (s0\<lparr>rs_db := d\<rparr>) = ((started, failed), s)"
  shows "(\<forall>i n p. node_of i (rs_db s) = Some n \<and> n_main_port n = Some p \<longrightarrow>
       (\<exists>q. port_for i (rs_mgr s) = Some q \<and> p = uint q)) \<and>
    (load_ok \<longrightarrow> started + failed = length (active_runtime_candidates now' d))"
proof -
  have "ports_served (s0\<lparr>rs_db := d\<rparr>)"
    using clear_stale_no_port [OF assms(1)] by (auto simp: ports_served_def)
  with assms(3) have "ports_served s"
    by (auto simp: reconcile_active_runtimes_def Let_def split: if_splits dest: reconcile_from_served)
  moreover have "load_ok \<Longrightarrow> started + failed = length (active_runtime_candidates now' d)"
    using assms(3) by (auto simp: reconcile_active_runtimes_def Let_def dest: reconcile_total)
  ultimately show ?thesis by (simp add: ports_served_def)
qed

theorem restart_serves_ports_witness:
  "\<exists>k d started failed s. clear_stale_runtime_ports 1 sample_fleet = (k, d) \<and>
     reconcile_active_runtimes sample_libs two_ports 2 True (\<lambda>_. alone_env None) (idle_state d)
       = ((started, failed), s) \<and> started + failed = 1"
proof -
  obtain k d where c: "clear_stale_runtime_ports 1 sample_fleet = (k, d)" by fastforce
  obtain started failed s where r: "reconcile_active_runtimes sample_libs two_ports 2 True (\<lambda>_. alone_env None)
      (idle_state d) = ((started, failed), s)"
    by (metis surj_pair)
  have i: "idle_state d = (idle_state sample_fleet)\<lparr>rs_db := d\<rparr>" by (simp add: idle_state_def)
  have "length (active_runtime_candidates 2 d) = 1"
    using c by (auto simp: clear_stale_runtime_ports_def active_runtime_candidates_def sample_fleet_def
        restorable_def new_node_def port_row_def time_defs)
  moreover have "rs_db (idle_state sample_fleet) = sample_fleet" "rs_mgr (idle_state sample_fleet) = empty_manager"
    by (simp_all add: idle_state_def)
  ultimately have "started + failed = 1"
    using restart_serves_ports [of 1 "idle_state sample_fleet" k d sample_libs two_ports 2 True "\<lambda>_. alone_env None"
        started failed s] c r by (simp add: i)
  with c r show ?thesis by blast
qed

text \<open>Retry logs are sampled: in a run of failures with non-decreasing times, two lines for
  the same proxy and failure class are at least thirty seconds apart, starting from an
  empty sampler.\<close>

theorem failure_logs_spaced:
  assumes "sorted (map (snd \<circ> snd) calls)" and "i < j" and "j < length (emitted calls [])"
    and "fst (emitted calls [] ! i) = fst (emitted calls [] ! j)"
  shows "snd (emitted calls [] ! i) + seconds 30 \<le> snd (emitted calls [] ! j)"
proof -
  have "sorted_wrt (\<lambda>(k1, t1) (k2, t2). k1 = k2 \<longrightarrow> t1 + retry_log_sample_window \<le> t2) (emitted calls [])"
    using emitted_spaced [OF assms(1), of "[]"] by (simp add: samples_ok_def)
  from sorted_wrt_nth_less [OF this assms(2,3)] assms(4) show ?thesis
    by (auto simp: retry_log_sample_window_def split: prod.splits)
qed

theorem failure_logs_spaced_witness:
  "length (emitted [(''n'', ''TCP_TIMEOUT'', 0), (''n'', ''TCP_TIMEOUT'', seconds 5), (''n'', ''TCP_TIMEOUT'', seconds 30)] []) = 2 \<and>
   snd (emitted [(''n'', ''TCP_TIMEOUT'', 0), (''n'', ''TCP_TIMEOUT'', seconds 5), (''n'', ''TCP_TIMEOUT'', seconds 30)] [] ! 0) + seconds 30
     \<le> snd (emitted [(''n'', ''TCP_TIMEOUT'', 0), (''n'', ''TCP_TIMEOUT'', seconds 5), (''n'', ''TCP_TIMEOUT'', seconds 30)] [] ! 1)"
proof -
  let ?calls = "[(''n'', ''TCP_TIMEOUT'', 0), (''n'', ''TCP_TIMEOUT'', seconds 5), (''n'', ''TCP_TIMEOUT'', seconds 30)]"
  have e: "emitted ?calls [] = [((''n'', ''TCP_TIMEOUT''), 0), ((''n'', ''TCP_TIMEOUT''), seconds 30)]"
    by (simp add: should_emit_failure_log_def Let_def since_def retry_log_sample_window_def time_defs)
  have "sorted (map (snd \<circ> snd) ?calls)" by (simp add: time_defs)
  from failure_logs_spaced [OF this, of 0 1] show ?thesis unfolding e by simp
qed

end
