(* ===== verification/Upstream.thy ===== *)
theory Upstream
  imports App Generations
begin

text \<open>
  Filling the fleet from outside: the refresh of the subscription sources
  (\<open>src/src/upstream/mod.rs\<close>) with its periodic loop (\<open>src/src/app.rs\<close>), the manual import
  of the application service (\<open>src/src/service.rs\<close>) and the metadata lookup through a
  running proxy (\<open>src/src/metadata.rs\<close>).

  \<^item> The network is an argument: what each source answers to a conditional request, and the
    order in which the concurrent requests finish.
  \<^item> A failing statement of the store is an argument too; it ends the refresh where it
    stands, as the question mark does. While the answers are absorbed it fails between two
    answers, never between the two writes of one.
\<close>

section \<open>Refreshing the sources\<close>

record RefreshReport =
  rfr_generation :: int
  rfr_complete :: bool
  rfr_source_count :: nat
  rfr_successful_sources :: nat
  rfr_accepted :: nat
  rfr_rejected :: nat
  rfr_inserted :: nat
  rfr_errors :: "string list"

datatype FetchResult = Body string "string option" "string option" | NotModified

text \<open>A response: its status, headers and body, and what \<open>reqwest\<close> prints for an error status.\<close>

record source_response =
  rs_status :: nat
  rs_header :: "string \<Rightarrow> string option"
  rs_body :: "string + string"
  rs_status_error :: string

text \<open>\<open>HeaderValue::to_str\<close>: visible ASCII only.\<close>

definition header_text :: "source_response \<Rightarrow> string \<Rightarrow> string option" where
  "header_text r name =
     (case rs_header r name of
        None \<Rightarrow> None
      | Some v \<Rightarrow>
          if list_all (\<lambda>c. 32 \<le> (of_char c :: nat) \<and> (of_char c :: nat) < 127 \<or> (of_char c :: nat) = 9) v
          then Some v else None)"

definition fetch_one :: "string + source_response \<Rightarrow> string + FetchResult" where
  "fetch_one answer =
     (case answer of
        Inl e \<Rightarrow> Inl e
      | Inr r \<Rightarrow>
          if rs_status r = 304 then Inr NotModified
          else if 400 \<le> rs_status r \<and> rs_status r < 600 then Inl (rs_status_error r)
          else (case rs_body r of
              Inl e \<Rightarrow> Inl e
            | Inr body \<Rightarrow> Inr (Body body (header_text r ''etag'') (header_text r ''last-modified''))))"

text \<open>What happens during one refresh; \<open>rf_send\<close> answers a request that carries the two validators.\<close>

record refresh_obs =
  rf_begin_at :: instant
  rf_run_id :: string
  rf_begin_error :: "string option"
  rf_client_error :: "string option"
  rf_send :: "SubscriptionSource \<Rightarrow> string option \<Rightarrow> string option \<Rightarrow> string + source_response"
  rf_order :: "nat list"
  rf_at :: "nat \<Rightarrow> instant"
  rf_uid :: "nat \<Rightarrow> string"
  rf_write_error :: "nat \<Rightarrow> string option"
  rf_ingest_at :: instant
  rf_fresh :: "nat \<Rightarrow> string"
  rf_ingest_error :: "string option"
  rf_finish_at :: instant
  rf_finish_error :: "string option"

record refresh_tally =
  rl_successful :: nat
  rl_accepted :: nat
  rl_rejected :: nat
  rl_errors :: "string list"
  rl_parsed :: "ParsedProxy list"

definition empty_tally :: refresh_tally where
  "empty_tally = \<lparr>rl_successful = 0, rl_accepted = 0, rl_rejected = 0, rl_errors = [], rl_parsed = []\<rparr>"

definition fetch_source ::
  "refresh_obs \<Rightarrow> SubscriptionSource \<Rightarrow> string option \<Rightarrow> string option \<Rightarrow> string + FetchResult" where
  "fetch_source w s etag modified = fetch_one (rf_send w s etag modified)"

text \<open>The validators sent are the ones stored when the refresh begins.\<close>

definition fetch_all ::
  "refresh_obs \<Rightarrow> SubscriptionSource list \<Rightarrow> db \<Rightarrow> (SubscriptionSource \<times> (string + FetchResult)) list" where
  "fetch_all w sources d =
     finished_in (rf_order w)
       (map (\<lambda>s. (s, case source_http_cache (ss_name s) d of (etag, modified) \<Rightarrow> fetch_source w s etag modified))
            sources)"

text \<open>One answer, in the order of arrival.\<close>

definition absorb ::
  "libs \<Rightarrow> int \<Rightarrow> instant \<Rightarrow> string \<Rightarrow> SubscriptionSource \<times> (string + FetchResult) \<Rightarrow> refresh_tally \<times> db \<Rightarrow>
   refresh_tally \<times> db" where
  "absorb L gen now uid answer s =
     (case answer of (source, outcome) \<Rightarrow> case s of (t, d) \<Rightarrow>
       (case outcome of
          Inr (Body body etag modified) \<Rightarrow>
            (let report = parse_subscription L body (ss_name source)
             in (t\<lparr>rl_successful := rl_successful t + 1,
                   rl_accepted := rl_accepted t + length (rep_accepted report),
                   rl_rejected := rl_rejected t + length (rep_rejected report),
                   rl_parsed := rl_parsed t @ rep_accepted report\<rparr>,
                 record_invalid_config_rejections now uid (ss_name source) (rep_rejected report)
                   (record_source_success now (ss_name source) (ss_url source) etag modified d)))
        | Inr NotModified \<Rightarrow>
            (case copy_cached_source_generation now (ss_name source) gen d of
               (copied, d1) \<Rightarrow>
                 (t\<lparr>rl_successful := rl_successful t + 1, rl_accepted := rl_accepted t + copied\<rparr>,
                  record_source_success now (ss_name source) (ss_url source) None None d1))
        | Inl e \<Rightarrow>
            (t\<lparr>rl_errors := rl_errors t @ [ss_name source @ '': '' @ e]\<rparr>,
             record_source_failure (ss_name source) (ss_url source) d)))"

fun absorb_all ::
  "libs \<Rightarrow> int \<Rightarrow> refresh_obs \<Rightarrow> nat \<Rightarrow> (SubscriptionSource \<times> (string + FetchResult)) list \<Rightarrow>
   refresh_tally \<times> db \<Rightarrow> string option \<times> refresh_tally \<times> db" where
  "absorb_all L gen w i [] s = (None, s)"
| "absorb_all L gen w i (x # xs) s =
     (case rf_write_error w i of
        Some e \<Rightarrow> (Some e, s)
      | None \<Rightarrow> absorb_all L gen w (Suc i) xs (absorb L gen (rf_at w i) (rf_uid w i) x s))"

definition refresh :: "libs \<Rightarrow> AppConfig \<Rightarrow> refresh_obs \<Rightarrow> db \<Rightarrow> (string + RefreshReport) \<times> db" where
  "refresh L cfg w d =
     (let sources = sub_urls (cfg_subscriptions cfg) in
      case rf_begin_error w of Some e \<Rightarrow> (Inl e, d) | None \<Rightarrow>
      (case begin_refresh (rf_begin_at w) (rf_run_id w) (length sources) d of (gen, d1) \<Rightarrow>
      (case rf_client_error w of Some e \<Rightarrow> (Inl e, d1) | None \<Rightarrow>
      (case absorb_all L gen w 0 (fetch_all w sources d1) (empty_tally, d1) of
         (Some e, _, d2) \<Rightarrow> (Inl e, d2)
       | (None, t, d2) \<Rightarrow>
      (case rf_ingest_error w of Some e \<Rightarrow> (Inl e, d2) | None \<Rightarrow>
      (case ingest_many (rf_ingest_at w) gen (rf_fresh w) (rl_parsed t) d2 of (inserted, d3) \<Rightarrow>
      (case rf_finish_error w of Some e \<Rightarrow> (Inl e, d3) | None \<Rightarrow>
      (case finish_refresh (rf_finish_at w) (rf_run_id w) gen (length sources) (rl_successful t)
              (rl_accepted t) (complete_generations_before_retire (cfg_subscriptions cfg)) d3 of
         (full, d4) \<Rightarrow>
           (Inr \<lparr>rfr_generation = gen, rfr_complete = full, rfr_source_count = length sources,
                 rfr_successful_sources = rl_successful t, rfr_accepted = rl_accepted t,
                 rfr_rejected = rl_rejected t, rfr_inserted = inserted, rfr_errors = rl_errors t\<rparr>, d4)))))))))"

text \<open>The periodic loop: manual and periodic refreshes share one flag, taken by compare and
  exchange; a tick that finds it taken does nothing.\<close>

definition report_json :: "RefreshReport \<Rightarrow> json" where
  "report_json r =
     json_obj [(''generation'', JInt (rfr_generation r)), (''complete'', JBool (rfr_complete r)),
       (''source_count'', JInt (int (rfr_source_count r))),
       (''successful_sources'', JInt (int (rfr_successful_sources r))),
       (''accepted'', JInt (int (rfr_accepted r))), (''rejected'', JInt (int (rfr_rejected r))),
       (''inserted'', JInt (int (rfr_inserted r))), (''errors'', JArr (map JStr (rfr_errors r)))]"

definition refresh_tick ::
  "(instant \<Rightarrow> string) \<Rightarrow> libs \<Rightarrow> AppConfig \<Rightarrow> refresh_obs \<Rightarrow> instant \<Rightarrow> bool \<Rightarrow> bool \<times> db \<Rightarrow> bool \<times> db" where
  "refresh_tick stamp L cfg w now ok s =
     (case s of (in_progress, d) \<Rightarrow>
        if in_progress then (in_progress, d)
        else (case refresh L cfg w d of (r, d1) \<Rightarrow>
          (False, logged ok (set_service_state now ''last_refresh''
             (case r of
                Inr report \<Rightarrow> json_obj [(''at'', JStr (stamp now)), (''status'', JStr ''ok''),
                  (''report'', report_json report)]
              | Inl e \<Rightarrow> json_obj [(''at'', JStr (stamp now)), (''status'', JStr ''error''),
                  (''error'', JStr e)])) d1)))"

section \<open>The application service\<close>

record ManualImportResult =
  mi_accepted :: nat
  mi_rejected :: nat
  mi_inserted :: nat
  mi_errors :: "string list"

text \<open>One transaction for each accepted line; generation 0 is no refresh.\<close>

fun import_each ::
  "instant \<Rightarrow> (nat \<Rightarrow> string) \<Rightarrow> nat \<Rightarrow> ParsedProxy list \<Rightarrow> nat \<times> db \<Rightarrow> nat \<times> db" where
  "import_each now fresh i [] s = s"
| "import_each now fresh i (p # ps) s =
     (case ingest_proxy now 0 (\<lambda>_. fresh i) p (snd s) of
        (inserted, d) \<Rightarrow> import_each now fresh (Suc i) ps (fst s + (if inserted then 1 else 0), d))"

definition manual_import ::
  "libs \<Rightarrow> instant \<Rightarrow> string \<Rightarrow> (nat \<Rightarrow> string) \<Rightarrow> string \<Rightarrow> db \<Rightarrow> ManualImportResult \<times> db" where
  "manual_import L now uid fresh configs d =
     (let report = parse_subscription L configs ''manual'';
          (inserted, d') = import_each now fresh 0 (rep_accepted report)
             (0, record_invalid_config_rejections now uid ''manual'' (rep_rejected report) d)
      in (\<lparr>mi_accepted = length (rep_accepted report), mi_rejected = length (rep_rejected report),
           mi_inserted = inserted, mi_errors = rep_rejected report\<rparr>, d'))"

section \<open>Exit metadata\<close>

definition field :: "json \<Rightarrow> string list \<Rightarrow> string" where
  "field value names =
     trim (case List.map_filter (\<lambda>n. Option.bind (json_get n value) json_str) names of
       [] \<Rightarrow> [] | s # _ \<Rightarrow> s)"

fun json_f64 :: "json \<Rightarrow> real option" where
  "json_f64 (JInt i) = Some (real_of_int i)"
| "json_f64 (JReal x) = Some x"
| "json_f64 _ = None"

text \<open>\<open>show_real\<close> is the standard library's \<open>Display\<close> of \<open>f64\<close>.\<close>

definition parse_metadata :: "(real \<Rightarrow> string) \<Rightarrow> json \<Rightarrow> ExitMetadata" where
  "parse_metadata show_real raw =
     (let loc0 = field raw [''loc''];
          loc = (if loc0 = [] then
                   (case (Option.bind (json_get ''latitude'' raw) json_f64,
                          Option.bind (json_get ''longitude'' raw) json_f64) of
                      (Some latitude, Some longitude) \<Rightarrow> show_real latitude @ '','' @ show_real longitude
                    | _ \<Rightarrow> [])
                 else loc0)
      in \<lparr>em_ip = field raw [''ip'', ''query''], em_hostname = field raw [''hostname''],
          em_city = field raw [''city''], em_region = field raw [''region'', ''region_name''],
          em_country = field raw [''country_code'', ''country''], em_loc = loc,
          em_org = field raw [''org'', ''asn_org''], em_postal = field raw [''postal'', ''zip''],
          em_timezone = field raw [''timezone''], em_raw = Json raw\<rparr>)"

text \<open>The spawned lookup: an answer is recorded, a failure gives the lease back.\<close>

definition refresh_via_runtime ::
  "(real \<Rightarrow> string) \<Rightarrow> instant \<Rightarrow> string \<Rightarrow> string + json \<Rightarrow> db \<Rightarrow> (string + unit) \<times> db" where
  "refresh_via_runtime show_real now nid answer d =
     (case answer of
        Inl e \<Rightarrow> (Inl e, d)
      | Inr value \<Rightarrow> (Inr (), record_exit_metadata now nid (parse_metadata show_real value) d))"

definition metadata_task ::
  "(real \<Rightarrow> string) \<Rightarrow> instant \<Rightarrow> string \<Rightarrow> string + json \<Rightarrow> db \<Rightarrow> db" where
  "metadata_task show_real now nid answer d =
     (case refresh_via_runtime show_real now nid answer d of
        (Inr _, d') \<Rightarrow> d' | (Inl _, d') \<Rightarrow> release_metadata_lease nid d')"

section \<open>Lemmas\<close>

subsection \<open>What ingestion may do to a node\<close>

definition upstream_keeps :: "node \<Rightarrow> node \<Rightarrow> bool" where
  "upstream_keeps n n' \<longleftrightarrow>
     (n_lifecycle_state n' = n_lifecycle_state n \<or>
      n_lifecycle_state n = ''RETIRED'' \<and> n_lifecycle_state n' = ''CANDIDATE'') \<and>
     n_publication_lease_until n' = n_publication_lease_until n \<and>
     n_health_score n' = n_health_score n \<and>
     n_upstream_missing_generations n' \<in> {n_upstream_missing_generations n, 0}"

definition db_keeps :: "db \<Rightarrow> db \<Rightarrow> bool" where
  "db_keeps d d' \<longleftrightarrow>
     (\<forall>k n. node_of k d = Some n \<longrightarrow> (\<exists>n'. node_of k d' = Some n' \<and> upstream_keeps n n'))"

lemma upstream_keeps_refl [simp]: "upstream_keeps n n"
  by (simp add: upstream_keeps_def)

lemma upstream_keeps_trans: "upstream_keeps a b \<Longrightarrow> upstream_keeps b c \<Longrightarrow> upstream_keeps a c"
  by (auto simp: upstream_keeps_def)

lemma db_keeps_trans: "db_keeps a b \<Longrightarrow> db_keeps b c \<Longrightarrow> db_keeps a c"
  unfolding db_keeps_def using upstream_keeps_trans by blast

lemma db_keeps_nodes: "db_nodes d' = db_nodes d \<Longrightarrow> db_keeps d d'"
  by (simp add: db_keeps_def node_of_def)

lemma refreshed_keeps: "upstream_keeps n (refreshed_row now gen p n)"
  by (simp add: upstream_keeps_def refreshed_row_def Let_def)

lemma seen_keeps: "upstream_keeps n (seen_row now gen n)"
  by (simp add: upstream_keeps_def seen_row_def)

lemma db_nodes_frames [simp]:
  "db_nodes (record_source_success now name url etag modified d) = db_nodes d"
  "db_nodes (record_source_failure name url d) = db_nodes d"
  "db_nodes (record_invalid_config_rejections now uid name rejected d) = db_nodes d"
  "db_nodes (snd (begin_refresh now uid k d)) = db_nodes d"
  "db_sources (snd (begin_refresh now uid k d)) = db_sources d"
  by (simp_all add: record_source_success_def record_source_failure_def begin_refresh_def Let_def
      record_invalid_config_rejections_def record_system_event_def)

lemma ingest_step_keeps: "db_keeps d (snd (ingest_step now gen uid p d))"
proof (cases rule: ingest_step_cases [of p d now gen uid])
  case (seen row)
  show ?thesis
    using refreshed_keeps by (auto simp: seen(2) db_keeps_def refreshed.node_of_upd)
next
  case new
  have "node_of k (on_nodes (\<lambda>ns. ns @ [x]) d) = Some n" if "node_of k d = Some n" for k n x
    using that by (simp add: node_of_def find_row_append)
  then show ?thesis by (auto simp: new(2) db_keeps_def)
qed

lemma ingest_many_keeps: "db_keeps d (snd (ingest_many now gen fresh ps d))"
proof -
  have "db_keeps d (snd (ingest_loop now gen fresh ps k d))" for k
  proof (induction ps arbitrary: k d)
    case (Cons p ps)
    show ?case
      using db_keeps_trans [OF ingest_step_keeps Cons.IH] by (simp split: prod.split) (metis snd_conv)
  qed (simp add: db_keeps_nodes)
  then show ?thesis by (simp add: ingest_many_def)
qed

lemma copy_keeps: "db_keeps d (snd (copy_cached_source_generation now source gen d))"
  using seen_keeps
  by (auto simp: copy_cached_source_generation_def Let_def seen.node_of_upd db_keeps_def
      split: option.split)

lemma absorb_keeps: "absorb L gen now uid x (t, d) = (t', d') \<Longrightarrow> db_keeps d d'"
proof -
  assume a: "absorb L gen now uid x (t, d) = (t', d')"
  obtain source outcome where x: "x = (source, outcome)" by fastforce
  show ?thesis
  proof (cases "outcome = Inr NotModified")
    case True
    obtain copied d1 where c: "copy_cached_source_generation now (ss_name source) gen d = (copied, d1)"
      by fastforce
    have "db_keeps d d1" using copy_keeps [of d now "ss_name source" gen] c by simp
    moreover have "db_keeps d1 d'" using a x c True by (auto simp: absorb_def intro: db_keeps_nodes)
    ultimately show ?thesis by (rule db_keeps_trans)
  qed (use a x in \<open>auto simp: absorb_def Let_def intro!: db_keeps_nodes
        split: sum.splits FetchResult.splits\<close>)
qed

lemma absorb_all_keeps:
  "absorb_all L gen w i xs (t, d) = (e, t', d') \<Longrightarrow> db_keeps d d'"
proof (induction xs arbitrary: i t d)
  case (Cons x xs)
  show ?case
  proof (cases "rf_write_error w i")
    case None
    obtain t1 d1 where a: "absorb L gen (rf_at w i) (rf_uid w i) x (t, d) = (t1, d1)" by fastforce
    with Cons.prems None have "absorb_all L gen w (Suc i) xs (t1, d1) = (e, t', d')" by simp
    from db_keeps_trans [OF absorb_keeps [OF a] Cons.IH [OF this]] show ?thesis .
  qed (use Cons.prems in \<open>auto simp: db_keeps_nodes\<close>)
qed (simp add: db_keeps_nodes)

subsection \<open>Accounting\<close>

definition failed_answers :: "(SubscriptionSource \<times> (string + FetchResult)) list \<Rightarrow> nat" where
  "failed_answers xs = length (filter (\<lambda>x. isl (snd x)) xs)"

lemma absorb_tally:
  "absorb L gen now uid x (t, d) = (t', d') \<Longrightarrow>
     rl_successful t' = rl_successful t + (if isl (snd x) then 0 else 1) \<and>
     length (rl_errors t') = length (rl_errors t) + (if isl (snd x) then 1 else 0)"
  by (cases x, cases "snd x") (auto simp: absorb_def Let_def split: FetchResult.splits prod.splits)

lemma absorb_all_tally:
  "absorb_all L gen w i xs (t, d) = (None, t', d') \<Longrightarrow>
     length (rl_errors t') = length (rl_errors t) + failed_answers xs \<and>
     rl_successful t' + failed_answers xs = rl_successful t + length xs"
proof (induction xs arbitrary: i t d)
  case (Cons x xs)
  then have n: "rf_write_error w i = None" by (cases "rf_write_error w i") auto
  obtain t1 d1 where a: "absorb L gen (rf_at w i) (rf_uid w i) x (t, d) = (t1, d1)" by fastforce
  with Cons.prems n have "absorb_all L gen w (Suc i) xs (t1, d1) = (None, t', d')" by simp
  from Cons.IH [OF this] absorb_tally [OF a] show ?case by (auto simp: failed_answers_def)
qed (simp add: failed_answers_def)

lemma length_fetch_all [simp]: "length (fetch_all w sources d) = length sources"
  unfolding fetch_all_def by (rule trans [OF mset_eq_length [OF mset_finished_in]]) simp

lemma set_fetch_all: "set (fetch_all w sources d) =
    (\<lambda>s. (s, case source_http_cache (ss_name s) d of (etag, modified) \<Rightarrow> fetch_source w s etag modified)) ` set sources"
  by (simp add: fetch_all_def)

text \<open>How a refresh runs.\<close>

lemma refresh_cases:
  assumes "refresh L cfg w d = (r, d')"
  obtains
    (early) e where "r = Inl e" "db_keeps d d'"
  | (stopped) e t where "r = Inl e" "absorb_all L (fst (begin_refresh (rf_begin_at w) (rf_run_id w)
         (length (sub_urls (cfg_subscriptions cfg))) d)) w 0
       (fetch_all w (sub_urls (cfg_subscriptions cfg)) d)
       (empty_tally, snd (begin_refresh (rf_begin_at w) (rf_run_id w) (length (sub_urls (cfg_subscriptions cfg))) d))
       = (None, t, d')" "rf_ingest_error w = Some e"
  | (finished) gen d1 t d2 inserted d3 where
      "begin_refresh (rf_begin_at w) (rf_run_id w) (length (sub_urls (cfg_subscriptions cfg))) d = (gen, d1)"
      "absorb_all L gen w 0 (fetch_all w (sub_urls (cfg_subscriptions cfg)) d) (empty_tally, d1) = (None, t, d2)"
      "ingest_many (rf_ingest_at w) gen (rf_fresh w) (rl_parsed t) d2 = (inserted, d3)"
      "d' = snd (finish_refresh (rf_finish_at w) (rf_run_id w) gen (length (sub_urls (cfg_subscriptions cfg)))
         (rl_successful t) (rl_accepted t) (complete_generations_before_retire (cfg_subscriptions cfg)) d3)"
      "r = Inr \<lparr>rfr_generation = gen,
         rfr_complete = fst (finish_refresh (rf_finish_at w) (rf_run_id w) gen
           (length (sub_urls (cfg_subscriptions cfg))) (rl_successful t) (rl_accepted t)
           (complete_generations_before_retire (cfg_subscriptions cfg)) d3),
         rfr_source_count = length (sub_urls (cfg_subscriptions cfg)),
         rfr_successful_sources = rl_successful t, rfr_accepted = rl_accepted t,
         rfr_rejected = rl_rejected t, rfr_inserted = inserted, rfr_errors = rl_errors t\<rparr>"
proof -
  let ?sources = "sub_urls (cfg_subscriptions cfg)"
  obtain gen d1 where b: "begin_refresh (rf_begin_at w) (rf_run_id w) (length ?sources) d = (gen, d1)"
    by fastforce
  have d1: "db_keeps d d1" "db_sources d1 = db_sources d"
    using b db_nodes_frames(4,5) [of "rf_begin_at w" "rf_run_id w" "length ?sources" d]
    by (auto intro: db_keeps_nodes)
  then have f: "fetch_all w ?sources d1 = fetch_all w ?sources d"
    by (simp add: fetch_all_def source_http_cache_def)
  obtain e t d2 where a: "absorb_all L gen w 0 (fetch_all w ?sources d) (empty_tally, d1) = (e, t, d2)"
    using prod_cases3 by blast
  have d2: "db_keeps d d2" using db_keeps_trans [OF d1(1) absorb_all_keeps [OF a]] .
  obtain inserted d3 where i: "ingest_many (rf_ingest_at w) gen (rf_fresh w) (rl_parsed t) d2 = (inserted, d3)"
    by fastforce
  have d3: "db_keeps d d3"
    using db_keeps_trans [OF d2 ingest_many_keeps, of "rf_ingest_at w" gen "rf_fresh w" "rl_parsed t"] i by simp
  have run: "refresh L cfg w d =
    (case rf_begin_error w of Some e \<Rightarrow> (Inl e, d) | None \<Rightarrow>
     case rf_client_error w of Some e \<Rightarrow> (Inl e, d1) | None \<Rightarrow>
     case e of Some m \<Rightarrow> (Inl m, d2) | None \<Rightarrow>
     case rf_ingest_error w of Some e \<Rightarrow> (Inl e, d2) | None \<Rightarrow>
     case rf_finish_error w of Some e \<Rightarrow> (Inl e, d3) | None \<Rightarrow>
     case finish_refresh (rf_finish_at w) (rf_run_id w) gen (length ?sources)
         (rl_successful t) (rl_accepted t) (complete_generations_before_retire (cfg_subscriptions cfg)) d3 of
       (full, d4) \<Rightarrow> (Inr \<lparr>rfr_generation = gen, rfr_complete = full, rfr_source_count = length ?sources,
         rfr_successful_sources = rl_successful t, rfr_accepted = rl_accepted t,
         rfr_rejected = rl_rejected t, rfr_inserted = inserted, rfr_errors = rl_errors t\<rparr>, d4))"
    by (simp add: refresh_def b f a i Let_def split: option.split)
  show thesis
  proof (cases "rf_begin_error w = None \<and> rf_client_error w = None \<and> e = None")
    case False
    then show thesis using assms run d1 d2
      by (auto intro: early db_keeps_nodes split: option.splits)
  next
    case True
    note ok = this
    show thesis
    proof (cases "rf_ingest_error w")
      case (Some m)
      with assms run ok a b show thesis by (intro stopped [of m t]) auto
    next
      case None
      show thesis
      proof (cases "rf_finish_error w")
        case (Some m)
        with assms run ok None d3 show thesis by (intro early [of m]) auto
      next
        case finish: None
        show thesis
          using assms run ok None finish a b i
          by (intro finished [of gen d1 t d2 inserted d3]) (auto split: prod.splits)
      qed
    qed
  qed
qed

section \<open>Properties of a refresh\<close>

lemma refresh_tally_of:
  assumes "absorb_all L gen w i (fetch_all w sources d) (empty_tally, d1) = (None, t, d2)"
  shows "length (rl_errors t) = failed_answers (fetch_all w sources d)"
    and "rl_successful t + length (rl_errors t) = length sources"
  using absorb_all_tally [OF assms] by (simp_all add: empty_tally_def)

lemma failed_answer_counts:
  assumes "s \<in> set sources"
    and "isl (case source_http_cache (ss_name s) d of (etag, modified) \<Rightarrow> fetch_source w s etag modified)"
  shows "0 < failed_answers (fetch_all w sources d)"
proof -
  let ?x = "(s, case source_http_cache (ss_name s) d of (etag, modified) \<Rightarrow> fetch_source w s etag modified)"
  have "?x \<in> set (filter (\<lambda>x. isl (snd x)) (fetch_all w sources d))"
    using assms by (auto simp: set_fetch_all)
  then show ?thesis unfolding failed_answers_def by (metis length_pos_if_in_set)
qed

text \<open>C26. A partial outage retires nothing: when the request to one configured source fails, the
  refresh keeps every node. Its state changes only if it was RETIRED and reappeared, its
  misses only to zero, its publication lease and its score never; and a report of such a
  refresh says that it was not complete and names an error.\<close>

theorem partial_outage_retires_nothing:
  assumes "s \<in> set (sub_urls (cfg_subscriptions cfg))"
    and "\<forall>etag modified. isl (fetch_source w s etag modified)"
    and "refresh L cfg w d = (r, d')" and "node_of k d = Some n"
  shows "(\<exists>n'. node_of k d' = Some n' \<and>
      (n_lifecycle_state n' = n_lifecycle_state n \<or>
       n_lifecycle_state n = ''RETIRED'' \<and> n_lifecycle_state n' = ''CANDIDATE'') \<and>
      n_upstream_missing_generations n' \<in> {n_upstream_missing_generations n, 0} \<and>
      n_publication_lease_until n' = n_publication_lease_until n \<and>
      n_health_score n' = n_health_score n) \<and>
    (\<forall>report. r = Inr report \<longrightarrow> \<not> rfr_complete report \<and> rfr_errors report \<noteq> [])"
proof -
  have f: "0 < failed_answers (fetch_all w (sub_urls (cfg_subscriptions cfg)) d)"
    using failed_answer_counts [OF assms(1)] assms(2) by (simp split: prod.split)
  have "db_keeps d d' \<and> (\<forall>report. r = Inr report \<longrightarrow> \<not> rfr_complete report \<and> rfr_errors report \<noteq> [])"
    using assms(3)
  proof (cases rule: refresh_cases)
    case (stopped e t)
    have "db_keeps d (snd (begin_refresh (rf_begin_at w) (rf_run_id w) (length (sub_urls (cfg_subscriptions cfg))) d))"
      by (simp add: db_keeps_nodes)
    from db_keeps_trans [OF this absorb_all_keeps [OF stopped(2)]] stopped(1) show ?thesis by simp
  next
    case (finished gen d1 t d2 inserted d3)
    have partial: "rl_successful t \<noteq> length (sub_urls (cfg_subscriptions cfg))" "rl_errors t \<noteq> []"
      using refresh_tally_of [OF finished(2)] f by auto
    have "db_keeps d d1"
      using finished(1) db_nodes_frames(4) by (metis db_keeps_nodes snd_conv)
    from db_keeps_trans [OF this absorb_all_keeps [OF finished(2)]] have "db_keeps d d2" .
    from db_keeps_trans [OF this ingest_many_keeps] finished(3) have "db_keeps d d3"
      by (metis snd_conv)
    moreover have "db_nodes d' = db_nodes d3"
      unfolding finished(4) using partial(1) by (intro finish_partial) simp
    ultimately have "db_keeps d d'" using db_keeps_trans db_keeps_nodes by blast
    with finished(5) partial show ?thesis by (simp add: finish_refresh_def Let_def)
  qed simp
  with assms(4) show ?thesis unfolding db_keeps_def upstream_keeps_def by blast
qed

definition dark_obs :: refresh_obs where
  "dark_obs = \<lparr>rf_begin_at = 0, rf_run_id = ''run'', rf_begin_error = None, rf_client_error = None,
     rf_send = (\<lambda>_ _ _. Inl ''timeout''), rf_order = [], rf_at = (\<lambda>_. 0), rf_uid = (\<lambda>_. ''e''),
     rf_write_error = (\<lambda>_. None), rf_ingest_at = 0, rf_fresh = (\<lambda>_. ''n''),
     rf_ingest_error = None, rf_finish_at = 0, rf_finish_error = None\<rparr>"

definition feed_source :: SubscriptionSource where
  "feed_source = \<lparr>ss_name = ''feed'', ss_url = ''https://feed.example/sub''\<rparr>"

definition feed_config :: AppConfig where
  "feed_config = default_config
     \<lparr>cfg_subscriptions := default_subscriptions\<lparr>sub_urls := [feed_source]\<rparr>\<rparr>"

lemma feed_config_sources [simp]: "sub_urls (cfg_subscriptions feed_config) = [feed_source]"
  by (simp add: feed_config_def)

theorem partial_outage_retires_nothing_witness:
  "\<exists>n'. node_of ''a'' (snd (refresh sample_libs feed_config dark_obs sample_store)) = Some n' \<and>
     n_lifecycle_state n' = ''DORMANT''"
proof -
  obtain r d' where run: "refresh sample_libs feed_config dark_obs sample_store = (r, d')" by fastforce
  obtain n where n: "node_of ''a'' sample_store = Some n" "n_lifecycle_state n = ''DORMANT''"
    using sample_store_a by simp
  have "feed_source \<in> set (sub_urls (cfg_subscriptions feed_config))"
    "\<forall>etag modified. isl (fetch_source dark_obs feed_source etag modified)"
    by (simp_all add: dark_obs_def fetch_source_def fetch_one_def)
  from partial_outage_retires_nothing [OF this run n(1)] n(2) run show ?thesis by auto
qed

subsection \<open>The report\<close>

lemma absorb_parsed:
  "absorb L gen now uid x (t, d) = (t', d') \<Longrightarrow> length (rl_parsed t) \<le> rl_accepted t \<Longrightarrow>
     length (rl_parsed t') \<le> rl_accepted t'"
  by (cases x, cases "snd x") (auto simp: absorb_def Let_def split: FetchResult.splits prod.splits)

lemma absorb_all_parsed:
  "absorb_all L gen w i xs (t, d) = (e, t', d') \<Longrightarrow> length (rl_parsed t) \<le> rl_accepted t \<Longrightarrow>
     length (rl_parsed t') \<le> rl_accepted t'"
proof (induction xs arbitrary: i t d)
  case (Cons x xs)
  show ?case
  proof (cases "rf_write_error w i")
    case None
    obtain t1 d1 where a: "absorb L gen (rf_at w i) (rf_uid w i) x (t, d) = (t1, d1)" by fastforce
    with Cons.prems(1) None have "absorb_all L gen w (Suc i) xs (t1, d1) = (e, t', d')" by simp
    from Cons.IH [OF this absorb_parsed [OF a Cons.prems(2)]] show ?thesis .
  qed (use Cons.prems in auto)
qed simp

lemma ingest_many_le: "ingest_many now gen fresh ps d = (k, d') \<Longrightarrow> k \<le> length ps"
proof -
  have "ingest_loop now gen fresh ps k0 d = (k, d') \<Longrightarrow> k \<le> k0 + length ps" for k0
  proof (induction ps arbitrary: k0 d)
    case (Cons p ps)
    from Cons.prems obtain b d1 where
      "ingest_loop now gen fresh ps (if b then k0 + 1 else k0) d1 = (k, d')"
      by (auto split: prod.splits)
    from Cons.IH [OF this] show ?case by (auto split: if_splits)
  qed simp
  then show "ingest_many now gen fresh ps d = (k, d') \<Longrightarrow> k \<le> length ps"
    by (fastforce simp: ingest_many_def)
qed

lemma begin_refresh_newer:
  "begin_refresh now uid k d = (gen, d1) \<Longrightarrow> run \<in> set (db_runs d) \<Longrightarrow> rr_generation run < gen"
  using max_opt_ge [of "rr_generation run" "map rr_generation (db_runs d)"]
  by (auto simp: begin_refresh_def Let_def)

text \<open>A report adds up: every configured source is either successful or named in the errors,
  the refresh is complete exactly when there are sources and no errors, no more rows are
  inserted than lines were accepted, and its generation is newer than every earlier run's.\<close>

theorem refresh_accounting:
  assumes "refresh L cfg w d = (Inr report, d')"
  shows "rfr_source_count report = length (sub_urls (cfg_subscriptions cfg)) \<and>
    rfr_successful_sources report + length (rfr_errors report) = rfr_source_count report \<and>
    (rfr_complete report \<longleftrightarrow> sub_urls (cfg_subscriptions cfg) \<noteq> [] \<and> rfr_errors report = []) \<and>
    rfr_inserted report \<le> rfr_accepted report \<and>
    (\<forall>run \<in> set (db_runs d). rr_generation run < rfr_generation report)"
  using assms
proof (cases rule: refresh_cases)
  case (finished gen d1 t d2 inserted d3)
  have "inserted \<le> rl_accepted t"
    using ingest_many_le [OF finished(3)] absorb_all_parsed [OF finished(2)]
    by (simp add: empty_tally_def)
  with finished(5) refresh_tally_of [OF finished(2)] begin_refresh_newer [OF finished(1)]
  show ?thesis by (auto simp: finish_refresh_def Let_def)
qed simp_all

theorem refresh_accounting_witness:
  "\<exists>report. fst (refresh sample_libs feed_config dark_obs sample_store) = Inr report \<and>
     length (rfr_errors report) = 1 \<and> \<not> rfr_complete report"
proof -
  obtain r d' where run: "refresh sample_libs feed_config dark_obs sample_store = (r, d')" by fastforce
  have "\<not> isl (fst (refresh sample_libs feed_config dark_obs sample_store)) \<and>
      (\<forall>report. fst (refresh sample_libs feed_config dark_obs sample_store) = Inr report \<longrightarrow>
         rfr_successful_sources report = 0)"
    by (simp add: refresh_def dark_obs_def begin_refresh_def Let_def fetch_all_def finished_in_def
        absorb_def empty_tally_def ingest_many_def fetch_source_def fetch_one_def split: prod.splits)
  with run obtain report where r: "r = Inr report" "rfr_successful_sources report = 0"
    by (cases r) auto
  with refresh_accounting [OF run [unfolded r(1)]] run show ?thesis by auto
qed

subsection \<open>Validators and members\<close>

text \<open>C31. The validators of a source outlive the members they stand for: when a source answers with
  a new body and storing the parsed proxies then fails, the refresh reports the error with
  no node and no member changed, but the new entity tag is already stored. The next
  conditional request of the source will carry it, so an unchanged source answers that
  nothing is new and the lines of that body are not ingested.\<close>

theorem etag_outlives_members:
  assumes "sub_urls (cfg_subscriptions cfg) = [s]"
    and "\<forall>etag modified. fetch_source w s etag modified = Inr (Body body (Some tag) (Some date))"
    and "rf_begin_error w = None" and "rf_client_error w = None" and "rf_write_error w 0 = None"
    and "rf_ingest_error w = Some e"
  shows "\<exists>d'. refresh L cfg w d = (Inl e, d') \<and> db_nodes d' = db_nodes d \<and>
    db_members d' = db_members d \<and>
    source_http_cache (ss_name s) d' = (Some tag, Some date) \<and>
    fetch_all w' [s] d' = [(s, fetch_source w' s (Some tag) (Some date))]"
proof -
  have one: "finished_in order [x] = [x]" for order and x :: "SubscriptionSource \<times> (string + FetchResult)"
    using mset_finished_in [of order "[x]"] by (simp del: mset_finished_in)
  obtain gen d1 where b: "begin_refresh (rf_begin_at w) (rf_run_id w) (Suc 0) d = (gen, d1)" by fastforce
  define d' where "d' = record_invalid_config_rejections (rf_at w 0) (rf_uid w 0) (ss_name s)
    (rep_rejected (parse_subscription L body (ss_name s)))
    (record_source_success (rf_at w 0) (ss_name s) (ss_url s) (Some tag) (Some date) d1)"
  have run: "refresh L cfg w d = (Inl e, d')"
    using assms by (simp add: refresh_def b fetch_all_def one absorb_def Let_def d'_def split: prod.split)
  have frame: "db_nodes d1 = db_nodes d" "db_members d1 = db_members d"
    using b by (auto simp: begin_refresh_def Let_def)
  have keep: "db_members d' = db_members d1" "db_nodes d' = db_nodes d1"
    "db_sources d' = db_sources (record_source_success (rf_at w 0) (ss_name s) (ss_url s) (Some tag) (Some date) d1)"
    by (simp_all add: d'_def record_invalid_config_rejections_def record_system_event_def
        record_source_success_def Let_def)
  have cache: "source_http_cache (ss_name s) d' = (Some tag, Some date)"
    by (simp add: source_http_cache_def keep(3) record_source_success_def
        find_row_upsert_key [where key = us_name and ?k0.0 = "ss_name s"] split: option.split)
  then have "fetch_all w' [s] d' = [(s, fetch_source w' s (Some tag) (Some date))]"
    by (simp add: fetch_all_def one)
  with run cache frame keep show ?thesis by simp
qed

theorem etag_outlives_members_witness:
  "\<exists>w. (fst (refresh sample_libs feed_config w sample_store) = Inl ''disk full'') \<and>
     source_http_cache ''feed'' (snd (refresh sample_libs feed_config w sample_store))
       = (Some ''v2'', Some ''Mon'') \<and>
     source_http_cache ''feed'' sample_store = (None, None)"
proof -
  define w where "w = dark_obs\<lparr>rf_send := (\<lambda>_ _ _. Inr \<lparr>rs_status = 200,
      rs_header = [''etag'' \<mapsto> ''v2'', ''last-modified'' \<mapsto> ''Mon''], rs_body = Inr ''vless://a'', rs_status_error = []\<rparr>),
    rf_ingest_error := Some ''disk full''\<rparr>"
  have "sub_urls (cfg_subscriptions feed_config) = [feed_source]"
    "\<forall>etag modified. fetch_source w feed_source etag modified = Inr (Body ''vless://a'' (Some ''v2'') (Some ''Mon''))"
    "rf_begin_error w = None" "rf_client_error w = None" "rf_write_error w 0 = None"
    "rf_ingest_error w = Some ''disk full''"
    by (simp_all add: w_def dark_obs_def fetch_source_def fetch_one_def header_text_def)
  from etag_outlives_members [OF this, of sample_libs sample_store w]
  have "(fst (refresh sample_libs feed_config w sample_store) = Inl ''disk full'') \<and>
     source_http_cache ''feed'' (snd (refresh sample_libs feed_config w sample_store)) = (Some ''v2'', Some ''Mon'')"
    by (auto simp: feed_source_def)
  moreover have "source_http_cache ''feed'' sample_store = (None, None)"
    by (simp add: source_http_cache_def sample_store_def empty_db_def find_row_def)
  ultimately show ?thesis by blast
qed

section \<open>Manual imports\<close>

text \<open>A row that no refresh can retire, and a store in which a hash has only such rows.\<close>

definition pinned_row :: "node \<Rightarrow> bool" where
  "pinned_row n \<longleftrightarrow> manual_source n \<and> n_upstream_missing_generations n = 0 \<and> n_lifecycle_state n \<noteq> ''RETIRED''"

definition pinned :: "string \<Rightarrow> db \<Rightarrow> bool" where
  "pinned h d \<longleftrightarrow> h \<in> hashes d \<and> (\<forall>n \<in> set (db_nodes d). n_config_hash n = h \<longrightarrow> pinned_row n)"

lemma pinned_nodes: "db_nodes d' = db_nodes d \<Longrightarrow> pinned h d' = pinned h d"
  by (simp add: pinned_def hashes_def)

lemma pinned_update:
  assumes "\<And>n. n_config_hash (f n) = n_config_hash n" and "\<And>n. pinned_row n \<Longrightarrow> p n \<Longrightarrow> pinned_row (f n)"
    and "pinned h d"
  shows "pinned h (on_nodes (update_where p f) d)"
proof -
  have "hashes (on_nodes (update_where p f) d) = hashes d"
    by (simp add: hashes_def map_update_where assms(1) flip: set_map)
  with assms show ?thesis by (auto simp: pinned_def set_update_where)
qed

lemma manual_add_source: "manual_source n \<Longrightarrow> manual_source (n\<lparr>n_source_subs := add_source s (n_source_subs n)\<rparr>)"
  by (auto simp: manual_source_def list_ex_iff add_source_def)

lemma pinned_refreshed_row: "pinned_row n \<Longrightarrow> pinned_row (refreshed_row now gen p n)"
  by (auto simp: pinned_row_def refreshed_row_def Let_def manual_source_def list_ex_iff add_source_def)

lemma manual_word: "contains (to_lower ''manual'') ''manual''"
  by code_simp

lemma manual_refreshed_row: "pp_source p = ''manual'' \<Longrightarrow> pinned_row (refreshed_row now gen p n)"
  using manual_word
  by (auto simp: pinned_row_def refreshed_row_def Let_def manual_source_def list_ex_iff add_source_def)

lemma manual_inserted_row: "pp_source p = ''manual'' \<Longrightarrow> pinned_row (inserted_row now gen uid p)"
  using manual_word
  by (simp add: pinned_row_def inserted_row_def manual_source_def new_node_def)

lemma pinned_reconciled:
  assumes "0 < minimum" and "pinned h d"
  shows "pinned h (reconcile now gen minimum d)"
  unfolding reconcile_def
  using assms
  by (intro pinned_update) (auto simp: retired_row_def missed_row_def pinned_row_def retirable_def unseen_def)

lemma pinned_ingest_step:
  assumes "pinned h d"
  shows "pinned h (snd (ingest_step now gen uid p d))"
proof (cases rule: ingest_step_cases [of p d now gen uid])
  case (seen row)
  have "pinned h (on_nodes (update_where (\<lambda>n. n_id n = n_id row) (refreshed_row now gen p)) d)"
    using assms pinned_refreshed_row by (intro pinned_update) (auto simp: refreshed_row_def Let_def)
  then show ?thesis by (simp add: seen(2) pinned_def hashes_def)
next
  case new
  with assms show ?thesis by (auto simp: new(2) pinned_def hashes_def inserted_row_def new_node_def)
qed

lemma pinned_ingest_many: "pinned h d \<Longrightarrow> pinned h (snd (ingest_many now gen fresh ps d))"
proof -
  assume "pinned h d"
  then have "pinned h (snd (ingest_loop now gen fresh ps k d))" for k
  proof (induction ps arbitrary: k d)
    case (Cons p ps)
    from Cons.IH [OF pinned_ingest_step [OF Cons.prems]] show ?case
      by (simp split: prod.split) (metis snd_conv)
  qed simp
  then show ?thesis by (simp add: ingest_many_def)
qed

lemma pinned_copy: "pinned h d \<Longrightarrow> pinned h (snd (copy_cached_source_generation now source gen d))"
proof (cases "max_opt (map gm_generation
    (filter (\<lambda>m. gm_source_name m = source \<and> gm_generation m < gen) (db_members d)))")
  case (Some previous)
  assume "pinned h d"
  then have "pinned h (fold (\<lambda>k. add_member now gen source k) hs d)" for hs
    by (simp only: pinned_nodes [OF fold_add_member_simps(1)])
  then show ?thesis
    unfolding copy_cached_source_generation_def Some option.case Let_def snd_conv
    by (intro pinned_update) (auto simp: seen_row_def pinned_row_def manual_source_def)
qed (simp add: copy_cached_source_generation_def)

lemma pinned_absorb: "absorb L gen now uid x (t, d) = (t', d') \<Longrightarrow> pinned h d \<Longrightarrow> pinned h d'"
proof -
  assume a: "absorb L gen now uid x (t, d) = (t', d')" and p: "pinned h d"
  obtain source outcome where x: "x = (source, outcome)" by fastforce
  show "pinned h d'"
  proof (cases "outcome = Inr NotModified")
    case True
    then have "db_nodes d' = db_nodes (snd (copy_cached_source_generation now (ss_name source) gen d))"
      using a x by (auto simp: absorb_def split: prod.splits)
    from pinned_nodes [OF this] pinned_copy [OF p] show ?thesis by simp
  next
    case False
    then have "db_nodes d' = db_nodes d"
      using a x by (auto simp: absorb_def Let_def split: sum.splits FetchResult.splits)
    from pinned_nodes [OF this] p show ?thesis by simp
  qed
qed

lemma pinned_absorb_all:
  "absorb_all L gen w i xs (t, d) = (e, t', d') \<Longrightarrow> pinned h d \<Longrightarrow> pinned h d'"
proof (induction xs arbitrary: i t d)
  case (Cons x xs)
  show ?case
  proof (cases "rf_write_error w i")
    case None
    obtain t1 d1 where a: "absorb L gen (rf_at w i) (rf_uid w i) x (t, d) = (t1, d1)" by fastforce
    with Cons.prems(1) None have "absorb_all L gen w (Suc i) xs (t1, d1) = (e, t', d')" by simp
    from Cons.IH [OF this pinned_absorb [OF a Cons.prems(2)]] show ?thesis .
  qed (use Cons.prems in auto)
qed simp

lemma pinned_finish:
  assumes "0 < minimum" and "pinned h d"
  shows "pinned h (snd (finish_refresh now rid gen k ok parsed minimum d))"
proof -
  have "pinned h (close_run now rid status ok parsed d)" for status ok
    using assms(2) by (simp only: pinned_nodes [OF close_run_simps(1)])
  then show ?thesis using pinned_reconciled [OF assms(1)] by (simp add: finish_refresh_def Let_def)
qed

lemma pinned_refresh:
  assumes "pinned h d"
  shows "pinned h (snd (refresh L cfg w d))"
proof -
  let ?k = "length (sub_urls (cfg_subscriptions cfg))"
  obtain gen d1 where b: "begin_refresh (rf_begin_at w) (rf_run_id w) ?k d = (gen, d1)" by fastforce
  then have d1: "pinned h d1" using assms db_nodes_frames(4) by (metis pinned_nodes snd_conv)
  obtain e t d2 where a: "absorb_all L gen w 0 (fetch_all w (sub_urls (cfg_subscriptions cfg)) d1) (empty_tally, d1)
      = (e, t, d2)" using prod_cases3 by blast
  note d2 = pinned_absorb_all [OF a d1]
  obtain inserted d3 where i: "ingest_many (rf_ingest_at w) gen (rf_fresh w) (rl_parsed t) d2 = (inserted, d3)"
    by fastforce
  then have d3: "pinned h d3" using pinned_ingest_many [OF d2] by (metis snd_conv)
  obtain full d4 where f: "finish_refresh (rf_finish_at w) (rf_run_id w) gen ?k (rl_successful t)
      (rl_accepted t) (complete_generations_before_retire (cfg_subscriptions cfg)) d3 = (full, d4)"
    by fastforce
  have "0 < complete_generations_before_retire (cfg_subscriptions cfg)"
    by (simp add: complete_generations_before_retire_def)
  from pinned_finish [OF this d3] f have d4: "pinned h d4" by (metis snd_conv)
  show ?thesis
    by (simp add: refresh_def b a i f Let_def assms d1 d2 d3 d4 split: option.split)
qed

lemma pinned_import_each:
  "pinned h d \<Longrightarrow> pinned h (snd (import_each now fresh i ps (k, d)))"
proof (induction ps arbitrary: i k d)
  case (Cons p ps)
  obtain b d1 where s: "ingest_proxy now 0 (\<lambda>_. fresh i) p d = (b, d1)" by fastforce
  then have "pinned h d1"
    using pinned_ingest_many [OF Cons.prems, of now 0 "\<lambda>_. fresh i" "[p]"]
    by (auto simp: ingest_proxy_def split: prod.splits)
  from Cons.IH [OF this] s show ?case by simp
qed simp

lemma ingest_proxy_step:
  "snd (ingest_proxy now gen fresh p d) = snd (ingest_step now gen (fresh 0) p d)"
  by (auto simp: ingest_proxy_def ingest_many_def split: prod.splits)

lemma ingest_step_pins:
  assumes "distinct (map n_config_hash (db_nodes d))" and "pp_source p = ''manual''"
  shows "pinned (pp_config_hash p) (snd (ingest_step now gen uid p d)) \<and>
    distinct (map n_config_hash (db_nodes (snd (ingest_step now gen uid p d))))"
proof (cases rule: ingest_step_cases [of p d now gen uid])
  case (seen row)
  have row: "row \<in> set (db_nodes d)" "n_config_hash row = pp_config_hash p"
    using find_row_Some [OF seen(1)] by auto
  have one: "n = row" if "n \<in> set (db_nodes d)" "n_config_hash n = pp_config_hash p" for n
    using assms(1) that row by (metis distinct_map inj_onD)
  have "hashes (snd (ingest_step now gen uid p d)) = hashes d"
    by (simp add: hashes_keys seen(3))
  moreover have "map n_config_hash (db_nodes (snd (ingest_step now gen uid p d))) = map n_config_hash (db_nodes d)"
    by (simp add: seen(2) map_update_where refreshed_row_def Let_def)
  ultimately show ?thesis
    using assms seen(4) one manual_refreshed_row [OF assms(2)]
    by (auto simp: pinned_def seen(2) set_update_where refreshed.upd_hash)
next
  case new
  have h: "n_config_hash (inserted_row now gen uid p) = pp_config_hash p"
    by (simp add: inserted_row_def new_node_def)
  have "\<forall>n \<in> set (db_nodes d). n_config_hash n \<noteq> pp_config_hash p"
    using new(1) unfolding hashes_def by (metis imageI)
  with assms(1) manual_inserted_row [OF assms(2)] show ?thesis
    by (auto simp: new(2) pinned_def hashes_def h)
qed

lemma import_each_pins:
  assumes "distinct (map n_config_hash (db_nodes d))" and "\<forall>p \<in> set ps. pp_source p = ''manual''"
    and "p \<in> set ps"
  shows "pinned (pp_config_hash p) (snd (import_each now fresh i ps (k, d)))"
  using assms
proof (induction ps arbitrary: i k d)
  case (Cons q ps)
  obtain b d1 where s: "ingest_proxy now 0 (\<lambda>_. fresh i) q d = (b, d1)" by fastforce
  then have d1: "d1 = snd (ingest_step now 0 (fresh i) q d)"
    using ingest_proxy_step [of now 0 "\<lambda>_. fresh i" q d] by simp
  have q: "pinned (pp_config_hash q) d1" "distinct (map n_config_hash (db_nodes d1))"
    using ingest_step_pins [of d q] Cons.prems by (simp_all add: d1)
  show ?case
  proof (cases "p = q")
    case True
    with pinned_import_each [OF q(1)] s show ?thesis by simp
  next
    case False
    with Cons.IH [OF q(2)] Cons.prems s show ?thesis by simp
  qed
qed simp

lemma accepted_source:
  "p \<in> set (rep_accepted (parse_subscription L payload source)) \<Longrightarrow> pp_source p = source"
  by (auto simp: parse_subscription_def parse_share_url_Inr dest!: parse_lines_from)

text \<open>A manual import is permanent: the identity of every line a manual import accepts stays in
  the store, not RETIRED and with no misses, through any number of later refreshes of any
  configuration, whatever their sources answer. A retired identity comes back by it.\<close>

theorem manual_import_permanent:
  assumes "distinct (map n_config_hash (db_nodes d))"
    and "p \<in> set (rep_accepted (parse_subscription L configs ''manual''))"
  shows "\<exists>n \<in> set (db_nodes (fold (\<lambda>(cfg, w) d. snd (refresh L cfg w d)) runs
      (snd (manual_import L now uid fresh configs d)))).
    n_config_hash n = pp_config_hash p \<and> n_lifecycle_state n \<noteq> ''RETIRED'' \<and>
    n_upstream_missing_generations n = 0"
proof -
  let ?d = "record_invalid_config_rejections now uid ''manual'' (rep_rejected (parse_subscription L configs ''manual'')) d"
  have "pinned (pp_config_hash p) (snd (import_each now fresh 0
      (rep_accepted (parse_subscription L configs ''manual'')) (0, ?d)))"
    using assms accepted_source by (intro import_each_pins) auto
  then have "pinned (pp_config_hash p) (snd (manual_import L now uid fresh configs d))"
    by (simp add: manual_import_def Let_def case_prod_unfold)
  moreover have "pinned h d \<Longrightarrow> pinned h (fold (\<lambda>(cfg, w) d. snd (refresh L cfg w d)) runs d)" for h d
    by (induction runs arbitrary: d) (auto intro: pinned_refresh)
  ultimately have "pinned (pp_config_hash p) (fold (\<lambda>(cfg, w) d. snd (refresh L cfg w d)) runs
      (snd (manual_import L now uid fresh configs d)))" by blast
  then show ?thesis by (auto simp: pinned_def hashes_def pinned_row_def)
qed

theorem manual_import_permanent_witness:
  "\<exists>n \<in> set (db_nodes (snd (refresh sample_libs feed_config dark_obs
      (snd (manual_import sample_libs 0 ''e'' (\<lambda>_. ''m'') ''vless://a'' sample_store))))).
    n_lifecycle_state n \<noteq> ''RETIRED'' \<and> n_upstream_missing_generations n = 0"
proof -
  have "rep_accepted (parse_subscription sample_libs ''vless://a'' ''manual'') \<noteq> []"
    by code_simp
  then obtain p where p: "p \<in> set (rep_accepted (parse_subscription sample_libs ''vless://a'' ''manual''))"
    by (meson last_in_set)
  have "distinct (map n_config_hash (db_nodes sample_store))"
    by (simp add: sample_store_def new_node_def)
  from manual_import_permanent [OF this p, where runs = "[(feed_config, dark_obs)]"
      and now = 0 and uid = "''e''" and fresh = "\<lambda>_. ''m''"] show ?thesis by auto
qed

end
