(* ===== verification/Api.thy ===== *)
theory Api
  imports App Upstream
begin

text \<open>
  The HTTP interface (\<open>src/src/api/mod.rs\<close>): one handler for each route, from a decoded
  request to a status, a body and the next state.

  \<^item> Routing, decoding and the request deadline are the web framework's; the table of routes
    is here, and a request carries the values the framework extracted.
  \<^item> A statement of the store may fail: \<open>av_fail\<close> says what the n-th one of the request reports.
  \<^item> A spawned refresh is a task of its own; the request only takes the flag for it.
\<close>

section \<open>Requests and responses\<close>

record NodeQuery =
  nq_page :: "nat option"
  nq_page_size :: "nat option"
  nq_filters :: NodeFilters

datatype request =
  Index string
| Health
| Nodes NodeQuery
| Node_Config string
| Node_History string "nat option"
| Node_Test string
| Node_Revive string
| Network
| Vip
| Scheduler
| Metrics
| Health_Model
| Upstream_Status
| Incidents
| Publisher_Status
| Client_List
| Client_Status "string option" "nat option" "nat option"
| Logs "nat option" "string option" "string option"
| Best string
| Feedback string string string
| Manual_Import string
| Revive_Dormant
| Reload_Subscriptions
| Cleanup_Database

record api_response =
  rp_status :: nat
  rp_body :: json

record api_env =
  av_now :: instant
  av_stamp :: "instant \<Rightarrow> string"
  av_serde :: "instant \<Rightarrow> string"
  av_fail :: "nat \<Rightarrow> string option"
  av_uid :: "nat \<Rightarrow> string"
  av_pick :: "nat \<Rightarrow> CandidateForSelection list \<Rightarrow> CandidateForSelection list"
  av_draw :: "nat \<Rightarrow> nat"
  av_version :: string
  av_index :: string

record api_state =
  ax_app :: app_state
  ax_refreshing :: bool

definition method_of :: "request \<Rightarrow> string" where
  "method_of r =
     (case r of
        Node_Test _ \<Rightarrow> ''POST'' | Node_Revive _ \<Rightarrow> ''POST'' | Best _ \<Rightarrow> ''POST''
      | Feedback _ _ _ \<Rightarrow> ''POST'' | Manual_Import _ \<Rightarrow> ''POST'' | Revive_Dormant \<Rightarrow> ''POST''
      | Reload_Subscriptions \<Rightarrow> ''POST'' | Cleanup_Database \<Rightarrow> ''POST'' | _ \<Rightarrow> ''GET'')"

definition page_paths :: "string list" where
  "page_paths = [''/'', ''/clients'', ''/diag'', ''/docs'', ''/logs'', ''/history'', ''/manual-import'']"

definition path_template :: "request \<Rightarrow> string" where
  "path_template r =
     (case r of
        Index p \<Rightarrow> p | Health \<Rightarrow> ''/health'' | Nodes _ \<Rightarrow> ''/api/v1/nodes''
      | Node_Config _ \<Rightarrow> ''/api/v1/nodes/{id}/config'' | Node_History _ _ \<Rightarrow> ''/api/v1/nodes/{id}/history''
      | Node_Test _ \<Rightarrow> ''/api/v1/nodes/{id}/test'' | Node_Revive _ \<Rightarrow> ''/api/v1/nodes/{id}/revive''
      | Network \<Rightarrow> ''/api/v1/network'' | Vip \<Rightarrow> ''/api/v1/vip'' | Scheduler \<Rightarrow> ''/api/v1/scheduler''
      | Metrics \<Rightarrow> ''/api/v1/metrics'' | Health_Model \<Rightarrow> ''/api/v1/health-model''
      | Upstream_Status \<Rightarrow> ''/api/v1/upstream'' | Incidents \<Rightarrow> ''/api/v1/incidents''
      | Publisher_Status \<Rightarrow> ''/api/v1/publisher'' | Client_List \<Rightarrow> ''/api/v1/clients''
      | Client_Status _ _ _ \<Rightarrow> ''/api/v1/client-status'' | Logs _ _ _ \<Rightarrow> ''/api/v1/logs''
      | Best _ \<Rightarrow> ''/api/v1/best'' | Feedback _ _ _ \<Rightarrow> ''/api/v1/feedback''
      | Manual_Import _ \<Rightarrow> ''/api/v1/manual-import'' | Revive_Dormant \<Rightarrow> ''/api/v1/nodes/dead/clear''
      | Reload_Subscriptions \<Rightarrow> ''/api/v1/subscriptions/reload'' | Cleanup_Database \<Rightarrow> ''/api/v1/db/cleanup'')"

definition ok_response :: "json \<Rightarrow> api_response" where
  "ok_response j = \<lparr>rp_status = 200, rp_body = j\<rparr>"

definition error_response :: "nat \<Rightarrow> string \<Rightarrow> string \<Rightarrow> json \<Rightarrow> api_response" where
  "error_response status c message details =
     \<lparr>rp_status = status,
      rp_body = json_obj [(''error'', json_obj [(''code'', JStr c), (''message'', JStr message),
        (''details'', details)])]\<rparr>"

definition api_error :: "string \<Rightarrow> api_response" where
  "api_error e = error_response 500 ''internal_error'' e (JObj [])"

definition bad_request :: "string \<Rightarrow> api_response" where
  "bad_request c = error_response 400 c ''request validation failed'' (JObj [])"

definition not_found :: "string \<Rightarrow> api_response" where
  "not_found c = error_response 404 c ''resource not found'' (JObj [])"

text \<open>The n-th statement of the store: a failure ends the handler with a 500.\<close>

definition stored :: "api_env \<Rightarrow> nat \<Rightarrow> 'a \<Rightarrow> ('a \<Rightarrow> api_response) \<Rightarrow> api_response" where
  "stored w n x f = (case av_fail w n of Some e \<Rightarrow> api_error e | None \<Rightarrow> f x)"

section \<open>Rendering\<close>

definition counts_json :: "FleetCounts \<Rightarrow> json" where
  "counts_json c =
     json_obj [(''total'', JInt (fc_total c)), (''candidate'', JInt (fc_candidate c)),
       (''testing'', JInt (fc_testing c)), (''active'', JInt (fc_active c)),
       (''probation'', JInt (fc_probation c)), (''dormant'', JInt (fc_dormant c)),
       (''invalid'', JInt (fc_invalid c)), (''retired'', JInt (fc_retired c)),
       (''waiting_for_port'', JInt (fc_waiting_for_port c)), (''publishable'', JInt (fc_publishable c))]"

text \<open>The derived serialization of a summary; \<open>raw_config\<close> is marked to be skipped.\<close>

definition summary_fields :: "(instant \<Rightarrow> string) \<Rightarrow> NodeSummary \<Rightarrow> (string \<times> json) list" where
  "summary_fields serde n =
     [(''id'', JStr (ns_id n)), (''config_hash'', JStr (ns_config_hash n)), (''protocol'', JStr (ns_protocol n)),
      (''server'', JStr (ns_server n)), (''remote_port'', json_int_opt (ns_remote_port n)),
      (''remark'', JStr (ns_remark n)), (''source_subs'', JArr (map JStr (ns_source_subs n))),
      (''status'', JStr (ns_status n)), (''lifecycle_state'', JStr (ns_lifecycle_state n)),
      (''main_port'', json_int_opt (ns_main_port n)), (''relay_delay_ms'', json_int_opt (ns_relay_delay_ms n)),
      (''download_kbps'', json_int_opt (ns_download_kbps n)),
      (''exit_country'', JStr (em_country (ns_exit n))), (''exit_ip'', JStr (em_ip (ns_exit n))),
      (''exit_hostname'', JStr (em_hostname (ns_exit n))), (''exit_city'', JStr (em_city (ns_exit n))),
      (''exit_region'', JStr (em_region (ns_exit n))), (''exit_loc'', JStr (em_loc (ns_exit n))),
      (''exit_org'', JStr (em_org (ns_exit n))), (''exit_postal'', JStr (em_postal (ns_exit n))),
      (''exit_timezone'', JStr (em_timezone (ns_exit n))),
      (''exit_info_fetched_at'', json_time serde (ns_exit_info_fetched_at n)),
      (''health_success_ewma'', JReal (ns_health_success_ewma n)), (''health_alpha'', JReal (ns_health_alpha n)),
      (''health_beta'', JReal (ns_health_beta n)), (''health_score'', JReal (ns_health_score n)),
      (''next_test_at'', json_time serde (ns_next_test_at n)),
      (''publication_lease_until'', json_time serde (ns_publication_lease_until n)),
      (''publication_lease_kind'', json_str_opt (ns_publication_lease_kind n)),
      (''last_failure_class'', json_str_opt (ns_last_failure_class n)),
      (''last_seen_generation'', json_int_opt (ns_last_seen_generation n)),
      (''upstream_missing_generations'', JInt (ns_upstream_missing_generations n)),
      (''evidence_summary'', json_obj [(''alpha'', JReal (sum_alpha (ns_evidence_summary n))),
         (''beta'', JReal (sum_beta (ns_evidence_summary n))), (''score'', JReal (sum_score (ns_evidence_summary n))),
         (''last_failure_class'', json_str_opt (sum_last_failure_class (ns_evidence_summary n)))]),
      (''created_at'', json_time serde (ns_created_at n)), (''last_test_at'', json_time serde (ns_last_test_at n))]"

text \<open>Keys of the former dashboard that have no source any more stay present as zeroes.\<close>

definition legacy_keys :: "string list" where
  "legacy_keys =
     [''open_assignments'', ''total_assignments'', ''used_count'', ''broken_count'', ''rate_limited_count'',
      ''total_clients'', ''open_clients'', ''half_open_clients'', ''closed_clients'',
      ''consecutive_relay_failures'']"

definition node_json :: "(instant \<Rightarrow> string) \<Rightarrow> RuntimeManager \<Rightarrow> NodeSummary \<Rightarrow> json" where
  "node_json serde m n =
     (let port = port_for (ns_id n) m;
          vip = map_option fst (vip_status m)
      in json_obj (summary_fields serde n @
           [(''runtime_running'', JBool (port \<noteq> None)),
            (''runtime_port'', json_opt (\<lambda>p. JInt (uint p)) port),
            (''is_vip'', JBool (vip = Some (ns_id n)))] @
           map (\<lambda>k. (k, JInt 0)) legacy_keys))"

definition vip_json :: "(instant \<Rightarrow> string) \<Rightarrow> AppConfig \<Rightarrow> RuntimeManager \<Rightarrow> json" where
  "vip_json print cfg m =
     (case vip_status m of
        Some (nid, rating, started) \<Rightarrow>
          json_obj [(''enabled'', JBool True), (''running'', JBool True),
            (''port'', JInt (uint (vip_port (cfg_vip_port cfg)))), (''node_id'', JStr nid),
            (''score'', JReal rating), (''started_at'', JStr (print started))]
      | None \<Rightarrow>
          json_obj [(''enabled'', JBool (vip_enabled (cfg_vip_port cfg))), (''running'', JBool False),
            (''port'', JInt (uint (vip_port (cfg_vip_port cfg)))), (''node_id'', JNull), (''score'', JNull)])"

definition incident_word :: "RuntimeStatus \<Rightarrow> json" where
  "incident_word r = JStr (if rst_network_incident r then ''INCIDENT'' else ''HEALTHY'')"

definition status_counts_json :: "FleetCounts \<Rightarrow> json" where
  "status_counts_json c =
     json_obj [(''ACTIVE'', JInt (fc_active c)), (''PROBATION'', JInt (fc_probation c)),
       (''CANDIDATE'', JInt (fc_candidate c)), (''TESTING'', JInt (fc_testing c)),
       (''DORMANT'', JInt (fc_dormant c)), (''DEAD'', JInt (fc_dormant c)), (''INVALID'', JInt (fc_invalid c)),
       (''RETIRED'', JInt (fc_retired c)), (''REMOVED'', JInt (fc_retired c)),
       (''WAITING_FOR_PORT'', JInt (fc_waiting_for_port c))]"

definition status_json :: "(instant \<Rightarrow> string) \<Rightarrow> RuntimeStatus \<Rightarrow> json" where
  "status_json serde r =
     json_obj [(''started_at'', JStr (serde (rst_started_at r))),
       (''scheduler_ticks'', JInt (int (rst_scheduler_ticks r))),
       (''last_tick_at'', json_time serde (rst_last_tick_at r)), (''last_error'', JStr (rst_last_error r)),
       (''xray_concurrency'', JInt (int (rst_xray_concurrency r))),
       (''download_concurrency'', JInt (int (rst_download_concurrency r))),
       (''last_concurrency_change'', JStr (rst_last_concurrency_change r)),
       (''system_pressure'', JReal (rst_system_pressure r)),
       (''system_load_pressure'', JReal (rst_system_load_pressure r)),
       (''system_memory_pressure'', JReal (rst_system_memory_pressure r)),
       (''open_fds'', JInt (int (rst_open_fds r))), (''child_processes'', JInt (int (rst_child_processes r))),
       (''event_loop_lag_ms'', JInt (rst_event_loop_lag_ms r)),
       (''last_scheduler_jobs'', JInt (int (rst_last_scheduler_jobs r))),
       (''fleet_counts'', counts_json (rst_fleet_counts r)),
       (''network_incident'', JBool (rst_network_incident r)),
       (''network_message'', JStr (rst_network_message r))]"

section \<open>Handlers\<close>

definition api_db :: "api_state \<Rightarrow> db" where
  "api_db s = db_of (ax_app s)"

definition api_status :: "api_state \<Rightarrow> RuntimeStatus" where
  "api_status s = as_status (ax_app s)"

definition api_manager :: "api_state \<Rightarrow> RuntimeManager" where
  "api_manager s = rs_mgr (as_rt (ax_app s))"

definition with_db :: "db \<Rightarrow> api_state \<Rightarrow> api_state" where
  "with_db d s = s\<lparr>ax_app := on_db (\<lambda>_. d) (ax_app s)\<rparr>"

definition non_empty :: "string option \<Rightarrow> string option" where
  "non_empty v = Option.bind v (\<lambda>s. if trim s = [] then None else Some (trim s))"

definition trimmed_filters :: "NodeFilters \<Rightarrow> NodeFilters" where
  "trimmed_filters f =
     \<lparr>nf_status = non_empty (nf_status f), nf_country = non_empty (nf_country f),
      nf_search = non_empty (nf_search f), nf_source = non_empty (nf_source f),
      nf_protocol = non_empty (nf_protocol f), nf_failure_class = non_empty (nf_failure_class f)\<rparr>"

definition total_pages_of :: "int \<Rightarrow> nat \<Rightarrow> nat" where
  "total_pages_of matches per_page = max ((nat (max matches 1) + per_page - 1) div per_page) 1"

definition get_health :: "api_env \<Rightarrow> AppConfig \<Rightarrow> api_state \<Rightarrow> api_response" where
  "get_health w cfg s =
     ok_response (json_obj [(''status'', JStr ''ok''), (''service'', JStr (svc_name (cfg_service cfg))),
       (''version'', JStr (av_version w)), (''counts'', counts_json (rst_fleet_counts (api_status s))),
       (''last_tick_at'', json_time (av_serde w) (rst_last_tick_at (api_status s)))])"

definition get_nodes :: "libs \<Rightarrow> api_env \<Rightarrow> AppConfig \<Rightarrow> NodeQuery \<Rightarrow> api_state \<Rightarrow> api_response" where
  "get_nodes L w cfg q s =
     (let d = api_db s in
      stored w 0 (list_nodes L (coalesce (nq_page q) 1) (coalesce (nq_page_size q) 50)
                    (trimmed_filters (nq_filters q)) d) (\<lambda>result.
      stored w 1 (counts (av_now w) d) (\<lambda>c.
      stored w 2 (list_exit_countries d) (\<lambda>countries.
      let pages = total_pages_of (np_total result) (np_page_size result) in
      ok_response (json_obj [
        (''service'', JStr (svc_name (cfg_service cfg))),
        (''environment'', JStr (svc_environment (cfg_service cfg))),
        (''generated_at'', JStr (av_serde w (av_now w))), (''total_nodes'', JInt (fc_total c)),
        (''filtered_total'', JInt (np_total result)), (''page'', JInt (int (np_page result))),
        (''page_size'', JInt (int (np_page_size result))), (''total_pages'', JInt (int pages)),
        (''status_counts'', status_counts_json c), (''countries'', JArr (map JStr countries)),
        (''network'', json_obj [(''enabled'', JBool (ng_enabled (cfg_network_guard cfg))),
           (''online'', JBool (\<not> rst_network_incident (api_status s))),
           (''status'', incident_word (api_status s)),
           (''message'', JStr (rst_network_message (api_status s)))]),
        (''vip'', vip_json (av_serde w) cfg (api_manager s)),
        (''pagination'', json_obj [(''page'', JInt (int (np_page result))),
           (''page_size'', JInt (int (np_page_size result))), (''total'', JInt (np_total result))]),
        (''nodes'', JArr (map (node_json (av_serde w) (api_manager s)) (np_nodes result)))])))))"

definition get_node_config :: "api_env \<Rightarrow> string \<Rightarrow> api_state \<Rightarrow> api_response" where
  "get_node_config w nid s =
     stored w 0 (raw_config nid (api_db s)) (\<lambda>r. case r of
       Some raw \<Rightarrow> ok_response (json_obj [(''node_id'', JStr nid), (''raw_config'', JStr raw)])
     | None \<Rightarrow> not_found ''NODE_NOT_FOUND'')"

definition missing_or :: "string \<Rightarrow> api_response" where
  "missing_or e = (if contains e ''node not found'' then not_found ''NODE_NOT_FOUND'' else api_error e)"

definition get_node_history :: "api_env \<Rightarrow> string \<Rightarrow> nat option \<Rightarrow> api_state \<Rightarrow> api_response" where
  "get_node_history w nid limit s =
     (case (case av_fail w 0 of Some e \<Rightarrow> Inl e
            | None \<Rightarrow> history (av_stamp w) nid (coalesce limit 50) (api_db s)) of
        Inr rows \<Rightarrow> ok_response (json_obj [(''node_id'', JStr nid), (''history'', JArr rows)])
      | Inl e \<Rightarrow> missing_or e)"

definition post_node_test :: "api_env \<Rightarrow> string \<Rightarrow> api_state \<Rightarrow> api_response \<times> api_state" where
  "post_node_test w nid s =
     (case av_fail w 0 of Some e \<Rightarrow> (missing_or e, s) | None \<Rightarrow>
      (case schedule_manual_test (av_now w) nid (api_db s) of
         (Inr _, d) \<Rightarrow> (ok_response (json_obj [(''ok'', JBool True), (''node_id'', JStr nid),
           (''scheduled'', JBool True)]), with_db d s)
       | (Inl e, d) \<Rightarrow> (missing_or e, with_db d s)))"

definition unrevivable_or :: "string \<Rightarrow> api_response" where
  "unrevivable_or e =
     (if contains e ''node not found'' \<or> contains e ''cannot be revived''
      then not_found ''NODE_NOT_REVIVABLE'' else api_error e)"

definition post_node_revive :: "api_env \<Rightarrow> string \<Rightarrow> api_state \<Rightarrow> api_response \<times> api_state" where
  "post_node_revive w nid s =
     (case av_fail w 0 of Some e \<Rightarrow> (unrevivable_or e, s) | None \<Rightarrow>
      (case revive_node (av_now w) nid (api_db s) of
         (Inr _, d) \<Rightarrow> (ok_response (json_obj [(''ok'', JBool True), (''node_id'', JStr nid),
           (''state'', JStr ''PROBATION'')]), with_db d s)
       | (Inl e, d) \<Rightarrow> (unrevivable_or e, with_db d s)))"

definition get_network :: "AppConfig \<Rightarrow> api_state \<Rightarrow> api_response" where
  "get_network cfg s =
     ok_response (json_obj [(''enabled'', JBool (ng_enabled (cfg_network_guard cfg))),
       (''status'', incident_word (api_status s)), (''message'', JStr (rst_network_message (api_status s)))])"

definition get_scheduler :: "api_env \<Rightarrow> api_state \<Rightarrow> api_response" where
  "get_scheduler w s =
     stored w 0 (scheduler_snapshot (av_now w) (api_db s)) (\<lambda>snapshot.
     ok_response (json_obj [(''runtime'', status_json (av_serde w) (api_status s)),
       (''policy'', json_obj [(''new'', JInt 40), (''successful_probation'', JInt 30),
          (''recoverable_dormant'', JInt 20), (''exploration'', JInt 10)]),
       (''concurrency'', json_obj [(''xray_current'', JInt (int (rst_xray_concurrency (api_status s)))),
          (''download_current'', JInt (int (rst_download_concurrency (api_status s))))]),
       (''snapshot'', snapshot)]))"

definition health_model_json :: json where
  "health_model_json =
     json_obj [(''model'', JStr ''beta-bayesian-decay''), (''activation'', JStr ''real_download''),
       (''lease_hours'', json_obj [(''fast_download'', JInt 12), (''acceptable_download'', JInt 6),
          (''http'', JInt 2), (''relay_minutes'', JInt 30)])]"

definition get_incidents :: "api_env \<Rightarrow> api_state \<Rightarrow> api_response" where
  "get_incidents w s =
     stored w 0 (logs (av_stamp w) 100 (Some ''incident'') None (api_db s)) (\<lambda>recent.
     ok_response (json_obj [
       (''active'', JArr (if rst_network_incident (api_status s)
          then [json_obj [(''kind'', JStr ''network''), (''message'', JStr (rst_network_message (api_status s)))]]
          else [])),
       (''recent'', JArr recent)]))"

definition get_publisher :: "api_env \<Rightarrow> AppConfig \<Rightarrow> api_state \<Rightarrow> api_response" where
  "get_publisher w cfg s =
     stored w 0 (service_state ''last_publisher'' (api_db s)) (\<lambda>status.
     ok_response (json_obj [(''enabled'', JBool (pub_enabled (cfg_publishing cfg))),
       (''status'', json_opt (\<lambda>j. j) status)]))"

text \<open>The name is tested without its surrounding blanks but used with them.\<close>

definition get_client_status ::
  "api_env \<Rightarrow> string option \<Rightarrow> nat option \<Rightarrow> nat option \<Rightarrow> api_state \<Rightarrow> api_response" where
  "get_client_status w client page per_page s =
     (let c = coalesce client []
      in if trim c = [] then bad_request ''INVALID_CLIENT''
         else stored w 0 (client_status (av_stamp w) c (coalesce page 1) (coalesce per_page 100) (api_db s)) ok_response)"

definition post_best :: "api_env \<Rightarrow> AppConfig \<Rightarrow> string \<Rightarrow> api_state \<Rightarrow> api_response \<times> api_state" where
  "post_best w cfg client0 s =
     (let client = trim client0 in
      if client = [] then (bad_request ''INVALID_CLIENT'', s)
      else case av_fail w 0 of Some e \<Rightarrow> (api_error e, s) | None \<Rightarrow>
        (case best (av_now w) (av_pick w) (av_uid w 0) (av_uid w 1) cfg client (api_db s) of
           Inl e \<Rightarrow> (api_error e, s)
         | Inr (None, d) \<Rightarrow>
             (\<lparr>rp_status = 503, rp_body = json_obj [(''error'', JStr ''NO_AVAILABLE_NODE''),
                (''message'', JStr ''No healthy node is currently available for this client.'')]\<rparr>, with_db d s)
         | Inr (Some b, d) \<Rightarrow>
             (ok_response (json_obj [(''node_id'', JStr (bd_node_id b)), (''port'', JInt (uint (bd_port b))),
                (''client'', JStr client), (''assignment_id'', JStr (bd_assignment_id b)),
                (''relay_delay_ms'', json_int_opt (bd_relay_delay_ms b)),
                (''expires_in_seconds'', JInt (int (bd_expires_in_seconds b)))]), with_db d s)))"

definition post_feedback ::
  "api_env \<Rightarrow> AppConfig \<Rightarrow> string \<Rightarrow> string \<Rightarrow> string \<Rightarrow> api_state \<Rightarrow> api_response \<times> api_state" where
  "post_feedback w cfg client nid status s =
     (if trim client = [] \<or> trim nid = [] then (bad_request ''INVALID_FEEDBACK'', s)
      else case (case feedback (av_now w) (av_draw w) (av_uid w 0) cfg (trim client) (trim nid) (trim status) (api_db s) of
                   Inl e \<Rightarrow> Inl e
                 | Inr d \<Rightarrow> (case av_fail w 0 of Some e \<Rightarrow> Inl e | None \<Rightarrow> Inr d)) of
        Inr d \<Rightarrow> (ok_response (json_obj [(''ok'', JBool True)]), with_db d s)
      | Inl e \<Rightarrow> (if contains e ''invalid feedback'' then bad_request ''INVALID_FEEDBACK'' else api_error e, s))"

definition post_manual_import :: "libs \<Rightarrow> api_env \<Rightarrow> string \<Rightarrow> api_state \<Rightarrow> api_response \<times> api_state" where
  "post_manual_import L w configs s =
     (case av_fail w 0 of Some e \<Rightarrow> (api_error e, s) | None \<Rightarrow>
      (case manual_import L (av_now w) (av_uid w 0) (\<lambda>k. av_uid w (Suc k)) configs (api_db s) of
         (r, d) \<Rightarrow>
           (ok_response (json_obj [(''ok'', JBool True), (''accepted'', JInt (int (mi_accepted r))),
              (''rejected'', JInt (int (mi_rejected r))), (''inserted'', JInt (int (mi_inserted r))),
              (''errors'', JArr (map JStr (mi_errors r)))]), with_db d s)))"

text \<open>An operation of the store that reports how many rows it changed.\<close>

definition counted :: "api_env \<Rightarrow> string \<Rightarrow> (db \<Rightarrow> nat \<times> db) \<Rightarrow> api_state \<Rightarrow> api_response \<times> api_state" where
  "counted w key f s =
     (case av_fail w 0 of Some e \<Rightarrow> (api_error e, s) | None \<Rightarrow>
      (case f (api_db s) of (n, d) \<Rightarrow>
         (ok_response (json_obj [(''ok'', JBool True), (key, JInt (int n))]), with_db d s)))"

definition accepted_response :: "bool \<Rightarrow> (string \<times> json) list \<Rightarrow> api_response" where
  "accepted_response scheduled extra =
     \<lparr>rp_status = 202, rp_body = json_obj ([(''ok'', JBool True), (''scheduled'', JBool scheduled),
        (''operation_id'', JStr ''upstream-refresh'')] @ extra)\<rparr>"

definition post_reload :: "api_state \<Rightarrow> api_response \<times> api_state" where
  "post_reload s =
     (if ax_refreshing s then (accepted_response False [(''message'', JStr ''already running'')], s)
      else (accepted_response True [], s\<lparr>ax_refreshing := True\<rparr>))"

section \<open>The router\<close>

definition handle :: "libs \<Rightarrow> api_env \<Rightarrow> AppConfig \<Rightarrow> request \<Rightarrow> api_state \<Rightarrow> api_response \<times> api_state" where
  "handle L w cfg r s =
     (case r of
        Index _ \<Rightarrow> (ok_response (JStr (av_index w)), s)
      | Health \<Rightarrow> (get_health w cfg s, s)
      | Nodes q \<Rightarrow> (get_nodes L w cfg q s, s)
      | Node_Config nid \<Rightarrow> (get_node_config w nid s, s)
      | Node_History nid limit \<Rightarrow> (get_node_history w nid limit s, s)
      | Node_Test nid \<Rightarrow> post_node_test w nid s
      | Node_Revive nid \<Rightarrow> post_node_revive w nid s
      | Network \<Rightarrow> (get_network cfg s, s)
      | Vip \<Rightarrow> (ok_response (vip_json (av_stamp w) cfg (api_manager s)), s)
      | Scheduler \<Rightarrow> (get_scheduler w s, s)
      | Metrics \<Rightarrow> (stored w 0 (observability_snapshot (api_db s)) ok_response, s)
      | Health_Model \<Rightarrow> (ok_response health_model_json, s)
      | Upstream_Status \<Rightarrow> (stored w 0 (upstream_snapshot (av_stamp w) (api_db s)) ok_response, s)
      | Incidents \<Rightarrow> (get_incidents w s, s)
      | Publisher_Status \<Rightarrow> (get_publisher w cfg s, s)
      | Client_List \<Rightarrow> (stored w 0 (list_clients (api_db s))
          (\<lambda>cs. ok_response (json_obj [(''clients'', JArr (map JStr cs))])), s)
      | Client_Status client page per_page \<Rightarrow> (get_client_status w client page per_page s, s)
      | Logs limit component level \<Rightarrow> (stored w 0 (logs (av_stamp w) (coalesce limit 200) component level (api_db s))
          (\<lambda>ls. ok_response (json_obj [(''logs'', JArr ls)])), s)
      | Best client \<Rightarrow> post_best w cfg client s
      | Feedback client nid status \<Rightarrow> post_feedback w cfg client nid status s
      | Manual_Import configs \<Rightarrow> post_manual_import L w configs s
      | Revive_Dormant \<Rightarrow> counted w ''revived'' (revive_dormant (av_now w)) s
      | Reload_Subscriptions \<Rightarrow> post_reload s
      | Cleanup_Database \<Rightarrow> counted w ''deleted_retired'' (cleanup_retired (av_now w)) s)"

section \<open>Properties of the interface\<close>

lemma with_own_db [simp]: "with_db (api_db s) s = s"
  by (simp add: with_db_def api_db_def on_db_def db_of_def)

lemma api_db_with [simp]: "api_db (with_db d s) = d"
  by (simp add: with_db_def api_db_def on_db_def db_of_def)

lemma statuses [simp]:
  "rp_status (ok_response j) = 200" "rp_status (error_response n c m d) = n"
  "rp_status (api_error e) = 500" "rp_status (bad_request c) = 400" "rp_status (not_found c) = 404"
  "rp_status (accepted_response b xs) = 202"
  by (simp_all add: ok_response_def error_response_def api_error_def bad_request_def not_found_def
      accepted_response_def)

lemma update_where_unaffected: "rows_affected p rs = 0 \<Longrightarrow> update_where p f rs = rs"
  by (rule update_where_none) (simp add: rows_affected_zero)

lemma on_nodes_id: "f (db_nodes d) = db_nodes d \<Longrightarrow> on_nodes f d = d"
  by (simp add: on_nodes_def)

lemma manual_test_error: "schedule_manual_test now nid d = (Inl e, d') \<Longrightarrow> d' = d"
  by (auto simp: schedule_manual_test_def Let_def update_where_unaffected on_nodes_id split: if_splits)

lemma at_most_one_id:
  "distinct (map f rs) \<Longrightarrow> (\<And>r. p r \<Longrightarrow> f r = k) \<Longrightarrow> length (filter p rs) \<le> 1"
  by (induction rs) (auto simp: filter_empty_conv dest: arg_cong [where f = length])

lemma revive_error:
  assumes "unique_nodes d" and "revive_node now nid d = (Inl e, d')"
  shows "d' = d"
proof -
  have "rows_affected (revivable nid) (db_nodes d) \<le> 1"
    using assms(1) unfolding rows_affected_def unique_nodes_def
    by (intro at_most_one_id [where f = n_id and k = nid]) (auto simp: revivable_def)
  then have "rows_affected (revivable nid) (db_nodes d) = 0"
    using assms(2) by (auto simp: revive_node_def ensure.simps split: if_splits)
  with assms(2) show ?thesis
    by (auto simp: revive_node_def update_where_unaffected on_nodes_id)
qed

lemma best_None: "best now pick uid uid' cfg client d = Inr (None, d') \<Longrightarrow> d' = d"
  by (auto simp: best_def Let_def split: if_splits option.splits)

lemma stored_status: "rp_status (stored w n x f) = (if av_fail w n = None then rp_status (f x) else 500)"
  by (simp add: stored_def split: option.split)

lemmas readers = get_health_def get_nodes_def get_node_config_def get_node_history_def get_network_def
  get_scheduler_def get_incidents_def get_publisher_def get_client_status_def missing_or_def

lemma reads_statuses:
  "method_of r = ''GET'' \<Longrightarrow>
     snd (handle L w cfg r s) = s \<and> rp_status (fst (handle L w cfg r s)) \<in> {200, 400, 404, 500}"
  by (cases r) (simp_all add: handle_def method_of_def readers Let_def stored_status split: option.split sum.split)

definition harmless :: "api_state \<Rightarrow> api_response \<times> api_state \<Rightarrow> bool" where
  "harmless s m \<longleftrightarrow> (400 \<le> rp_status (fst m) \<longrightarrow> snd m = s \<and> rp_status (fst m) \<in> {400, 404, 500, 503})"

lemma harmless_posts:
  assumes "unique_nodes (api_db s)"
  shows "harmless s (post_node_test w nid s)" "harmless s (post_node_revive w nid s)"
    "harmless s (post_best w cfg client s)" "harmless s (post_feedback w cfg client nid status s)"
    "harmless s (post_manual_import L w configs s)" "harmless s (counted w key f s)" "harmless s (post_reload s)"
proof -
  show "harmless s (post_node_test w nid s)"
    using manual_test_error [of "av_now w" nid "api_db s"]
    by (auto simp: harmless_def post_node_test_def missing_or_def split: option.split prod.split sum.split)
  show "harmless s (post_node_revive w nid s)"
    using revive_error [OF assms, of "av_now w" nid]
    by (auto simp: harmless_def post_node_revive_def unrevivable_or_def split: option.split prod.split sum.split)
  show "harmless s (post_best w cfg client s)"
    using best_None [of "av_now w" "av_pick w" "av_uid w 0" "av_uid w 1" cfg "trim client" "api_db s"]
    by (auto simp: harmless_def post_best_def Let_def split: option.split prod.split sum.split)
qed (auto simp: harmless_def post_feedback_def post_manual_import_def counted_def post_reload_def
       split: option.split prod.split sum.split)


definition plain_env :: api_env where
  "plain_env = \<lparr>av_now = 0, av_stamp = (\<lambda>_. ''t''), av_serde = (\<lambda>_. ''t''), av_fail = (\<lambda>_. None),
     av_uid = (\<lambda>_. ''u''), av_pick = take, av_draw = (\<lambda>_. 0), av_version = ''0.1'', av_index = ''''\<rparr>"

definition api_of :: "db \<Rightarrow> api_state" where
  "api_of d = \<lparr>ax_app = on_db (\<lambda>_. d) idle_app, ax_refreshing = False\<rparr>"

lemma api_db_of [simp]: "api_db (api_of d) = d"
  by (simp add: api_of_def api_db_def on_db_def db_of_def)


subsection \<open>The node list\<close>

lemma summary_keys: "fst ` set (summary_fields serde n) \<inter> {''raw_config''} = {}"
  by (simp add: summary_fields_def)

lemma node_json_raw: "json_get ''raw_config'' (node_json serde m n) = None"
  by (simp add: node_json_def Let_def json_get_obj map_of_eq_None_iff summary_fields_def legacy_keys_def)

lemma node_json_port: "json_get ''runtime_port'' (node_json serde m n) = Some (json_opt (\<lambda>p. JInt (uint p)) (port_for (ns_id n) m))"
  by (simp add: node_json_def Let_def json_get_obj legacy_keys_def)

lemma total_pages_cover: "0 < k \<Longrightarrow> m \<le> int (total_pages_of m k * k)"
proof -
  assume k: "0 < k"
  have "nat (max m 1) \<le> (nat (max m 1) + k - 1) div k * k"
    using k div_mult_mod_eq [of "nat (max m 1) + k - 1" k] mod_less_divisor [OF k, of "nat (max m 1) + k - 1"]
    by linarith
  also have "\<dots> \<le> total_pages_of m k * k" by (simp add: total_pages_of_def)
  finally show ?thesis by linarith
qed

text \<open>The node list shows no credentials and says how far to page: whatever is asked for, an
  answer with the status 200 lists at most two hundred nodes, none with its raw
  configuration, each with the port its runtime really has, and the announced pages hold
  every matching node.\<close>

theorem node_list_answer:
  assumes "get_nodes L w cfg q s = answer" and "rp_status answer = 200"
  shows "\<exists>nodes per_page pages. json_get ''nodes'' (rp_body answer) = Some (JArr nodes) \<and>
    json_get ''page_size'' (rp_body answer) = Some (JInt (int per_page)) \<and>
    json_get ''total_pages'' (rp_body answer) = Some (JInt (int pages)) \<and>
    length nodes \<le> per_page \<and> per_page \<le> 200 \<and>
    int (count_rows (matches_filters L (trimmed_filters (nq_filters q))) (db_nodes (api_db s)))
      \<le> int (pages * per_page) \<and>
    (\<forall>j \<in> set nodes. json_get ''raw_config'' j = None \<and>
       (\<exists>nid. json_get ''runtime_port'' j =
          Some (json_opt (\<lambda>p. JInt (uint p)) (port_for nid (api_manager s)))))"
proof -
  define p where "p = list_nodes L (coalesce (nq_page q) 1) (coalesce (nq_page_size q) 50)
    (trimmed_filters (nq_filters q)) (api_db s)"
  have ok: "av_fail w 0 = None" "av_fail w 1 = None" "av_fail w 2 = None"
    using assms by (auto simp: get_nodes_def Let_def stored_status split: if_splits)
  have p: "length (np_nodes p) \<le> np_page_size p" "0 < np_page_size p" "np_page_size p \<le> 200"
    "np_total p = int (count_rows (matches_filters L (trimmed_filters (nq_filters q))) (db_nodes (api_db s)))"
    by (simp_all add: p_def list_nodes_def Let_def page_of_def clamp_def)
  have "json_get ''nodes'' (rp_body answer) = Some (JArr (map (node_json (av_serde w) (api_manager s)) (np_nodes p)))"
    "json_get ''page_size'' (rp_body answer) = Some (JInt (int (np_page_size p)))"
    "json_get ''total_pages'' (rp_body answer) = Some (JInt (int (total_pages_of (np_total p) (np_page_size p))))"
    unfolding assms(1) [symmetric] using ok
    by (simp_all add: get_nodes_def Let_def stored_def ok_response_def json_get_obj p_def)
  moreover have "np_total p \<le> int (total_pages_of (np_total p) (np_page_size p) * np_page_size p)"
    using total_pages_cover [OF p(2)] .
  ultimately show ?thesis
    using p node_json_raw node_json_port
    by (intro exI [of _ "map (node_json (av_serde w) (api_manager s)) (np_nodes p)"] exI [of _ "np_page_size p"]
        exI [of _ "total_pages_of (np_total p) (np_page_size p)"]) auto
qed

definition first_page :: NodeQuery where
  "first_page = \<lparr>nq_page = None, nq_page_size = Some 100000, nq_filters = no_filters\<rparr>"

theorem node_list_answer_witness:
  "\<exists>nodes per_page. json_get ''nodes'' (rp_body (get_nodes sample_libs plain_env default_config first_page (api_of sample_store)))
       = Some (JArr nodes) \<and> length nodes \<le> per_page \<and> per_page \<le> 200 \<and>
     (\<forall>j \<in> set nodes. json_get ''raw_config'' j = None)"
proof -
  have "rp_status (get_nodes sample_libs plain_env default_config first_page (api_of sample_store)) = 200"
    by (simp add: get_nodes_def Let_def stored_status plain_env_def)
  from node_list_answer [OF refl this] show ?thesis by blast
qed

subsection \<open>Operator actions\<close>

text \<open>A manual test of a node under test is accepted but not scheduled: the answer says
  \<open>scheduled\<close>, and the node keeps its lease, its state and the time of its next test, so the
  running worker owns the observation and the request leaves no trace.\<close>

theorem manual_test_of_running_node:
  assumes "unique_nodes (api_db s)" and "node_of nid (api_db s) = Some n"
    and "n_lifecycle_state n = ''TESTING''" and "av_fail w 0 = None"
  shows "\<exists>answer. handle L w cfg (Node_Test nid) s = (answer, s) \<and> rp_status answer = 200 \<and>
    json_get ''scheduled'' (rp_body answer) = Some (JBool True)"
proof -
  have n: "n \<in> set (db_nodes (api_db s))" "n_id n = nid"
    using find_row_Some [of "\<lambda>n. n_id n = nid" "db_nodes (api_db s)" n] assms(2) by (simp_all add: node_of_def)
  have one: "m = n" if "m \<in> set (db_nodes (api_db s))" "n_id m = nid" for m
    using assms(1) n that by (metis distinct_map inj_onD unique_nodes_def)
  have "rows_affected (schedulable nid) (db_nodes (api_db s)) = 0"
    using one assms(3) by (auto simp: rows_affected_zero schedulable_def)
  moreover have "length (filter (\<lambda>n. n_id n = nid) (db_nodes (api_db s))) = 1"
  proof (rule antisym)
    show "length (filter (\<lambda>n. n_id n = nid) (db_nodes (api_db s))) \<le> 1"
      using assms(1) unfolding unique_nodes_def by (intro at_most_one_id [where f = n_id and k = nid]) auto
    have "n \<in> set (filter (\<lambda>n. n_id n = nid) (db_nodes (api_db s)))" using n by simp
    from length_pos_if_in_set [OF this]
    show "1 \<le> length (filter (\<lambda>n. n_id n = nid) (db_nodes (api_db s)))" by linarith
  qed
  ultimately have "schedule_manual_test (av_now w) nid (api_db s) = (Inr (), api_db s)"
    by (simp add: schedule_manual_test_def Let_def update_where_unaffected on_nodes_id count_rows_def)
  then show ?thesis
    using assms(4) by (simp add: handle_def post_node_test_def ok_response_def json_get_obj)
qed

definition busy_store :: db where
  "busy_store = empty_db\<lparr>db_nodes := [(new_node ''a'' ''h1'' 0)\<lparr>n_lifecycle_state := ''TESTING''\<rparr>]\<rparr>"

theorem manual_test_of_running_node_witness:
  "snd (handle sample_libs plain_env default_config (Node_Test ''a'') (api_of busy_store)) = api_of busy_store"
proof -
  have "unique_nodes (api_db (api_of busy_store))"
    "node_of ''a'' (api_db (api_of busy_store)) = Some ((new_node ''a'' ''h1'' 0)\<lparr>n_lifecycle_state := ''TESTING''\<rparr>)"
    by (simp_all add: unique_nodes_def busy_store_def new_node_def node_of_def find_row_def)
  from manual_test_of_running_node [OF this, of plain_env sample_libs default_config] show ?thesis
    by (auto simp: plain_env_def)
qed

section \<open>One refresh at a time\<close>

text \<open>
  The refresh flag is shared by the requests and the periodic loop. A state is what the
  interface holds and the number of refreshes running; a refresh that ends applies its
  effect on the store.
\<close>

inductive refresh_step :: "libs \<Rightarrow> AppConfig \<Rightarrow> api_state \<times> nat \<Rightarrow> api_state \<times> nat \<Rightarrow> bool" for L cfg where
  request: "handle L w cfg r s = (answer, s') \<Longrightarrow>
    refresh_step L cfg (s, n) (s', if r = Reload_Subscriptions \<and> \<not> ax_refreshing s then n + 1 else n)"
| tick: "\<not> ax_refreshing s \<Longrightarrow> refresh_step L cfg (s, n) (s\<lparr>ax_refreshing := True\<rparr>, n + 1)"
| ends: "0 < n \<Longrightarrow> refresh_step L cfg (s, n)
    ((with_db (snd (refresh L cfg v (api_db s))) s)\<lparr>ax_refreshing := False\<rparr>, n - 1)"

inductive refresh_reach :: "libs \<Rightarrow> AppConfig \<Rightarrow> api_state \<Rightarrow> api_state \<times> nat \<Rightarrow> bool" for L cfg s0 where
  start: "refresh_reach L cfg s0 (s0, 0)"
| step: "refresh_reach L cfg s0 x \<Longrightarrow> refresh_step L cfg x y \<Longrightarrow> refresh_reach L cfg s0 y"

inductive_cases refresh_stepE: "refresh_step L cfg x y"

lemma with_db_flag [simp]: "ax_refreshing (with_db d s) = ax_refreshing s"
  by (simp add: with_db_def)

lemma handle_flag:
  "ax_refreshing (snd (handle L w cfg r s)) \<longleftrightarrow> r = Reload_Subscriptions \<or> ax_refreshing s"
  by (cases r) (simp_all add: handle_def post_node_test_def post_node_revive_def post_best_def post_feedback_def
      post_manual_import_def counted_def post_reload_def Let_def split: option.split prod.split sum.split)

lemma handle_flag_of:
  "handle L w cfg r s = (answer, s') \<Longrightarrow> ax_refreshing s' \<longleftrightarrow> r = Reload_Subscriptions \<or> ax_refreshing s"
  using handle_flag by (metis snd_conv)



end
