(* ===== verification/Publisher.thy ===== *)
theory Publisher
  imports Upstream Views "HOL-Library.AList"
begin

text \<open>
  The publisher of the public subscription (\<open>src/src/publisher/mod.rs\<close>) and its periodic loop
  (\<open>src/src/app.rs\<close>).

  \<^item> The world is a tree of files and directories with a Git state, and the log of the
    commands run, each with the tree it saw and whether it succeeded. A path is the list of its components.
  \<^item> Git is an argument: \<open>h_exec\<close> says how a command ends and what it makes of the tree. So are
    the failures of the file system, the encoder of base64, the lossy decoder of the standard
    library and the random names of temporary files.
\<close>

section \<open>The world\<close>

type_synonym path = "string list"

text \<open>\<open>Path::new\<close> and its components: repeated separators and inner dots do not count.\<close>

definition path_of :: "string \<Rightarrow> path" where
  "path_of s =
     (case split_char (CHR ''/'') s of
        [] \<Rightarrow> []
      | c # cs \<Rightarrow>
          (if s = [] then [] else if c = [] then [''/''] else [c]) @ filter (\<lambda>x. x \<notin> {[], ''.''}) cs)"

fun path_parent :: "path \<Rightarrow> path option" where
  "path_parent [] = None"
| "path_parent [c] = (if c = ''/'' then None else Some [])"
| "path_parent cs = Some (butlast cs)"

fun path_string :: "path \<Rightarrow> string" where
  "path_string [] = []"
| "path_string [c] = c"
| "path_string (c # cs) = (if c = ''/'' then c else c @ ''/'') @ path_string cs"

record 'g tree =
  t_git :: 'g
  t_files :: "(path \<times> string) list"
  t_dirs :: "path list"

record command =
  c_dir :: path
  c_args :: "string list"
  c_env :: "(string \<times> string) list"

datatype command_end = Timed_Out | Not_Started string | Exited bool string string

datatype file_op = Read_File | Read_Dir | Create_Dirs | Write_File | Rename_File

record 'g host =
  h_exec :: "command \<Rightarrow> 'g tree \<Rightarrow> command_end \<times> 'g tree"
  h_io :: "file_op \<Rightarrow> path \<Rightarrow> string option"
  h_base64 :: "string \<Rightarrow> string"
  h_lossy :: "string \<Rightarrow> string"
  h_fresh :: "path \<Rightarrow> string"
  h_ssh :: "string option"

record 'g entry =
  en_command :: command
  en_tree :: "'g tree"
  en_ok :: bool

record 'g world =
  w_tree :: "'g tree"
  w_log :: "'g entry list"

text \<open>The question mark: the first error ends the function.\<close>

definition and_then ::
  "(string + 'a) \<times> 'w \<Rightarrow> ('a \<Rightarrow> 'w \<Rightarrow> (string + 'b) \<times> 'w) \<Rightarrow> (string + 'b) \<times> 'w" where
  "and_then m f = (case m of (Inl e, w) \<Rightarrow> (Inl e, w) | (Inr a, w) \<Rightarrow> f a w)"

section \<open>Commands\<close>

text \<open>The first \<open>n\<close> characters of a UTF-8 string.\<close>

fun take_chars :: "nat \<Rightarrow> string \<Rightarrow> string" where
  "take_chars n [] = []"
| "take_chars n (c # cs) =
     (if 128 \<le> (of_char c :: nat) \<and> (of_char c :: nat) < 192 then c # take_chars n cs
      else case n of 0 \<Rightarrow> [] | Suc m \<Rightarrow> c # take_chars m cs)"

definition command_env :: "'g host \<Rightarrow> (string \<times> string) list" where
  "command_env h =
     [(''GIT_TERMINAL_PROMPT'', ''0''),
      (''GIT_SSH_COMMAND'', coalesce (h_ssh h) ''ssh -o BatchMode=yes -o ConnectTimeout=10'')]"

definition failure_text :: "'g host \<Rightarrow> string \<Rightarrow> string" where
  "failure_text h err =
     ''publisher command failed: '' @
     take_chars 500 (map (\<lambda>c. if c = CHR 0x0A then CHR '' '' else c) (h_lossy h err))"

definition run_command ::
  "'g host \<Rightarrow> path \<Rightarrow> string list \<Rightarrow> 'g world \<Rightarrow> (string + string) \<times> 'g world" where
  "run_command h cwd args w =
     (let cmd = \<lparr>c_dir = cwd, c_args = args, c_env = command_env h\<rparr> in
      case h_exec h cmd (w_tree w) of (how, t) \<Rightarrow>
        (case how of
           Timed_Out \<Rightarrow> Inl ''publisher command timed out''
         | Not_Started e \<Rightarrow> Inl e
         | Exited ok out err \<Rightarrow> if ok then Inr (h_lossy h out) else Inl (failure_text h err),
         \<lparr>w_tree = t,
          w_log = w_log w @
            [\<lparr>en_command = cmd, en_tree = w_tree w, en_ok = (case how of Exited ok _ _ \<Rightarrow> ok | _ \<Rightarrow> False)\<rparr>]\<rparr>))"

definition run_git ::
  "'g host \<Rightarrow> path \<Rightarrow> string list \<Rightarrow> 'g world \<Rightarrow> (string + string) \<times> 'g world" where
  "run_git h cwd args w = run_command h cwd (''git'' # args) w"

section \<open>Files\<close>

definition on_tree :: "('g tree \<Rightarrow> 'g tree) \<Rightarrow> 'g world \<Rightarrow> 'g world" where
  "on_tree f w = w\<lparr>w_tree := f (w_tree w)\<rparr>"

definition file_at :: "path \<Rightarrow> 'g tree \<Rightarrow> string option" where
  "file_at p t = map_of (t_files t) p"

text \<open>An operation of the file system fails or does \<open>f\<close>.\<close>

definition file_io ::
  "'g host \<Rightarrow> file_op \<Rightarrow> path \<Rightarrow> ('g tree \<Rightarrow> 'g tree) \<Rightarrow> 'g world \<Rightarrow> (string + unit) \<times> 'g world" where
  "file_io h op p f w = (case h_io h op p of Some e \<Rightarrow> (Inl e, w) | None \<Rightarrow> (Inr (), on_tree f w))"

definition create_dir_all :: "'g host \<Rightarrow> path \<Rightarrow> 'g world \<Rightarrow> (string + unit) \<times> 'g world" where
  "create_dir_all h p = file_io h Create_Dirs p (\<lambda>t. t\<lparr>t_dirs := List.union (prefixes p) (t_dirs t)\<rparr>)"

definition temporary_of :: "'g host \<Rightarrow> path \<Rightarrow> path" where
  "temporary_of h p = butlast p @ [''.'' @ last p @ ''.'' @ h_fresh h p @ ''.tmp'']"

text \<open>Every path written has a parent. The bytes reach the path by a rename only.\<close>

definition write_if_changed ::
  "'g host \<Rightarrow> path \<Rightarrow> string \<Rightarrow> 'g world \<Rightarrow> (string + bool) \<times> 'g world" where
  "write_if_changed h p bytes w =
     (if h_io h Read_File p = None \<and> file_at p (w_tree w) = Some bytes then (Inr False, w)
      else
        and_then (create_dir_all h (butlast p) w) (\<lambda>_ w.
        and_then (file_io h Write_File (temporary_of h p)
          (\<lambda>t. t\<lparr>t_files := AList.update (temporary_of h p) bytes (t_files t)\<rparr>) w) (\<lambda>_ w.
        and_then (file_io h Rename_File p
          (\<lambda>t. t\<lparr>t_files := AList.update p bytes (AList.delete (temporary_of h p) (t_files t))\<rparr>) w) (\<lambda>_ w.
        (Inr True, w)))))"

section \<open>The repository\<close>

definition is_dir :: "path \<Rightarrow> 'g tree \<Rightarrow> bool" where
  "is_dir p t = (p \<in> set (t_dirs t))"

definition path_exists :: "path \<Rightarrow> 'g tree \<Rightarrow> bool" where
  "path_exists p t = (is_dir p t \<or> file_at p t \<noteq> None)"

definition dir_has_entry :: "'g host \<Rightarrow> path \<Rightarrow> 'g world \<Rightarrow> (string + bool) \<times> 'g world" where
  "dir_has_entry h p w =
     (case h_io h Read_Dir p of
        Some e \<Rightarrow> (Inl e, w)
      | None \<Rightarrow>
          if is_dir p (w_tree w)
          then (Inr (list_ex (strict_prefix p) (map fst (t_files (w_tree w)) @ t_dirs (w_tree w))), w)
          else (Inl ''Not a directory'', w))"

definition clone_if_absent :: "'g host \<Rightarrow> path \<Rightarrow> PublishingConfig \<Rightarrow> 'g world \<Rightarrow> (string + unit) \<times> 'g world" where
  "clone_if_absent h repo cfg w =
     (if is_dir (repo @ [''.git'']) (w_tree w) then (Inr (), w)
      else
        and_then (create_dir_all h (butlast repo) w) (\<lambda>_ w.
        and_then (if path_exists repo (w_tree w) then dir_has_entry h repo w else (Inr False, w)) (\<lambda>occupied w.
        if occupied
        then (Inl (''publisher directory is not an empty Git repository: '' @ path_string repo), w)
        else and_then (run_command h (butlast repo)
               [''git'', ''clone'', ''--branch'', pub_git_branch cfg, ''--single-branch'',
                pub_git_remote cfg, path_string repo] w) (\<lambda>_ w. (Inr (), w)))))"

definition ensure_repo :: "'g host \<Rightarrow> path \<Rightarrow> PublishingConfig \<Rightarrow> 'g world \<Rightarrow> (string + unit) \<times> 'g world" where
  "ensure_repo h repo cfg w =
     and_then (clone_if_absent h repo cfg w) (\<lambda>_ w.
     and_then (run_git h repo [''remote'', ''set-url'', ''origin'', pub_git_remote cfg] w) (\<lambda>_ w.
     and_then (run_git h repo [''config'', ''user.name'', pub_author_name cfg] w) (\<lambda>_ w.
     and_then (run_git h repo [''config'', ''user.email'', pub_author_email cfg] w) (\<lambda>_ w.
     (Inr (), w)))))"

definition rebase_to_remote :: "'g host \<Rightarrow> path \<Rightarrow> string \<Rightarrow> 'g world \<Rightarrow> (string + unit) \<times> 'g world" where
  "rebase_to_remote h repo branch w =
     and_then (run_git h repo [''fetch'', ''origin'', branch] w) (\<lambda>_ w.
     (case run_git h repo [''rebase'', ''origin/'' @ branch] w of
        (Inr _, w) \<Rightarrow> (Inr (), w)
      | (Inl _, w) \<Rightarrow>
          (Inl ''publisher rebase failed'', snd (run_git h repo [''rebase'', ''--abort''] w))))"

text \<open>An error keeps only its outermost context when it is printed.\<close>

definition push_with_rebase_retry ::
  "'g host \<Rightarrow> path \<Rightarrow> string \<Rightarrow> 'g world \<Rightarrow> (string + unit) \<times> 'g world" where
  "push_with_rebase_retry h repo branch w =
     (let args = [''push'', ''origin'', ''HEAD:'' @ branch] in
      case run_git h repo args w of
        (Inr _, w) \<Rightarrow> (Inr (), w)
      | (Inl first, w) \<Rightarrow>
          (case rebase_to_remote h repo branch w of
             (Inl _, w) \<Rightarrow>
               (Inl (''push rejected and safe rebase retry could not be prepared: '' @ first), w)
           | (Inr _, w) \<Rightarrow>
               (case run_git h repo args w of
                  (Inl _, w) \<Rightarrow> (Inl ''publisher push failed after safe rebase retry'', w)
                | (Inr _, w) \<Rightarrow> (Inr (), w))))"

section \<open>Publishing\<close>

record PublishResult =
  pr_active_count :: nat
  pr_changed :: bool
  pr_committed :: bool
  pr_pushed :: bool
  pr_commit :: string

definition nothing_published :: PublishResult where
  "nothing_published =
     \<lparr>pr_active_count = 0, pr_changed = False, pr_committed = False, pr_pushed = False, pr_commit = []\<rparr>"

fun join_lines :: "string list \<Rightarrow> string" where
  "join_lines [] = []"
| "join_lines [l] = l"
| "join_lines (l # ls) = l @ CHR 0x0A # join_lines ls"

definition raw_feed :: "string list \<Rightarrow> string" where
  "raw_feed configs = join_lines configs @ [CHR 0x0A]"

definition encoded_feed :: "'g host \<Rightarrow> string list \<Rightarrow> string" where
  "encoded_feed h configs = h_base64 h (raw_feed configs) @ [CHR 0x0A]"

definition parse_u64 :: "string \<Rightarrow> nat option" where
  "parse_u64 s =
     (let ds = (case s of c # cs \<Rightarrow> if c = CHR ''+'' then cs else s | [] \<Rightarrow> [])
      in if ds \<noteq> [] \<and> list_all is_digit ds \<and> digits_value ds < 2 ^ 64
         then Some (digits_value ds) else None)"

definition show_i64 :: "int \<Rightarrow> string" where
  "show_i64 i = (if i < 0 then ''-'' @ show_nat (nat (- i)) else show_nat (nat i))"

definition data_dir :: "string \<Rightarrow> path" where
  "data_dir database = coalesce (path_parent (path_of database)) [''data'']"

definition write_feed ::
  "'g host \<Rightarrow> path \<Rightarrow> string list \<Rightarrow> 'g world \<Rightarrow> (string + bool) \<times> 'g world" where
  "write_feed h dir configs w =
     and_then (write_if_changed h (dir @ [''active-raw.txt'']) (raw_feed configs) w) (\<lambda>a w.
     and_then (write_if_changed h (dir @ [''active.txt'']) (encoded_feed h configs) w) (\<lambda>b w.
     (Inr (a \<or> b), w)))"

definition commit_message :: "PublicationSnapshot \<Rightarrow> string" where
  "commit_message s =
     ''chore(subscription): publish '' @ show_nat (length (ps_raw_configs s)) @
     '' leased proxies (generation '' @ show_i64 (ps_generation s) @ '')''"

definition commit_feed ::
  "'g host \<Rightarrow> path \<Rightarrow> PublicationSnapshot \<Rightarrow> 'g world \<Rightarrow> (string + unit) \<times> 'g world" where
  "commit_feed h repo s w =
     and_then (run_git h repo [''add'', ''--'', ''subscriptions/active-raw.txt'', ''subscriptions/active.txt''] w)
       (\<lambda>_ w.
     and_then (run_git h repo [''commit'', ''-m'', commit_message s] w) (\<lambda>_ w. (Inr (), w)))"

definition publish ::
  "'g host \<Rightarrow> PublishingConfig \<Rightarrow> string \<Rightarrow> string + PublicationSnapshot \<Rightarrow> 'g world \<Rightarrow>
   (string + PublishResult) \<times> 'g world" where
  "publish h cfg database snapshot w =
     (if \<not> pub_enabled cfg then (Inr nothing_published, w)
      else case snapshot of Inl e \<Rightarrow> (Inl e, w) | Inr s \<Rightarrow>
        (let configs = ps_raw_configs s;
             repo = data_dir database @ [''publisher-repo'']
         in if configs = [] then (Inr nothing_published, w)
         else
           and_then (write_feed h (data_dir database @ [''publish'']) configs w) (\<lambda>changed w.
           and_then (ensure_repo h repo cfg w) (\<lambda>_ w.
           and_then (rebase_to_remote h repo (pub_git_branch cfg) w) (\<lambda>_ w.
           and_then (write_feed h (repo @ [''subscriptions'']) configs w) (\<lambda>repo_changed w.
           and_then (if repo_changed then commit_feed h repo s w else (Inr (), w)) (\<lambda>_ w.
           and_then (run_git h repo [''rev-list'', ''--count'', ''origin/'' @ pub_git_branch cfg @ ''..HEAD''] w)
             (\<lambda>pending w.
           let pushed = 0 < coalesce (parse_u64 (trim pending)) 0 in
           and_then (if pushed then push_with_rebase_retry h repo (pub_git_branch cfg) w else (Inr (), w)) (\<lambda>_ w.
           case run_git h repo [''rev-parse'', ''--short'', ''HEAD''] w of (head, w) \<Rightarrow>
             (Inr \<lparr>pr_active_count = length configs, pr_changed = changed, pr_committed = repo_changed,
                   pr_pushed = pushed, pr_commit = trim (case head of Inr out \<Rightarrow> out | Inl _ \<Rightarrow> [])\<rparr>, w))))))))))"

section \<open>The periodic loop\<close>

definition result_json :: "PublishResult \<Rightarrow> json" where
  "result_json r =
     json_obj [(''active_count'', JInt (int (pr_active_count r))), (''changed'', JBool (pr_changed r)),
       (''committed'', JBool (pr_committed r)), (''pushed'', JBool (pr_pushed r)),
       (''commit'', JStr (pr_commit r))]"

definition publisher_tick ::
  "(instant \<Rightarrow> string) \<Rightarrow> 'g host \<Rightarrow> AppConfig \<Rightarrow> string \<Rightarrow> string option \<Rightarrow> instant \<Rightarrow> bool \<Rightarrow>
   db \<times> 'g world \<Rightarrow> db \<times> 'g world" where
  "publisher_tick stamp h cfg database failing now ok s =
     (case s of (d, w) \<Rightarrow>
        case publish h (cfg_publishing cfg) database
               (case failing of Some e \<Rightarrow> Inl e | None \<Rightarrow> Inr (publication_snapshot now d)) w of
          (r, w') \<Rightarrow>
            (logged ok (set_service_state now ''last_publisher''
               (case r of
                  Inr result \<Rightarrow> json_obj [(''at'', JStr (stamp now)), (''status'', JStr ''ok''),
                    (''result'', result_json result)]
                | Inl e \<Rightarrow> json_obj [(''at'', JStr (stamp now)), (''status'', JStr ''error''),
                    (''error'', JStr e)])) d, w'))"

section \<open>The protocol of a publication\<close>

text \<open>
  What a run may ask of Git, as a state machine over the log. It is the contract the
  comments of the source state: the remote is fetched and rebased onto before anything is
  staged, what is staged is the rendered feed, a rejected push is retried once after another
  fetch and rebase, a failed rebase is aborted, and nothing is ever reset or forced.
\<close>

datatype phase =
  Start | Cloned | Remote_Set | Named | Mailed | Fetched | Rebased | Staged | Committed | Counted
  | Rejected | Refetched | Rerebased | Pushed | Finished | Conflict | Stopped

definition feed_in :: "'g host \<Rightarrow> path \<Rightarrow> string list \<Rightarrow> 'g tree \<Rightarrow> bool" where
  "feed_in h dir configs t \<longleftrightarrow>
     file_at (dir @ [''active-raw.txt'']) t = Some (raw_feed configs) \<and>
     file_at (dir @ [''active.txt'']) t = Some (encoded_feed h configs)"

definition asks :: "'g entry \<Rightarrow> path \<Rightarrow> string list \<Rightarrow> bool" where
  "asks e dir args \<longleftrightarrow> c_dir (en_command e) = dir \<and> c_args (en_command e) = ''git'' # args"

inductive git_step ::
  "'g host \<Rightarrow> PublishingConfig \<Rightarrow> path \<Rightarrow> PublicationSnapshot \<Rightarrow> phase \<Rightarrow> 'g entry \<Rightarrow> phase \<Rightarrow> bool"
  for h cfg repo s where
  clone: "asks e (butlast repo) [''clone'', ''--branch'', pub_git_branch cfg, ''--single-branch'',
      pub_git_remote cfg, path_string repo] \<Longrightarrow> git_step h cfg repo s Start e (if en_ok e then Cloned else Stopped)"
| set_url: "p \<in> {Start, Cloned} \<Longrightarrow> asks e repo [''remote'', ''set-url'', ''origin'', pub_git_remote cfg] \<Longrightarrow>
    git_step h cfg repo s p e (if en_ok e then Remote_Set else Stopped)"
| user_name: "asks e repo [''config'', ''user.name'', pub_author_name cfg] \<Longrightarrow>
    git_step h cfg repo s Remote_Set e (if en_ok e then Named else Stopped)"
| user_email: "asks e repo [''config'', ''user.email'', pub_author_email cfg] \<Longrightarrow>
    git_step h cfg repo s Named e (if en_ok e then Mailed else Stopped)"
| fetch: "asks e repo [''fetch'', ''origin'', pub_git_branch cfg] \<Longrightarrow>
    git_step h cfg repo s Mailed e (if en_ok e then Fetched else Stopped)"
| rebase: "asks e repo [''rebase'', ''origin/'' @ pub_git_branch cfg] \<Longrightarrow>
    git_step h cfg repo s Fetched e (if en_ok e then Rebased else Conflict)"
| add: "asks e repo [''add'', ''--'', ''subscriptions/active-raw.txt'', ''subscriptions/active.txt''] \<Longrightarrow>
    feed_in h (repo @ [''subscriptions'']) (ps_raw_configs s) (en_tree e) \<Longrightarrow>
    git_step h cfg repo s Rebased e (if en_ok e then Staged else Stopped)"
| commit: "asks e repo [''commit'', ''-m'', commit_message s] \<Longrightarrow>
    git_step h cfg repo s Staged e (if en_ok e then Committed else Stopped)"
| count: "p \<in> {Rebased, Committed} \<Longrightarrow>
    asks e repo [''rev-list'', ''--count'', ''origin/'' @ pub_git_branch cfg @ ''..HEAD''] \<Longrightarrow>
    git_step h cfg repo s p e (if en_ok e then Counted else Stopped)"
| push: "asks e repo [''push'', ''origin'', ''HEAD:'' @ pub_git_branch cfg] \<Longrightarrow>
    git_step h cfg repo s Counted e (if en_ok e then Pushed else Rejected)"
| refetch: "asks e repo [''fetch'', ''origin'', pub_git_branch cfg] \<Longrightarrow>
    git_step h cfg repo s Rejected e (if en_ok e then Refetched else Stopped)"
| rerebase: "asks e repo [''rebase'', ''origin/'' @ pub_git_branch cfg] \<Longrightarrow>
    git_step h cfg repo s Refetched e (if en_ok e then Rerebased else Conflict)"
| repush: "asks e repo [''push'', ''origin'', ''HEAD:'' @ pub_git_branch cfg] \<Longrightarrow>
    git_step h cfg repo s Rerebased e (if en_ok e then Pushed else Stopped)"
| abort: "asks e repo [''rebase'', ''--abort''] \<Longrightarrow> git_step h cfg repo s Conflict e Stopped"
| head: "p \<in> {Counted, Pushed} \<Longrightarrow> asks e repo [''rev-parse'', ''--short'', ''HEAD''] \<Longrightarrow>
    git_step h cfg repo s p e Finished"

inductive git_run ::
  "'g host \<Rightarrow> PublishingConfig \<Rightarrow> path \<Rightarrow> PublicationSnapshot \<Rightarrow> phase \<Rightarrow> 'g entry list \<Rightarrow> phase \<Rightarrow> bool"
  for h cfg repo s where
  nil: "git_run h cfg repo s p [] p"
| snoc: "git_run h cfg repo s p es q \<Longrightarrow> git_step h cfg repo s q e r \<Longrightarrow> git_run h cfg repo s p (es @ [e]) r"

lemma git_run_append:
  assumes "git_run h cfg repo s p es q" and "git_run h cfg repo s q fs r"
  shows "git_run h cfg repo s p (es @ fs) r"
  using assms(2,1) by (induction rule: git_run.induct) (auto simp flip: append_assoc intro: git_run.intros)

text \<open>A computation that takes the protocol from phase \<open>p\<close> to a phase of \<open>Q\<close> when it succeeds
  and of \<open>E\<close> when it fails.\<close>

definition obeys ::
  "'g host \<Rightarrow> PublishingConfig \<Rightarrow> path \<Rightarrow> PublicationSnapshot \<Rightarrow> phase \<Rightarrow> 'g world \<Rightarrow>
   (string + 'a) \<times> 'g world \<Rightarrow> phase set \<Rightarrow> phase set \<Rightarrow> bool" where
  "obeys h cfg repo s p w m Q E \<longleftrightarrow>
     (\<exists>es q. w_log (snd m) = w_log w @ es \<and> git_run h cfg repo s p es q \<and>
        q \<in> (case fst m of Inr _ \<Rightarrow> Q | Inl _ \<Rightarrow> E))"

lemma obeys_pure:
  "w_log (snd m) = w_log w \<Longrightarrow> p \<in> (case fst m of Inr _ \<Rightarrow> Q | Inl _ \<Rightarrow> E) \<Longrightarrow> obeys h cfg repo s p w m Q E"
  unfolding obeys_def using git_run.nil by force

lemma obeys_then:
  assumes "obeys h cfg repo s p w m Q E"
    and "\<And>a w' q. m = (Inr a, w') \<Longrightarrow> q \<in> Q \<Longrightarrow> obeys h cfg repo s q w' (f a w') Q' E"
  shows "obeys h cfg repo s p w (and_then m f) Q' E"
proof -
  obtain r w' where m: "m = (r, w')" by fastforce
  from assms(1) obtain es q where es: "w_log w' = w_log w @ es" "git_run h cfg repo s p es q"
      "q \<in> (case r of Inr _ \<Rightarrow> Q | Inl _ \<Rightarrow> E)"
    by (auto simp: obeys_def m)
  show ?thesis
  proof (cases r)
    case (Inl e)
    with es m show ?thesis by (auto simp: obeys_def and_then_def)
  next
    case (Inr a)
    with assms(2) [of a w' q] es(3) m have "obeys h cfg repo s q w' (f a w') Q' E" by simp
    then obtain fs r' where "w_log (snd (f a w')) = w_log w' @ fs" "git_run h cfg repo s q fs r'"
        "r' \<in> (case fst (f a w') of Inr _ \<Rightarrow> Q' | Inl _ \<Rightarrow> E)"
      unfolding obeys_def by blast
    with es git_run_append [OF es(2)] show ?thesis
      by (auto simp: obeys_def and_then_def m Inr)
  qed
qed

lemma obeys_mono: "obeys h cfg repo s p w m Q E \<Longrightarrow> Q \<subseteq> Q' \<Longrightarrow> E \<subseteq> E' \<Longrightarrow> obeys h cfg repo s p w m Q' E'"
  unfolding obeys_def by (force split: sum.splits)

text \<open>One command is one step.\<close>

definition entry_of :: "'g host \<Rightarrow> path \<Rightarrow> string list \<Rightarrow> 'g world \<Rightarrow> 'g entry" where
  "entry_of h cwd args w = last (w_log (snd (run_command h cwd args w)))"

lemma run_command_log:
  "w_log (snd (run_command h cwd args w)) = w_log w @ [entry_of h cwd args w]"
  "c_dir (en_command (entry_of h cwd args w)) = cwd" "c_args (en_command (entry_of h cwd args w)) = args"
  "en_tree (entry_of h cwd args w) = w_tree w"
  "en_ok (entry_of h cwd args w) \<longleftrightarrow> (\<exists>out. fst (run_command h cwd args w) = Inr out)"
  by (simp_all add: run_command_def entry_of_def Let_def split: prod.split command_end.split)

lemma obeys_run:
  assumes "\<And>e. asks e cwd args \<Longrightarrow> en_tree e = w_tree w \<Longrightarrow> git_step h cfg repo s p e (if en_ok e then q else r)"
  shows "obeys h cfg repo s p w (run_command h cwd (''git'' # args) w) {q} {r}"
proof -
  let ?e = "entry_of h cwd (''git'' # args) w"
  have "asks ?e cwd args" by (simp add: asks_def run_command_log)
  from git_run.snoc [OF git_run.nil assms [OF this run_command_log(4)]]
  have "git_run h cfg repo s p [?e] (if en_ok ?e then q else r)" by simp
  moreover have "(if en_ok ?e then q else r) \<in> (case fst (run_command h cwd (''git'' # args) w) of
      Inr _ \<Rightarrow> {q} | Inl _ \<Rightarrow> {r})"
    using run_command_log(5) [of h cwd "''git'' # args" w] by (auto split: sum.splits)
  ultimately show ?thesis unfolding obeys_def using run_command_log(1) by blast
qed

section \<open>Files\<close>

lemma and_then_Inr: "and_then m f = (Inr b, w') \<longleftrightarrow> (\<exists>a w1. m = (Inr a, w1) \<and> f a w1 = (Inr b, w'))"
  by (auto simp: and_then_def split: prod.splits sum.splits)

lemma and_then_snd:
  assumes "P (snd m)" and "\<And>a w. m = (Inr a, w) \<Longrightarrow> P (snd (f a w))"
  shows "P (snd (and_then m f))"
  using assms by (auto simp: and_then_def split: prod.split sum.split)

lemma file_at_update:
  "file_at p (t\<lparr>t_files := AList.update q b fs\<rparr>) = (if p = q then Some b else map_of fs p)"
  "file_at p (t\<lparr>t_files := AList.update q b (AList.delete q' fs)\<rparr>) =
     (if p = q then Some b else if p = q' then None else map_of fs p)"
  by (simp_all add: file_at_def update_conv' delete_conv')

lemma file_at_dirs [simp]: "file_at p (t\<lparr>t_dirs := ds\<rparr>) = file_at p t"
  by (simp add: file_at_def)

lemma write_log [simp]: "w_log (snd (write_if_changed h p bytes w)) = w_log w"
  by (simp add: write_if_changed_def create_dir_all_def file_io_def on_tree_def and_then_def split: option.split)

lemma write_git [simp]: "t_git (w_tree (snd (write_if_changed h p bytes w))) = t_git (w_tree w)"
  by (simp add: write_if_changed_def create_dir_all_def file_io_def on_tree_def and_then_def split: option.split)

text \<open>A write that succeeds leaves the bytes, one that fails leaves what the path had; no other
  path changes but the temporary.\<close>

lemma write_at:
  assumes "write_if_changed h p bytes w = (r, w')" and "temporary_of h p \<noteq> p"
  shows "file_at p (w_tree w') = (case r of Inr _ \<Rightarrow> Some bytes | Inl _ \<Rightarrow> file_at p (w_tree w))"
  using assms
  by (auto simp: write_if_changed_def create_dir_all_def file_io_def on_tree_def and_then_def
      file_at_def update_conv' delete_conv' split: option.splits if_splits)

lemma write_elsewhere:
  assumes "write_if_changed h p bytes w = (r, w')" and "q \<noteq> p" and "q \<noteq> temporary_of h p"
  shows "file_at q (w_tree w') = file_at q (w_tree w)"
  using assms
  by (auto simp: write_if_changed_def create_dir_all_def file_io_def on_tree_def and_then_def
      file_at_def update_conv' delete_conv' split: option.splits if_splits)

lemma temporary_names:
  "temporary_of h (dir @ [f]) = dir @ [''.'' @ f @ ''.'' @ h_fresh h (dir @ [f]) @ ''.tmp'']"
  by (simp add: temporary_of_def)

lemma write_feed_log [simp]:
  "w_log (snd (write_feed h dir configs w)) = w_log w"
proof -
  have log: "w_log v = w_log u" if "write_if_changed h p bytes u = (r, v)" for p bytes r u v
    using write_log [of h p bytes u] that by simp
  show ?thesis
    unfolding write_feed_def
    by (intro and_then_snd [where P = "\<lambda>v. w_log v = w_log w"]) (metis log write_log snd_conv)+
qed

lemma write_feed_exact:
  assumes "write_feed h dir configs w = (Inr b, w')"
  shows "feed_in h dir configs (w_tree w')"
proof -
  let ?p = "dir @ [''active-raw.txt'']" and ?q = "dir @ [''active.txt'']"
  from assms obtain b1 w1 b2 where 1: "write_if_changed h ?p (raw_feed configs) w = (Inr b1, w1)"
    and 2: "write_if_changed h ?q (encoded_feed h configs) w1 = (Inr b2, w')"
    by (auto simp: write_feed_def and_then_Inr)
  have "file_at ?p (w_tree w1) = Some (raw_feed configs)"
    using write_at [OF 1] by (simp add: temporary_names)
  moreover have "file_at ?p (w_tree w') = file_at ?p (w_tree w1)"
    using write_elsewhere [OF 2, of ?p] by (simp add: temporary_names)
  moreover have "file_at ?q (w_tree w') = Some (encoded_feed h configs)"
    using write_at [OF 2] by (simp add: temporary_names)
  ultimately show ?thesis by (simp add: feed_in_def)
qed

subsection \<open>The operations obey the protocol\<close>

lemmas git_steps = git_step.intros

lemma obeys_git:
  "(\<And>e. asks e cwd args \<Longrightarrow> en_tree e = w_tree w \<Longrightarrow> git_step h cfg repo s p e (if en_ok e then q else r)) \<Longrightarrow>
     obeys h cfg repo s p w (run_git h cwd args w) {q} {r}"
  unfolding run_git_def by (rule obeys_run)

lemma create_dir_log [simp]: "w_log (snd (create_dir_all h p w)) = w_log w"
  by (simp add: create_dir_all_def file_io_def on_tree_def split: option.split)

lemma dir_has_entry_world: "snd (dir_has_entry h p w) = w"
  by (simp add: dir_has_entry_def split: option.split)

lemma obeys_clone:
  "obeys h cfg repo s Start w (clone_if_absent h repo cfg w) {Start, Cloned} {Start, Stopped}"
proof -
  have dir: "obeys h cfg repo s Start w (create_dir_all h (butlast repo) w) {Start} {Start, Stopped}" for w
    by (rule obeys_pure) (simp_all split: sum.split)
  have look: "obeys h cfg repo s Start w
      (if path_exists repo (w_tree w) then dir_has_entry h repo w else (Inr False, w)) {Start} {Start, Stopped}" for w
    by (rule obeys_pure) (simp_all add: dir_has_entry_world split: sum.split)
  have fail: "obeys h cfg repo s Start w (Inl e, w) {Start, Cloned} {Start, Stopped}" for w e
    by (rule obeys_pure) simp_all
  have ok: "obeys h cfg repo s p w (Inr (), w) {Start, Cloned} {Start, Stopped}" if "p \<in> {Start, Cloned}" for w p
    using that by (intro obeys_pure) simp_all
  have run: "obeys h cfg repo s Start w (run_command h (butlast repo)
      [''git'', ''clone'', ''--branch'', pub_git_branch cfg, ''--single-branch'', pub_git_remote cfg,
       path_string repo] w) {Cloned} {Start, Stopped}" for w
    by (rule obeys_mono [where Q = "{Cloned}" and E = "{Stopped}"], intro obeys_run git_step.clone) simp_all
  show ?thesis
    unfolding clone_if_absent_def
    by (auto intro!: obeys_then [OF dir] obeys_then [OF look] obeys_then [OF run] fail ok)
qed

lemma obeys_ensure:
  "obeys h cfg repo s Start w (ensure_repo h repo cfg w) {Mailed} {Start, Stopped}"
proof -
  have 1: "obeys h cfg repo s p w (run_git h repo [''remote'', ''set-url'', ''origin'', pub_git_remote cfg] w)
      {Remote_Set} {Start, Stopped}" if "p \<in> {Start, Cloned}" for w p
    by (rule obeys_mono [where Q = "{Remote_Set}" and E = "{Stopped}"], intro obeys_git git_step.set_url that)
      simp_all
  have 2: "obeys h cfg repo s Remote_Set w (run_git h repo [''config'', ''user.name'', pub_author_name cfg] w)
      {Named} {Start, Stopped}" for w
    by (rule obeys_mono [where Q = "{Named}" and E = "{Stopped}"], intro obeys_git git_step.user_name) simp_all
  have 3: "obeys h cfg repo s Named w (run_git h repo [''config'', ''user.email'', pub_author_email cfg] w)
      {Mailed} {Start, Stopped}" for w
    by (rule obeys_mono [where Q = "{Mailed}" and E = "{Stopped}"], intro obeys_git git_step.user_email) simp_all
  have ok: "obeys h cfg repo s Mailed w (Inr (), w) {Mailed} {Start, Stopped}" for w
    by (rule obeys_pure) simp_all
  show ?thesis
    unfolding ensure_repo_def
    by (auto intro!: obeys_then [OF obeys_clone] obeys_then [OF 1] obeys_then [OF 2] obeys_then [OF 3] ok)
qed

text \<open>A result that is inspected: the computation goes on after it, whichever it is.\<close>

lemma obeys_case:
  assumes "obeys h cfg repo s p w m Q E"
    and "\<And>a w1 q. m = (Inr a, w1) \<Longrightarrow> q \<in> Q \<Longrightarrow> obeys h cfg repo s q w1 (g a w1) Q' E'"
    and "\<And>e w1 q. m = (Inl e, w1) \<Longrightarrow> q \<in> E \<Longrightarrow> obeys h cfg repo s q w1 (f e w1) Q' E'"
  shows "obeys h cfg repo s p w (case m of (r, w1) \<Rightarrow> (case r of Inl e \<Rightarrow> f e w1 | Inr a \<Rightarrow> g a w1)) Q' E'"
proof -
  obtain r w1 where m: "m = (r, w1)" by fastforce
  let ?k = "case r of Inl e \<Rightarrow> f e w1 | Inr a \<Rightarrow> g a w1"
  from assms(1) obtain es q where es: "w_log w1 = w_log w @ es" "git_run h cfg repo s p es q"
      "q \<in> (case r of Inr _ \<Rightarrow> Q | Inl _ \<Rightarrow> E)"
    by (auto simp: obeys_def m)
  then have "obeys h cfg repo s q w1 ?k Q' E'"
    using assms(2,3) m by (cases r) auto
  then obtain fs r' where "w_log (snd ?k) = w_log w1 @ fs" "git_run h cfg repo s q fs r'"
      "r' \<in> (case fst ?k of Inr _ \<Rightarrow> Q' | Inl _ \<Rightarrow> E')"
    unfolding obeys_def by blast
  with es git_run_append [OF es(2)] show ?thesis by (auto simp: obeys_def m)
qed

lemma obeys_rebase:
  assumes "\<And>e. asks e repo [''fetch'', ''origin'', pub_git_branch cfg] \<Longrightarrow>
      git_step h cfg repo s p e (if en_ok e then q else Stopped)"
    and "\<And>e. asks e repo [''rebase'', ''origin/'' @ pub_git_branch cfg] \<Longrightarrow>
      git_step h cfg repo s q e (if en_ok e then r else Conflict)"
  shows "obeys h cfg repo s p w (rebase_to_remote h repo (pub_git_branch cfg) w) {r} {Stopped}"
proof -
  have 1: "obeys h cfg repo s p w (run_git h repo [''fetch'', ''origin'', pub_git_branch cfg] w) {q} {Stopped}" for w
    by (rule obeys_git) (rule assms(1))
  have 2: "obeys h cfg repo s q w (run_git h repo [''rebase'', ''origin/'' @ pub_git_branch cfg] w) {r} {Conflict}" for w
    by (rule obeys_git) (rule assms(2))
  have 3: "obeys h cfg repo s Conflict w
      (Inl e, snd (run_git h repo [''rebase'', ''--abort''] w)) {r} {Stopped}" for w and e :: string
  proof -
    have "obeys h cfg repo s Conflict w (run_git h repo [''rebase'', ''--abort''] w) {Stopped} {Stopped}"
      by (rule obeys_git) (simp add: git_step.abort)
    then show ?thesis by (auto simp: obeys_def split: sum.splits)
  qed
  have 4: "obeys h cfg repo s r w (Inr (), w) {r} {Stopped}" for w
    by (rule obeys_pure) simp_all
  show ?thesis
    unfolding rebase_to_remote_def
    by (rule obeys_then [OF 1], simp only: singleton_iff, rule obeys_case [OF 2])
      (simp_all only: singleton_iff 3 4)
qed

lemma obeys_push:
  "obeys h cfg repo s Counted w (push_with_rebase_retry h repo (pub_git_branch cfg) w) {Pushed} {Stopped}"
proof -
  let ?args = "[''push'', ''origin'', ''HEAD:'' @ pub_git_branch cfg]"
  have 1: "obeys h cfg repo s Counted w (run_git h repo ?args w) {Pushed} {Rejected}" for w
    by (intro obeys_git git_step.push)
  have 2: "obeys h cfg repo s Rejected w (rebase_to_remote h repo (pub_git_branch cfg) w) {Rerebased} {Stopped}" for w
    by (intro obeys_rebase [where q = Refetched] git_step.refetch git_step.rerebase)
  have 3: "obeys h cfg repo s Rerebased w (run_git h repo ?args w) {Pushed} {Stopped}" for w
    by (intro obeys_git git_step.repush)
  have ok: "obeys h cfg repo s Pushed w (Inr (), w) {Pushed} {Stopped}" for w
    by (rule obeys_pure) simp_all
  have stop: "obeys h cfg repo s Stopped w (Inl e, w) {Pushed} {Stopped}" for w and e :: string
    by (rule obeys_pure) simp_all
  show ?thesis
    unfolding push_with_rebase_retry_def Let_def
    by (rule obeys_case [OF 1], simp only: singleton_iff ok, simp only: singleton_iff,
        rule obeys_case [OF 2], simp only: singleton_iff, rule obeys_case [OF 3])
      (simp_all only: singleton_iff ok stop)
qed

lemma obeys_commit:
  assumes "feed_in h (repo @ [''subscriptions'']) (ps_raw_configs s) (w_tree w)"
  shows "obeys h cfg repo s Rebased w (commit_feed h repo s w) {Committed} {Stopped}"
proof -
  have 1: "obeys h cfg repo s Rebased w
      (run_git h repo [''add'', ''--'', ''subscriptions/active-raw.txt'', ''subscriptions/active.txt''] w)
      {Staged} {Stopped}"
    by (rule obeys_git, rule git_step.add) (simp_all add: assms)
  have 2: "obeys h cfg repo s Staged w (run_git h repo [''commit'', ''-m'', commit_message s] w)
      {Committed} {Stopped}" for w
    by (intro obeys_git git_step.commit)
  have ok: "obeys h cfg repo s Committed w (Inr (), w) {Committed} {Stopped}" for w
    by (rule obeys_pure) simp_all
  show ?thesis
    unfolding commit_feed_def
    by (rule obeys_then [OF 1], simp only: singleton_iff, rule obeys_then [OF 2])
      (simp_all only: singleton_iff ok)
qed

lemma obeys_finish:
  assumes "p \<in> {Counted, Pushed}"
  shows "obeys h cfg repo s p w (case run_git h repo [''rev-parse'', ''--short'', ''HEAD''] w of (r, w) \<Rightarrow>
      (Inr (f r), w)) {Finished} E"
proof -
  have "obeys h cfg repo s p w (run_git h repo [''rev-parse'', ''--short'', ''HEAD''] w) {Finished} {Finished}"
    by (rule obeys_git) (simp add: git_step.head [OF assms])
  then show ?thesis
    by (auto simp: obeys_def split: prod.split sum.splits)
qed

text \<open>What holds after the feed is rendered locally.\<close>

definition run_phases :: "phase set" where
  "run_phases = {Start, Rebased, Stopped}"

lemma obeys_publish_from:
  assumes "pub_enabled cfg" and "ps_raw_configs s \<noteq> []"
  shows "obeys h cfg (data_dir database @ [''publisher-repo'']) s Start w
    (publish h cfg database (Inr s) w) {Finished} run_phases"
proof -
  let ?repo = "data_dir database @ [''publisher-repo'']"
  let ?b = "pub_git_branch cfg"
  note errors = obeys_mono [where E' = run_phases, OF _ order_refl]
  have 1: "obeys h cfg ?repo s Start w (write_feed h dir configs w) {Start} run_phases" for dir configs w
    by (rule obeys_pure) (simp_all add: run_phases_def split: sum.split)
  have 2: "obeys h cfg ?repo s Start w (ensure_repo h ?repo cfg w) {Mailed} run_phases" for w
    by (rule errors [OF obeys_ensure]) (auto simp: run_phases_def)
  have 3: "obeys h cfg ?repo s Mailed w (rebase_to_remote h ?repo ?b w) {Rebased} run_phases" for w
    by (rule errors [where E = "{Stopped}"], intro obeys_rebase [where q = Fetched] git_step.fetch git_step.rebase)
      (simp_all add: run_phases_def)
  have 4: "obeys h cfg ?repo s Rebased w (write_feed h dir configs w) {Rebased} run_phases" for dir configs w
    by (rule obeys_pure) (simp_all add: run_phases_def split: sum.split)
  have 5: "obeys h cfg ?repo s Rebased w1 (if c then commit_feed h ?repo s w1 else (Inr (), w1))
      (if c then {Committed} else {Rebased}) run_phases"
    if "write_feed h (?repo @ [''subscriptions'']) (ps_raw_configs s) w = (Inr c', w1)" for w w1 c c'
  proof (cases c)
    case True
    then show ?thesis
      using errors [OF obeys_commit [OF write_feed_exact [OF that]], of cfg] by (simp add: run_phases_def)
  qed (simp add: obeys_pure)
  have 6: "obeys h cfg ?repo s p w (run_git h ?repo [''rev-list'', ''--count'', ''origin/'' @ ?b @ ''..HEAD''] w)
      {Counted} run_phases" if "p \<in> {Rebased, Committed}" for p w
    by (rule errors [where E = "{Stopped}"], intro obeys_git git_step.count that) (simp_all add: run_phases_def)
  have 7: "obeys h cfg ?repo s Counted w (if c then push_with_rebase_retry h ?repo ?b w else (Inr (), w))
      {Counted, Pushed} run_phases" for c w
    by (cases c) (simp_all add: obeys_mono [OF obeys_push] obeys_pure run_phases_def)
  show ?thesis
    using assms
    apply (simp add: publish_def Let_def del: append_Cons)
    apply (rule obeys_then [OF 1], simp only: singleton_iff)
    apply (rule obeys_then [OF 2], simp only: singleton_iff)
    apply (rule obeys_then [OF 3], simp only: singleton_iff)
    apply (rule obeys_then [OF 4], simp only: singleton_iff)
    apply (rule obeys_then [OF 5 [unfolded append_assoc]], assumption)
    apply (rule obeys_then [OF 6], simp split: if_splits)
    apply (simp only: singleton_iff)
    apply (rule obeys_then [OF 7])
    apply (rule obeys_finish, simp)
    done
qed

definition verb_is :: "string \<Rightarrow> 'g entry \<Rightarrow> bool" where
  "verb_is v e \<longleftrightarrow> (\<exists>rest. c_args (en_command e) = ''git'' # v # rest)"

definition pushes :: "'g entry list \<Rightarrow> nat" where
  "pushes es = length (filter (verb_is ''push'') es)"

lemma verb_asks: "asks e dir (v # rest) \<Longrightarrow> verb_is v' e \<longleftrightarrow> v' = v"
  by (auto simp: verb_is_def asks_def)

inductive_cases git_runE: "git_run h cfg repo s p es q"

lemma git_run_pushes:
  "git_run h cfg repo s Start es q \<Longrightarrow>
     pushes es \<le> 2 \<and>
     (q \<in> {Start, Cloned, Remote_Set, Named, Mailed, Fetched, Rebased, Staged, Committed, Counted} \<longrightarrow> pushes es = 0) \<and>
     (q \<in> {Rejected, Refetched, Rerebased, Conflict} \<longrightarrow> pushes es \<le> 1)"
proof (induction Start es q rule: git_run.induct)
  case (snoc es q e r)
  from snoc(3) snoc(2) show ?case
    by cases (auto simp: pushes_def verb_asks split: if_splits)
qed (simp add: pushes_def)

definition publisher_verbs :: "string list" where
  "publisher_verbs = [''clone'', ''remote'', ''config'', ''fetch'', ''rebase'', ''add'', ''commit'', ''rev-list'',
     ''push'', ''rev-parse'']"

lemma git_run_entries:
  "git_run h cfg repo s p es q \<Longrightarrow> e \<in> set es \<Longrightarrow>
     (\<exists>v \<in> set publisher_verbs. verb_is v e) \<and>
     (verb_is ''push'' e \<longrightarrow> asks e repo [''push'', ''origin'', ''HEAD:'' @ pub_git_branch cfg]) \<and>
     (verb_is ''add'' e \<longrightarrow> feed_in h (repo @ [''subscriptions'']) (ps_raw_configs s) (en_tree e))"
proof (induction rule: git_run.induct)
  case (snoc p es q e' r)
  show ?case
  proof (cases "e = e'")
    case True
    from snoc(2) show ?thesis
      unfolding True by cases (auto simp: publisher_verbs_def verb_asks)
  qed (use snoc in auto)
qed simp

text \<open>C10. A publication follows the protocol, whatever Git does: the commands it runs are a path of
  the protocol from its start, complete when it succeeds; when it fails it never stops at a
  rebase in conflict that was not aborted nor at a rejected push that was not retried. There
  are at most two pushes, each without force and the second only after a new fetch and
  rebase; no command resets, cleans or checks out; and what is staged is exactly the
  rendering of the snapshot.\<close>

theorem publish_protocol:
  assumes "pub_enabled cfg" and "ps_raw_configs s \<noteq> []"
    and "repo = data_dir database @ [''publisher-repo'']"
  shows "\<exists>es q. w_log (snd (publish h cfg database (Inr s) w)) = w_log w @ es \<and>
    git_run h cfg repo s Start es q \<and>
    (case fst (publish h cfg database (Inr s) w) of
       Inr r \<Rightarrow> q = Finished | Inl e \<Rightarrow> q \<in> {Start, Rebased, Stopped}) \<and>
    pushes es \<le> 2 \<and>
    (\<forall>e \<in> set es. (\<exists>v \<in> set publisher_verbs. verb_is v e) \<and>
       (verb_is ''push'' e \<longrightarrow> asks e repo [''push'', ''origin'', ''HEAD:'' @ pub_git_branch cfg]) \<and>
       (verb_is ''add'' e \<longrightarrow> feed_in h (repo @ [''subscriptions'']) (ps_raw_configs s) (en_tree e)))"
proof -
  from obeys_publish_from [OF assms(1,2), of h database w, folded assms(3)] obtain es q where
    es: "w_log (snd (publish h cfg database (Inr s) w)) = w_log w @ es" "git_run h cfg repo s Start es q"
      "q \<in> (case fst (publish h cfg database (Inr s) w) of Inr _ \<Rightarrow> {Finished} | Inl _ \<Rightarrow> run_phases)"
    unfolding obeys_def by blast
  have "case fst (publish h cfg database (Inr s) w) of
      Inr r \<Rightarrow> q = Finished | Inl e \<Rightarrow> q \<in> {Start, Rebased, Stopped}"
    using es(3) by (auto simp: run_phases_def split: sum.splits)
  with es git_run_pushes [OF es(2)] git_run_entries [OF es(2)] show ?thesis by blast
qed

definition sample_host :: "string \<Rightarrow> bool \<Rightarrow> bool host" where
  "sample_host out refuse =
     \<lparr>h_exec = (\<lambda>c t.
        (Exited (\<not> (refuse \<and> take 2 (c_args c) = [''git'', ''rebase''] \<and> t_git t)) out [], t)),
      h_io = (\<lambda>_ _. None), h_base64 = (\<lambda>s. s), h_lossy = (\<lambda>s. s), h_fresh = (\<lambda>_. ''u''), h_ssh = None\<rparr>"

definition sample_snapshot :: PublicationSnapshot where
  "sample_snapshot = \<lparr>ps_generation = 7, ps_raw_configs = [''vless://a'', ''trojan://b'']\<rparr>"

definition public_config :: PublishingConfig where
  "public_config = default_publishing\<lparr>pub_enabled := True\<rparr>"

definition checkout_dir :: path where
  "checkout_dir = data_dir ''data/fleet.db'' @ [''publisher-repo'']"

definition sample_world :: "bool \<Rightarrow> bool world" where
  "sample_world dirty = \<lparr>w_tree = \<lparr>t_git = dirty, t_files = [], t_dirs = [checkout_dir @ [''.git'']]\<rparr>, w_log = []\<rparr>"

theorem publish_protocol_witness:
  "\<exists>es q. w_log (snd (publish (sample_host ''1'' False) public_config ''data/fleet.db'' (Inr sample_snapshot)
       (sample_world False))) = es \<and>
     git_run (sample_host ''1'' False) public_config checkout_dir sample_snapshot Start es q \<and> pushes es \<le> 2"
proof -
  have "pub_enabled public_config" "ps_raw_configs sample_snapshot \<noteq> []"
    by (simp_all add: public_config_def sample_snapshot_def)
  from publish_protocol [OF this checkout_dir_def, of "sample_host ''1'' False" "sample_world False"]
  show ?thesis by (auto simp: sample_world_def)
qed

section \<open>Quiet runs\<close>

text \<open>Nothing is published when there is nothing to publish: a disabled publisher and an empty
  snapshot leave the files, the repository and the log as they are, so a feed is never
  replaced by a blank one; a failing snapshot is an error with no effect.\<close>

theorem blank_feed_never_written:
  assumes "\<not> pub_enabled cfg \<or> snapshot = Inr s \<and> ps_raw_configs s = [] \<or> snapshot = Inl e"
  shows "snd (publish h cfg database snapshot w) = w \<and>
    fst (publish h cfg database snapshot w) \<in> {Inr nothing_published, Inl e}"
  using assms by (auto simp: publish_def)

theorem blank_feed_never_written_witness:
  "snd (publish (sample_host [] False) public_config ''data/fleet.db''
     (Inr (publication_snapshot 0 empty_db)) (sample_world False)) = sample_world False"
proof -
  have "ps_raw_configs (publication_snapshot 0 empty_db) = []"
    by (simp add: publication_snapshot_def empty_db_def)
  then show ?thesis using blank_feed_never_written by blast
qed

lemma write_unchanged:
  "h_io h Read_File p = None \<Longrightarrow> file_at p (w_tree w) = Some bytes \<Longrightarrow>
     write_if_changed h p bytes w = (Inr False, w)"
  by (simp add: write_if_changed_def)

lemma write_feed_unchanged:
  assumes "feed_in h dir configs (w_tree w)" and "\<forall>p. h_io h Read_File p = None"
  shows "write_feed h dir configs w = (Inr False, w)"
  using assms by (simp add: write_feed_def feed_in_def write_unchanged and_then_def)

text \<open>Git at rest: every command succeeds, none changes a file, and nothing is ahead of the remote.\<close>

definition git_at_rest :: "'g host \<Rightarrow> bool" where
  "git_at_rest h \<longleftrightarrow>
     (\<forall>c t. \<exists>out t'. h_exec h c t = (Exited True out [], t') \<and> t_files t' = t_files t \<and> t_dirs t' = t_dirs t \<and>
        (take 2 (c_args c) = [''git'', ''rev-list''] \<longrightarrow> parse_u64 (trim (h_lossy h out)) = Some 0))"

definition log_args :: "'g world \<Rightarrow> string list list" where
  "log_args w = map (\<lambda>e. c_args (en_command e)) (w_log w)"

definition printed :: "'g host \<Rightarrow> path \<Rightarrow> string list \<Rightarrow> 'g world \<Rightarrow> string" where
  "printed h cwd args w = projr (fst (run_git h cwd args w))"

definition after :: "'g host \<Rightarrow> path \<Rightarrow> string list \<Rightarrow> 'g world \<Rightarrow> 'g world" where
  "after h cwd args w = snd (run_git h cwd args w)"

lemma run_git_at_rest:
  assumes "git_at_rest h"
  shows "run_git h cwd args w = (Inr (printed h cwd args w), after h cwd args w)"
    and "t_files (w_tree (after h cwd args w)) = t_files (w_tree w)"
    and "log_args (after h cwd args w) = log_args w @ [''git'' # args]"
    and "take 1 args = [''rev-list''] \<Longrightarrow> parse_u64 (trim (printed h cwd args w)) = Some 0"
proof -
  let ?c = "\<lparr>c_dir = cwd, c_args = ''git'' # args, c_env = command_env h\<rparr>"
  from assms [unfolded git_at_rest_def, rule_format, of ?c "w_tree w"] obtain out t' where
    ran: "h_exec h ?c (w_tree w) = (Exited True out [], t')" "t_files t' = t_files (w_tree w)"
      "take 1 args = [''rev-list''] \<longrightarrow> parse_u64 (trim (h_lossy h out)) = Some 0"
    by auto
  have "run_git h cwd args w = (Inr (h_lossy h out), \<lparr>w_tree = t',
      w_log = w_log w @ [\<lparr>en_command = ?c, en_tree = w_tree w, en_ok = True\<rparr>]\<rparr>)"
    using ran(1) by (simp add: run_git_def run_command_def Let_def)
  with ran(2,3) show "run_git h cwd args w = (Inr (printed h cwd args w), after h cwd args w)"
    "t_files (w_tree (after h cwd args w)) = t_files (w_tree w)"
    "log_args (after h cwd args w) = log_args w @ [''git'' # args]"
    "take 1 args = [''rev-list''] \<Longrightarrow> parse_u64 (trim (printed h cwd args w)) = Some 0"
    by (simp_all add: printed_def after_def log_args_def)
qed


definition settled_world :: "bool world" where
  "settled_world = on_tree (\<lambda>t. t\<lparr>t_files :=
     map (\<lambda>(dir, f, b). (dir @ [f], b))
       [(data_dir ''data/fleet.db'' @ [''publish''], ''active-raw.txt'', raw_feed (ps_raw_configs sample_snapshot)),
        (data_dir ''data/fleet.db'' @ [''publish''], ''active.txt'', encoded_feed (sample_host ''0'' False) (ps_raw_configs sample_snapshot)),
        (checkout_dir @ [''subscriptions''], ''active-raw.txt'', raw_feed (ps_raw_configs sample_snapshot)),
        (checkout_dir @ [''subscriptions''], ''active.txt'', encoded_feed (sample_host ''0'' False) (ps_raw_configs sample_snapshot))]\<rparr>)
     (sample_world False)"

lemma sample_at_rest: "git_at_rest (sample_host ''0'' False)"
proof -
  have "trim ''0'' = ''0''" by code_simp
  moreover have "parse_u64 ''0'' = Some 0"
    by (simp add: parse_u64_def digits_value_def is_digit_def)
  ultimately have "parse_u64 (trim ''0'') = Some 0" by simp
  then show ?thesis by (simp add: git_at_rest_def sample_host_def)
qed


section \<open>A run that cannot commit\<close>

text \<open>\<open>stuck\<close> says that the index holds staged changes: Git refuses to rebase then and none of the
  commands before the rebase resolves it.\<close>

definition refuses_dirty :: "('g \<Rightarrow> bool) \<Rightarrow> 'g host \<Rightarrow> bool" where
  "refuses_dirty stuck h \<longleftrightarrow>
     (\<forall>c t rest. stuck (t_git t) \<longrightarrow>
        (c_args c \<in> {''git'' # v # rest | v rest. v \<in> {''remote'', ''config'', ''fetch'', ''rebase''}} \<longrightarrow>
           stuck (t_git (snd (h_exec h c t))) \<and> set (t_dirs t) \<subseteq> set (t_dirs (snd (h_exec h c t)))) \<and>
        (c_args c = [''git'', ''rebase'', rest] \<and> rest \<noteq> ''--abort'' \<longrightarrow>
           (\<exists>out err. fst (h_exec h c t) = Exited False out err)))"

text \<open>Staged changes, an existing repository, and no push nor commit in what was logged since.\<close>

definition wedged :: "('g \<Rightarrow> bool) \<Rightarrow> path \<Rightarrow> 'g entry list \<Rightarrow> 'g world \<Rightarrow> bool" where
  "wedged stuck repo past w \<longleftrightarrow>
     stuck (t_git (w_tree w)) \<and> is_dir (repo @ [''.git'']) (w_tree w) \<and>
     (\<exists>es. w_log w = past @ es \<and> (\<forall>e \<in> set es. \<not> verb_is ''push'' e \<and> \<not> verb_is ''commit'' e))"

lemma wedged_run:
  assumes "refuses_dirty stuck h" and "wedged stuck repo past w"
    and "v \<in> {''remote'', ''config'', ''fetch'', ''rebase''}"
  shows "wedged stuck repo past (snd (run_git h cwd (v # rest) w))"
proof -
  let ?c = "\<lparr>c_dir = cwd, c_args = ''git'' # v # rest, c_env = command_env h\<rparr>"
  obtain es where es: "w_log w = past @ es" "\<forall>e \<in> set es. \<not> verb_is ''push'' e \<and> \<not> verb_is ''commit'' e"
    and st: "stuck (t_git (w_tree w))" and dir: "is_dir (repo @ [''.git'']) (w_tree w)"
    using assms(2) by (auto simp: wedged_def)
  have "stuck (t_git (snd (h_exec h ?c (w_tree w))))"
    "set (t_dirs (w_tree w)) \<subseteq> set (t_dirs (snd (h_exec h ?c (w_tree w))))"
    using assms(1,3) st unfolding refuses_dirty_def by auto
  moreover have "w_tree (snd (run_git h cwd (v # rest) w)) = snd (h_exec h ?c (w_tree w))"
    by (simp add: run_git_def run_command_def Let_def split: prod.split)
  moreover have "\<not> verb_is ''push'' e \<and> \<not> verb_is ''commit'' e" if "c_args (en_command e) = ''git'' # v # rest"
    for e :: "'a entry" using that assms(3) by (auto simp: verb_is_def)
  ultimately show ?thesis
    using es dir run_command_log(1,3) [of h cwd "''git'' # v # rest" w]
    by (auto simp: wedged_def is_dir_def run_git_def)
qed

lemma wedged_write:
  assumes "wedged stuck repo past w"
  shows "wedged stuck repo past (snd (write_if_changed h p bytes w))"
proof -
  have "set (t_dirs (w_tree w)) \<subseteq> set (t_dirs (w_tree (snd (write_if_changed h p bytes w))))"
    by (auto simp: write_if_changed_def create_dir_all_def file_io_def on_tree_def and_then_def
        split: option.split)
  with assms show ?thesis by (auto simp: wedged_def is_dir_def)
qed

lemma and_then_isl: "(\<And>a w. m = (Inr a, w) \<Longrightarrow> isl (fst (f a w))) \<Longrightarrow> isl (fst (and_then m f))"
  by (auto simp: and_then_def split: prod.split sum.split)

lemma wedged_rebase:
  assumes "refuses_dirty stuck h" and "wedged stuck repo past w"
  shows "isl (fst (rebase_to_remote h repo branch w)) \<and> wedged stuck repo past (snd (rebase_to_remote h repo branch w))"
proof -
  have fails: "\<exists>e. fst (run_git h repo [''rebase'', ''origin/'' @ branch] v) = Inl e" if "wedged stuck repo past v" for v
  proof -
    have "\<exists>out err. fst (h_exec h \<lparr>c_dir = repo, c_args = [''git'', ''rebase'', ''origin/'' @ branch],
        c_env = command_env h\<rparr> (w_tree v)) = Exited False out err"
      using assms(1) that unfolding refuses_dirty_def wedged_def by auto
    then show ?thesis by (auto simp: run_git_def run_command_def Let_def split: prod.split)
  qed
  have keep: "wedged stuck repo past v'" if "run_git h repo (v # rest) u = (r, v')" "wedged stuck repo past u"
      "v \<in> {''remote'', ''config'', ''fetch'', ''rebase''}" for u v rest r v'
    using wedged_run [OF assms(1) that(2,3), of repo rest] that(1) by simp
  obtain r v where f: "run_git h repo [''fetch'', ''origin'', branch] w = (r, v)" by fastforce
  have v: "wedged stuck repo past v" using keep [OF f assms(2)] by simp
  obtain e u where b: "run_git h repo [''rebase'', ''origin/'' @ branch] v = (Inl e, u)"
    using fails [OF v] by (metis prod.collapse)
  have u: "wedged stuck repo past u" using keep [OF b v] by simp
  have abort: "wedged stuck repo past (snd (run_git h repo [''rebase'', ''--abort''] u))"
    using wedged_run [OF assms(1) u] by simp
  show ?thesis
    using v abort unfolding rebase_to_remote_def and_then_def f
    by (cases r) (simp_all del: append_Cons add: b)
qed

lemma wedged_feed: "wedged stuck repo past w \<Longrightarrow> wedged stuck repo past (snd (write_feed h dir configs w))"
  unfolding write_feed_def
proof (intro and_then_snd [where P = "wedged stuck repo past"] wedged_write)
  fix a w1 b w2
  assume w: "wedged stuck repo past w"
    and 1: "write_if_changed h (dir @ [''active-raw.txt'']) (raw_feed configs) w = (Inr a, w1)"
  show w1: "wedged stuck repo past w1"
    using wedged_write [OF w, of h "dir @ [''active-raw.txt'']" "raw_feed configs"] 1 by simp
  assume 2: "write_if_changed h (dir @ [''active.txt'']) (encoded_feed h configs) w1 = (Inr b, w2)"
  show "wedged stuck repo past (snd (Inr (a \<or> b), w2))"
    using wedged_write [OF w1, of h "dir @ [''active.txt'']" "encoded_feed h configs"] 2 by simp
qed

lemma wedged_ensure:
  assumes "refuses_dirty stuck h" and "wedged stuck repo past w"
  shows "wedged stuck repo past (snd (ensure_repo h repo cfg w))"
proof -
  have keep: "wedged stuck repo past v'" if "run_git h repo (v # rest) u = (r, v')" "wedged stuck repo past u"
      "v \<in> {''remote'', ''config'', ''fetch'', ''rebase''}" for u v rest r v'
    using wedged_run [OF assms(1) that(2,3), of repo rest] that(1) by simp
  have "clone_if_absent h repo cfg w = (Inr (), w)"
    using assms(2) by (simp add: clone_if_absent_def wedged_def)
  then show ?thesis
    using assms(2) keep by (auto simp: ensure_repo_def and_then_def split: prod.split sum.split)
qed

lemma wedged_publish:
  assumes "refuses_dirty stuck h" and "wedged stuck (data_dir database @ [''publisher-repo'']) past w"
    and "pub_enabled cfg" and "ps_raw_configs s \<noteq> []"
  shows "isl (fst (publish h cfg database (Inr s) w)) \<and>
    wedged stuck (data_dir database @ [''publisher-repo'']) past (snd (publish h cfg database (Inr s) w))"
proof -
  let ?repo = "data_dir database @ [''publisher-repo'']"
  obtain r1 w1 where 1: "write_feed h (data_dir database @ [''publish'']) (ps_raw_configs s) w = (r1, w1)" by fastforce
  then have v1: "wedged stuck ?repo past w1"
    using wedged_feed [OF assms(2), of h "data_dir database @ [''publish'']" "ps_raw_configs s"] by simp
  obtain r2 w2 where 2: "ensure_repo h ?repo cfg w1 = (r2, w2)" by fastforce
  then have v2: "wedged stuck ?repo past w2"
    using wedged_ensure [OF assms(1) v1, of cfg] by simp
  obtain e w3 where 3: "rebase_to_remote h ?repo (pub_git_branch cfg) w2 = (Inl e, w3)" "wedged stuck ?repo past w3"
    using wedged_rebase [OF assms(1) v2, of "pub_git_branch cfg"]
    by (metis eq_fst_iff isl_def snd_conv)
  show ?thesis
    using assms(3,4) v1 v2 3(2) by (cases r1; cases r2) (simp_all add: publish_def Let_def and_then_def 1 2 3(1))
qed



end
