(* ===== verification/Fleet.thy ===== *)
theory Fleet
  imports Evolution Api Publisher
begin

text \<open>
  The program as a whole: every service of it (the scheduler tick, the network guard, the
  heartbeat, VIP maintenance, the upstream refresh, the spawned metadata lookup, the
  publisher, the requests of the interface, start-up and shut-down) changes the store by
  transactions of the store only. So what \<open>Evolution\<close> shows of all sequences of
  transactions holds whenever the services run, one after the other or interleaved.
\<close>

section \<open>Sequences of transactions\<close>

lemma one: "transaction d d' \<Longrightarrow> transactions d d'"
  by (rule r_into_rtranclp)

lemma others:
  "db_nodes d' = db_nodes d \<Longrightarrow> db_events d' = db_events d \<Longrightarrow> service_keys d \<subseteq> service_keys d' \<Longrightarrow>
     transactions d d'"
  by (rule one) (rule transaction.Other)

lemmas single_transactions [simp] =
  transaction.Copy [THEN one] transaction.Reconcile [THEN one] transaction.Release [THEN one]
  transaction.Wait [THEN one] transaction.Set_Port [THEN one] transaction.Clear_Port [THEN one]
  transaction.Clear_Stale [THEN one] transaction.Claim_Metadata [THEN one]
  transaction.Record_Metadata [THEN one] transaction.Release_Metadata [THEN one]
  transaction.Revive_Dormant [THEN one] transaction.Revive_Node [THEN one]
  transaction.Manual_Test [THEN one] transaction.Cleanup [THEN one]

lemma logged_transactions: "transactions d (f d) \<Longrightarrow> transactions d (logged b f d)"
  by (simp add: logged_def)

text \<open>Statements on the other tables.\<close>

lemma frames [simp]:
  "db_nodes (set_service_state now k v d) = db_nodes d" "db_events (set_service_state now k v d) = db_events d"
  "db_nodes (set_scheduler_state now k v d) = db_nodes d" "db_events (set_scheduler_state now k v d) = db_events d"
  "db_nodes (record_system_event now u l c e m j d) = db_nodes d"
  "db_events (record_system_event now u l c e m j d) = db_events d"
  "db_nodes (snd (prune_system_events rows d)) = db_nodes d" "db_events (snd (prune_system_events rows d)) = db_events d"
  by (simp_all add: set_service_state_def set_scheduler_state_def record_system_event_def prune_system_events_def Let_def)

lemma kv_set_keys: "kv_key ` set (kv_set now k v rs) = insert k (kv_key ` set rs)"
proof -
  let ?upd = "\<lambda>r. r\<lparr>kv_value := Json v, kv_updated_at := now\<rparr>"
  have "map kv_key (update_where (\<lambda>r. kv_key r = k) ?upd rs) = map kv_key rs" by (simp add: map_update_where)
  then have "kv_key ` set (update_where (\<lambda>r. kv_key r = k) ?upd rs) = kv_key ` set rs" by (metis list.set_map)
  then show ?thesis by (auto simp: kv_set_def upsert_def list_ex_iff)
qed

lemma service_key_frames [simp]:
  "service_keys (set_service_state now k v d) = insert k (service_keys d)"
  "service_keys (set_scheduler_state now k v d) = service_keys d"
  "service_keys (record_system_event now u l c e m j d) = service_keys d"
  "service_keys (snd (prune_system_events rows d)) = service_keys d"
  "service_keys (record_source_success now name url etag modified d) = service_keys d"
  "service_keys (record_source_failure name url d) = service_keys d"
  "service_keys (record_invalid_config_rejections now uid name rejected d) = service_keys d"
  "service_keys (snd (begin_refresh now uid sources d)) = service_keys d"
  "service_keys (close_run now rid st ok parsed d) = service_keys d"
  "service_keys (record_assignment now u u2 client nid p d) = service_keys d"
  by (simp_all add: service_keys_def set_service_state_def set_scheduler_state_def record_system_event_def
      prune_system_events_def record_source_success_def record_source_failure_def begin_refresh_def Let_def
      record_invalid_config_rejections_def close_run_def record_assignment_def kv_set_keys)

lemma source_events [simp]:
  "db_events (record_source_success now name url etag modified d) = db_events d"
  "db_events (record_source_failure name url d) = db_events d"
  "db_events (record_invalid_config_rejections now uid name rejected d) = db_events d"
  "db_events (snd (begin_refresh now uid k d)) = db_events d"
  "db_events (close_run now rid st ok k d) = db_events d"
  by (simp_all add: record_source_success_def record_source_failure_def begin_refresh_def Let_def
      record_invalid_config_rejections_def close_run_def)

text \<open>Identifiers that are drawn are new.\<close>

definition fresh_ids :: "(nat \<Rightarrow> string) \<Rightarrow> db \<Rightarrow> bool" where
  "fresh_ids fresh d \<longleftrightarrow> inj fresh \<and> range fresh \<inter> ids d = {}"

lemma fresh_ids_for: "fresh_ids fresh d \<Longrightarrow> fresh_for fresh k d"
  by (auto simp: fresh_ids_def fresh_for_def inj_on_def disjoint_iff)

section \<open>The scheduler\<close>

lemma apply_events_transactions: "transactions (snd s) (snd (apply_events h w incident nid j es s))"
proof (induction es arbitrary: j s)
  case (Cons e es)
  let ?x = "report_event w incident nid j e"
  let ?d = "case apply_test_event (ro_clock w j) (ro_draw w j) (test_intervals h) ?x (snd s) of
      Inl _ \<Rightarrow> snd s | Inr (_, d) \<Rightarrow> logged (ro_apply_ok w j) (\<lambda>_. d) (snd s)"
  have "transactions (snd s) ?d"
    by (auto simp: logged_def split: sum.split intro: transaction.Apply)
  from rtranclp_trans [OF this] Cons.IH show ?case
    by (simp only: apply_events.simps Let_def) (metis snd_conv)
qed simp

lemma quota_transactions:
  "set qs \<subseteq> set queue_order \<Longrightarrow> transactions (snd (fst s)) (snd (fst (quota_pass e cap q qs s)))"
proof (induction e cap q qs s rule: quota_pass.induct)
  case (2 e cap q queue queues s debt)
  let ?s = "append_claims cap (claim_params e queue (quota_of q (fst queue))) s"
  have "transactions (snd s) (snd ?s)"
    using 2(2) transaction.Claim [of queue "snd s" cap e _ "fst s"] by (simp add: one)
  moreover have "transactions (snd ?s) (snd (fst (quota_pass e cap q (queue # queues) (s, debt))))"
    using 2 by (simp add: Let_def)
  ultimately have "transactions (snd s) (snd (fst (quota_pass e cap q (queue # queues) (s, debt))))"
    by (rule rtranclp_trans)
  then show ?case by simp
qed simp

lemma overflow_transactions:
  "set qs \<subseteq> set queue_order \<Longrightarrow> transactions (snd (fst s)) (snd (fst (overflow_pass e cap qs s)))"
proof (induction e cap qs s rule: overflow_pass.induct)
  case (2 e cap queue queues s debt)
  let ?s = "append_claims cap (claim_params e queue (cap - length (fst s))) s"
  have "transactions (snd s) (snd ?s)"
    using 2(2) transaction.Claim [of queue "snd s" cap e _ "fst s"] by (simp add: one)
  moreover have "transactions (snd ?s) (snd (fst (overflow_pass e cap (queue # queues) (s, debt))))"
    if "length (fst s) \<noteq> cap"
    using 2 that by (simp add: Let_def)
  ultimately have "transactions (snd s) (snd (fst (overflow_pass e cap (queue # queues) (s, debt))))"
    if "length (fst s) \<noteq> cap"
    using that rtranclp_trans by meson
  then show ?case by (cases "length (fst s) = cap") simp_all
qed simp

lemma claim_due_transactions: "transactions d (snd (claim_due e capacity d))"
proof -
  define cap where "cap = max capacity 1"
  let ?s = "(([], d), accrue cap (debt_from_value (scheduler_state ''quota_debt'' d)))"
  let ?r = "quota_pass e cap (for_capacity cap) queue_order ?s"
  let ?o = "overflow_pass e cap queue_order ?r"
  have "transactions d (snd (fst ?r))" using quota_transactions [of queue_order ?s] by simp
  moreover have "transactions (snd (fst ?r)) (snd (fst ?o))" by (rule overflow_transactions) simp
  moreover have "transactions (snd (fst ?o)) (snd (claim_due e capacity d))"
    by (auto simp: claim_due_def Let_def cap_def intro: others split: prod.split)
  ultimately show ?thesis by (meson rtranclp_trans)
qed

lemma ensure_transactions:
  "ensure_runtime L cfg w nid raw s = (r, s', es) \<Longrightarrow> transactions (rs_db s) (rs_db s')"
  by (auto simp: ensure_runtime_def split: option.splits sum.splits prod.splits)

lemma reward_transactions:
  assumes "reward L cfg w nid raw s = (s', ls)"
  shows "transactions (rs_db s) (rs_db s')"
proof (cases raw)
  case (Some raw_text)
  obtain r s1 es where e: "ensure_runtime L cfg (ro_ensure w) nid raw_text s = (r, s1, es)"
    using prod_cases3 by blast
  have "transactions (rs_db s1) (rs_db s')"
    using assms Some e by (auto simp: reward_def case_prod_beta split: sum.splits if_splits)
  with ensure_transactions [OF e] show ?thesis by (rule rtranclp_trans)
qed (use assms in \<open>simp add: reward_def\<close>)

lemma settle_transactions: "transactions d (settle w nid report d)"
  by (simp add: settle_def logged_def)

lemma handle_report_transactions:
  assumes "handle_report L cfg incident raws w job st = (ok, ls, st')"
  shows "transactions (db_of st) (db_of st')"
proof -
  obtain nid report where job: "job = (nid, report)" by fastforce
  obtain samples d where a: "apply_events (cfg_health cfg) w incident nid 0 (pr_events report)
      (as_samples st, db_of st) = (samples, d)" by fastforce
  let ?s1 = "(as_rt st)\<lparr>rs_db := d\<rparr>"
  obtain s2 lookups where r: "(if real_download report then reward L cfg w nid (raws nid) ?s1 else (?s1, []))
      = (s2, lookups)" by fastforce
  have "transactions (db_of st) d"
    using apply_events_transactions [of "(as_samples st, db_of st)"] a by (metis snd_conv)
  also have "transactions d (rs_db s2)"
    using r reward_transactions [of L cfg w nid "raws nid" ?s1] by (auto split: if_splits)
  also have "transactions (rs_db s2) (db_of st')"
    using assms a r settle_transactions [of "rs_db s2" w nid report]
    by (auto simp: handle_report_def job Let_def db_of_def on_db_def)
  finally show ?thesis .
qed

lemma handle_reports_transactions:
  "handle_reports L cfg incident raws w i rs st = (oks, ls, st') \<Longrightarrow> transactions (db_of st) (db_of st')"
proof (induction rs arbitrary: i st oks ls st')
  case (Cons r rs)
  obtain ok l st1 where 1: "handle_report L cfg incident raws (w i) r st = (ok, l, st1)"
    using prod_cases3 by blast
  obtain oks' l' st2 where 2: "handle_reports L cfg incident raws w (Suc i) rs st1 = (oks', l', st2)"
    using prod_cases3 by blast
  from Cons.prems 1 2 have "st' = st2" by simp
  with rtranclp_trans [OF handle_report_transactions [OF 1] Cons.IH [OF 2]] show ?case by simp
qed simp

lemma record_incident_transactions: "transactions d (record_incident stamp w e d)"
  unfolding record_incident_def
  by (rule others) (simp_all add: logged_def subset_insertI)

lemma raise_incident_transactions: "transactions (db_of st) (db_of (raise_incident stamp cfg w reason k st))"
  by (simp add: raise_incident_def Let_def record_incident_transactions split: option.split)

lemma run_jobs_transactions:
  assumes "run_jobs stamp L cfg w jobs st = (st', ls)"
  shows "transactions (db_of st) (db_of st')"
proof -
  let ?jobs = "map (\<lambda>j. (tj_id j, tj_raw_config j, tj_download_due j)) jobs"
  let ?raws = "map_of (rev (map (\<lambda>j. (tj_id j, tj_raw_config j)) jobs))"
  obtain reports S where t: "test_batch L cfg ''scheduler'' (tk_jobs w) (tk_order w) (tk_batch w) ?jobs
      (rs_ports (as_rt st)) = (reports, S)"
    by fastforce
  let ?reason = "correlated_incident reports (ng_mass_failure_threshold_percent (cfg_network_guard cfg))"
  let ?st1 = "on_status (\<lambda>r. r\<lparr>rst_last_scheduler_jobs := length jobs\<rparr>)
      (st\<lparr>as_rt := (as_rt st)\<lparr>rs_ports := S\<rparr>\<rparr>)"
  let ?st = "raise_incident stamp cfg (tk_incident w) ?reason (length reports) ?st1"
  obtain results lookups st2 where h: "handle_reports L cfg (map_option (\<lambda>_. batch_incident_id w) ?reason)
      ?raws (tk_reports w) 0 reports ?st = (results, lookups, st2)"
    using prod_cases3 by blast
  have "transactions (db_of ?st1) (db_of ?st)" by (rule raise_incident_transactions)
  moreover have "db_of ?st1 = db_of st" by (simp add: db_of_def)
  moreover have "transactions (db_of ?st) (db_of st2)" using h by (rule handle_reports_transactions)
  moreover have "transactions (db_of st2) (db_of st')"
    using assms by (auto simp: run_jobs_def Let_def t h logged_def intro: others)
  ultimately show ?thesis by (metis rtranclp_trans)
qed

lemma scheduler_transactions:
  assumes "scheduler_tick stamp L cfg w st = (st', ls)"
  shows "transactions (db_of st) (db_of st')"
proof -
  let ?st = "on_status (\<lambda>r. r\<lparr>rst_system_pressure := tk_pressure w\<rparr>) st"
  obtain jobs d where c: "claim_due (tick_claim (cfg_health cfg) w) (rst_xray_concurrency (as_status ?st))
      (db_of ?st) = (jobs, d)" by fastforce
  have claimed: "transactions (db_of st) d"
    using claim_due_transactions [of "db_of ?st"] c by (metis snd_conv on_status_simps(4))
  consider "db_of st' = db_of st" | "db_of st' = d"
    | "run_jobs stamp L cfg w jobs (on_db (\<lambda>_. d) ?st) = (st', ls)"
    using assms c by (auto simp: scheduler_tick_def Let_def split: if_splits option.splits)
  then show ?thesis
  proof cases
    case 3
    from run_jobs_transactions [OF this] rtranclp_trans [OF claimed] show ?thesis by simp
  qed (use claimed in simp_all)
qed

section \<open>The other loops\<close>

lemma guard_transactions:
  "guard_tick stamp c obs w g st = (g', st') \<Longrightarrow> transactions (db_of st) (db_of st')"
  by (auto simp: guard_tick_def db_of_def on_db_def record_incident_transactions split: prod.splits option.splits)

lemma heartbeat_transactions: "transactions (db_of st) (db_of (heartbeat cfg w st))"
  by (rule others) (simp_all add: heartbeat_def Let_def logged_def db_of_def on_db_def)

lemma vip_db: "db_of (vip_tick L cfg w st) = db_of st"
proof -
  obtain r s es where m: "maintain_vip L cfg w (as_rt st) = (r, s, es)" using prod_cases3 by blast
  then have "rs_db s = rs_db (as_rt st)"
    by (cases rule: maintain_vip_cases) (auto dest: switch_vip_frame)
  then show ?thesis by (simp add: vip_tick_def db_of_def m)
qed

lemma reconcile_from_transactions:
  "transactions (rs_db s) (rs_db (snd (reconcile_from L cfg candidates w i started failed cs s)))"
proof (induction cs arbitrary: i started failed s)
  case (Cons c cs)
  obtain r s1 es where e: "ensure_runtime L cfg (w i) (rc_id c) (rc_raw_config c) s = (r, s1, es)"
    using prod_cases3 by blast
  note ensure = ensure_transactions [OF e]
  show ?case
  proof (cases r)
    case (Inl m)
    show ?thesis
      using ensure rtranclp_trans [OF ensure Cons.IH] by (simp add: e Inl)
  next
    case (Inr port)
    show ?thesis using rtranclp_trans [OF ensure Cons.IH] by (simp add: e Inr)
  qed
qed simp

lemma shutdown_transactions:
  "transactions (rs_db s) (rs_db (fst (snd (shutdown now w clear_ok v s))))"
proof -
  have "transactions d (fold (\<lambda>(nid, _) d. if clear_ok nid then clear_main_port now nid d else d) xs d)"
    for xs :: "(string \<times> 'x) list" and d
  proof (induction xs arbitrary: d)
    case (Cons x xs)
    have "transactions d (if clear_ok (fst x) then clear_main_port now (fst x) d else d)" by simp
    from rtranclp_trans [OF this Cons.IH] show ?case by (simp add: case_prod_beta)
  qed simp
  then show ?thesis by (simp add: shutdown_def Let_def)
qed

lemma metadata_transactions: "transactions d (metadata_task show_real now nid answer d)"
  by (simp add: metadata_task_def refresh_via_runtime_def split: sum.split)

lemma publisher_transactions: "transactions d (fst (publisher_tick stamp h cfg database failing now ok (d, v)))"
  by (rule others) (simp_all add: publisher_tick_def logged_def case_prod_beta subset_insertI)

section \<open>The upstream refresh\<close>

lemma copy_keys: "node_keys (snd (copy_cached_source_generation now source gen d)) = node_keys d"
  by (simp add: copy_cached_source_generation_def Let_def seen.keys split: option.split)

lemma keys_frame: "db_nodes d' = db_nodes d \<Longrightarrow> node_keys d' = node_keys d"
  by (simp add: node_keys_def)

lemma absorb_transactions:
  assumes "absorb L gen now uid x (t, d) = (t', d')"
  shows "transactions d d' \<and> node_keys d' = node_keys d"
proof -
  obtain source outcome where x: "x = (source, outcome)" by fastforce
  show ?thesis
  proof (cases "outcome = Inr NotModified")
    case True
    obtain copied d1 where c: "copy_cached_source_generation now (ss_name source) gen d = (copied, d1)"
      by fastforce
    have "transactions d d1" using one [OF transaction.Copy [of d now "ss_name source" gen]] c by simp
    moreover have d': "d' = record_source_success now (ss_name source) (ss_url source) None None d1"
      using assms x c True by (auto simp: absorb_def)
    then have "transactions d1 d'" by (intro others) simp_all
    moreover have "node_keys d' = node_keys d"
      using copy_keys [of now "ss_name source" gen d] c by (simp add: d' node_keys_def)
    ultimately show ?thesis using rtranclp_trans [of transaction d d1 d'] by simp
  qed (use assms x in \<open>auto simp: absorb_def Let_def intro!: others keys_frame split: sum.splits FetchResult.splits\<close>)
qed

lemma absorb_all_transactions:
  "absorb_all L gen w i xs (t, d) = (e, t', d') \<Longrightarrow> transactions d d' \<and> node_keys d' = node_keys d"
proof (induction xs arbitrary: i t d)
  case (Cons x xs)
  show ?case
  proof (cases "rf_write_error w i")
    case None
    obtain t1 d1 where a: "absorb L gen (rf_at w i) (rf_uid w i) x (t, d) = (t1, d1)" by fastforce
    with Cons.prems None have "absorb_all L gen w (Suc i) xs (t1, d1) = (e, t', d')" by simp
    from Cons.IH [OF this] absorb_transactions [OF a] show ?thesis by (auto intro: rtranclp_trans)
  qed (use Cons.prems in auto)
qed simp

lemma fresh_ids_keys: "node_keys d' = node_keys d \<Longrightarrow> fresh_ids fresh d' = fresh_ids fresh d"
  by (simp add: fresh_ids_def hashes_keys)

lemma finish_transactions: "transactions d (snd (finish_refresh now rid gen k ok parsed minimum d))"
proof -
  let ?d = "\<lambda>status. close_run now rid status ok parsed d"
  have closed: "transactions d (?d status)" for status by (rule others) simp_all
  have "transactions d (reconcile now gen minimum (?d status))" for status
    by (rule rtranclp_trans [OF closed [of status]]) simp
  with closed show ?thesis by (auto simp: finish_refresh_def Let_def)
qed

lemma refresh_transactions:
  assumes "fresh_ids (rf_fresh w) d"
  shows "transactions d (snd (refresh L cfg w d))"
proof -
  let ?sources = "sub_urls (cfg_subscriptions cfg)"
  obtain gen d1 where b: "begin_refresh (rf_begin_at w) (rf_run_id w) (length ?sources) d = (gen, d1)" by fastforce
  have n1: "db_nodes d1 = db_nodes d" "db_events d1 = db_events d" "service_keys d \<subseteq> service_keys d1"
    using db_nodes_frames(4) [of "rf_begin_at w" "rf_run_id w" "length ?sources" d]
      source_events(4) [of "rf_begin_at w" "rf_run_id w" "length ?sources" d]
      service_key_frames(8) [of "rf_begin_at w" "rf_run_id w" "length ?sources" d] b by simp_all
  have begun: "transactions d d1" using n1 by (rule others)
  obtain e t d2 where a: "absorb_all L gen w 0 (fetch_all w ?sources d1) (empty_tally, d1) = (e, t, d2)"
    using prod_cases3 by blast
  note absorbed = absorb_all_transactions [OF a]
  have d2: "transactions d d2" by (rule rtranclp_trans [OF begun conjunct1 [OF absorbed]])
  have "node_keys d2 = node_keys d" using absorbed n1 by (simp add: node_keys_def)
  from fresh_ids_keys [OF this] have "fresh_ids (rf_fresh w) d2" using assms by simp
  then have "fresh_for (rf_fresh w) (length (rl_parsed t)) d2" by (rule fresh_ids_for)
  from one [OF transaction.Ingest [OF this]]
  have d3: "transactions d (snd (ingest_many (rf_ingest_at w) gen (rf_fresh w) (rl_parsed t) d2))"
    by (rule rtranclp_trans [OF d2])
  from rtranclp_trans [OF d3 finish_transactions]
  have d4: "transactions d (snd (finish_refresh now rid gen k ok parsed minimum
      (snd (ingest_many (rf_ingest_at w) gen (rf_fresh w) (rl_parsed t) d2))))" for now rid k ok parsed minimum .
  show ?thesis
    using begun d2 d3 d4 by (simp add: refresh_def Let_def b a case_prod_beta split: option.split)
qed

lemma import_each_transactions:
  assumes "\<forall>j \<ge> i. fresh j \<notin> ids (snd s)" and "inj fresh"
  shows "transactions (snd s) (snd (import_each now fresh i ps s))"
  using assms(1)
proof (induction ps arbitrary: i s)
  case (Cons p ps)
  let ?r = "ingest_many now 0 (\<lambda>_. fresh i) [p] (snd s)"
  have "fresh_for (\<lambda>_. fresh i) (length [p]) (snd s)"
    using Cons.prems by (simp add: fresh_for_def inj_on_def lessThan_Suc)
  from one [OF transaction.Ingest [OF this]] have "transactions (snd s) (snd ?r)" .
  moreover have "ids (snd ?r) \<subseteq> insert (fresh i) (ids (snd s))"
    using ids_ingest_step(1) [of now 0 "fresh i" p "snd s"] by (simp add: ingest_many_def case_prod_beta)
  then have "\<forall>j \<ge> Suc i. fresh j \<notin> ids (snd ?r)"
    using Cons.prems injD [OF assms(2)] by (metis Suc_leD Suc_n_not_le_n insertE subsetD)
  then have "transactions (snd ?r) (snd (import_each now fresh (Suc i) ps (c, snd ?r)))" for c
    using Cons.IH [of "Suc i" "(c, snd ?r)"] by simp
  ultimately have "transactions (snd s) (snd (import_each now fresh (Suc i) ps (c, snd ?r)))" for c
    by (rule rtranclp_trans)
  then show ?case by (simp only: import_each.simps ingest_proxy_def case_prod_beta fst_conv snd_conv)
qed simp

lemma import_transactions:
  assumes "fresh_ids fresh d"
  shows "transactions d (snd (manual_import L now uid fresh configs d))"
proof -
  let ?report = "parse_subscription L configs ''manual''"
  let ?d = "record_invalid_config_rejections now uid ''manual'' (rep_rejected ?report) d"
  have "transactions d ?d" by (rule others) simp_all
  moreover have "fresh_ids fresh ?d" using assms by (simp add: fresh_ids_def ids_def)
  then have "\<forall>j \<ge> 0. fresh j \<notin> ids (snd (0 :: nat, ?d))" "inj fresh" by (auto simp: fresh_ids_def)
  from import_each_transactions [OF this]
  have "transactions ?d (snd (import_each now fresh 0 (rep_accepted ?report) (0, ?d)))" by simp
  ultimately have "transactions d (snd (import_each now fresh 0 (rep_accepted ?report) (0, ?d)))"
    by (rule rtranclp_trans)
  then show ?thesis by (simp add: manual_import_def Let_def case_prod_beta)
qed

section \<open>The requests\<close>

lemma best_transactions: "best now pick u u' cfg client d = Inr (b, d') \<Longrightarrow> transactions d d'"
  by (rule others)
    (auto simp: best_def Let_def record_assignment_def service_keys_def split: if_splits option.splits)

lemma feedback_transactions: "feedback now draw u cfg client nid status d = Inr d' \<Longrightarrow> transactions d d'"
  by (rule others) (auto simp: feedback_def apply_client_feedback_def bind_e_Inr service_keys_def)

lemma api_db_flag [simp]: "api_db (s\<lparr>ax_refreshing := b\<rparr>) = api_db s"
  by (simp add: api_db_def)

lemma handle_transactions:
  assumes "fresh_ids (\<lambda>k. av_uid w (Suc k)) (api_db s)"
  shows "transactions (api_db s) (api_db (snd (handle L w cfg r s)))"
  using import_transactions [OF assms] best_transactions feedback_transactions
  by (cases r)
    (simp_all add: handle_def post_node_test_def post_node_revive_def post_best_def post_feedback_def
      post_manual_import_def counted_def post_reload_def Let_def case_prod_beta
      split: option.split sum.split)

section \<open>The running program\<close>

record 'g fleet =
  fl_guard :: guard_state
  fl_api :: api_state
  fl_world :: "'g world"

definition on_app :: "(app_state \<Rightarrow> app_state) \<Rightarrow> 'g fleet \<Rightarrow> 'g fleet" where
  "on_app f s = s\<lparr>fl_api := (fl_api s)\<lparr>ax_app := f (ax_app (fl_api s))\<rparr>\<rparr>"

definition on_rt :: "(runtime_state \<Rightarrow> runtime_state) \<Rightarrow> app_state \<Rightarrow> app_state" where
  "on_rt f st = st\<lparr>as_rt := f (as_rt st)\<rparr>"

definition fleet_db :: "'g fleet \<Rightarrow> db" where
  "fleet_db s = api_db (fl_api s)"

text \<open>
  One step of one service; \<open>Refresh\<close> is the periodic one, \<open>Reload\<close> the end of one that a
  request started.
\<close>

inductive fleet_step ::
  "(instant \<Rightarrow> string) \<Rightarrow> libs \<Rightarrow> AppConfig \<Rightarrow> 'g host \<Rightarrow> string \<Rightarrow> 'g fleet \<Rightarrow> 'g fleet \<Rightarrow> bool"
  for stamp L cfg h database where
  Schedule: "scheduler_tick stamp L cfg w (ax_app (fl_api s)) = (st, ls) \<Longrightarrow>
    fleet_step stamp L cfg h database s (on_app (\<lambda>_. st) s)"
| Guard: "ng_enabled (cfg_network_guard cfg) \<Longrightarrow>
    guard_tick stamp (cfg_network_guard cfg) obs w (fl_guard s) (ax_app (fl_api s)) = (g, st) \<Longrightarrow>
    fleet_step stamp L cfg h database s (on_app (\<lambda>_. st) (s\<lparr>fl_guard := g\<rparr>))"
| Heartbeat: "fleet_step stamp L cfg h database s (on_app (heartbeat cfg b) s)"
| Vip: "fleet_step stamp L cfg h database s (on_app (vip_tick L cfg e) s)"
| Refresh: "fresh_ids (rf_fresh v) (fleet_db s) \<Longrightarrow>
    refresh_tick stamp L cfg v now ok (ax_refreshing (fl_api s), fleet_db s) = (flag, d) \<Longrightarrow>
    fleet_step stamp L cfg h database s (s\<lparr>fl_api := (with_db d (fl_api s))\<lparr>ax_refreshing := flag\<rparr>\<rparr>)"
| Reload: "fresh_ids (rf_fresh v) (fleet_db s) \<Longrightarrow>
    fleet_step stamp L cfg h database s
      (s\<lparr>fl_api := (with_db (snd (refresh L cfg v (fleet_db s))) (fl_api s))\<lparr>ax_refreshing := False\<rparr>\<rparr>)"
| Lookup: "fleet_step stamp L cfg h database s (on_app (on_db (metadata_task show_real now nid answer)) s)"
| Publish: "publisher_tick stamp h cfg database failing now ok (fleet_db s, fl_world s) = (d, v) \<Longrightarrow>
    fleet_step stamp L cfg h database s (on_app (on_db (\<lambda>_. d)) (s\<lparr>fl_world := v\<rparr>))"
| Request: "fresh_ids (\<lambda>k. av_uid a (Suc k)) (fleet_db s) \<Longrightarrow>
    handle L a cfg r (fl_api s) = (answer, x) \<Longrightarrow> fleet_step stamp L cfg h database s (s\<lparr>fl_api := x\<rparr>)"
| Restore: "fleet_step stamp L cfg h database s
    (on_app (on_rt (\<lambda>q. snd (reconcile_active_runtimes L cfg now load_ok en q))) s)"
| Clear: "fleet_step stamp L cfg h database s (on_app (on_db (\<lambda>d. snd (clear_stale_runtime_ports now d))) s)"
| Shut_Down: "fleet_step stamp L cfg h database s
    (on_app (on_rt (\<lambda>q. fst (snd (shutdown now stops clear_ok vip_stop q)))) s)"

abbreviation fleet_run ::
  "(instant \<Rightarrow> string) \<Rightarrow> libs \<Rightarrow> AppConfig \<Rightarrow> 'g host \<Rightarrow> string \<Rightarrow> 'g fleet \<Rightarrow> 'g fleet \<Rightarrow> bool" where
  "fleet_run stamp L cfg h database \<equiv> (fleet_step stamp L cfg h database)\<^sup>*\<^sup>*"

lemma fleet_db_simps [simp]:
  "fleet_db (on_app f s) = db_of (f (ax_app (fl_api s)))" "fleet_db (s\<lparr>fl_guard := g\<rparr>) = fleet_db s"
  "fleet_db (s\<lparr>fl_world := v\<rparr>) = fleet_db s" "fleet_db (s\<lparr>fl_api := x\<rparr>) = api_db x"
  "db_of (on_rt q st) = rs_db (q (as_rt st))"
  by (simp_all add: fleet_db_def on_app_def api_db_def on_rt_def db_of_def)

lemma app_db: "db_of (ax_app (fl_api s)) = fleet_db s"
  by (simp add: fleet_db_def api_db_def)

lemma app_rt_db: "rs_db (as_rt (ax_app (fl_api s))) = fleet_db s"
  by (simp add: fleet_db_def api_db_def db_of_def)

lemma restore_transactions:
  "transactions (rs_db q) (rs_db (snd (reconcile_active_runtimes L cfg now load_ok en q)))"
  by (simp add: reconcile_active_runtimes_def Let_def reconcile_from_transactions)

lemma refresh_tick_transactions:
  assumes "fresh_ids (rf_fresh v) d" and "refresh_tick stamp L cfg v now ok (flag, d) = (flag', d')"
  shows "transactions d d'"
proof (cases flag)
  case False
  have logged: "transactions (snd (refresh L cfg v d)) (logged b (set_service_state now k j) (snd (refresh L cfg v d)))" for b k j
    by (rule others) (simp_all add: logged_def subset_insertI)
  from rtranclp_trans [OF refresh_transactions [OF assms(1)] this] show ?thesis
    using assms(2) False by (auto simp: refresh_tick_def case_prod_beta)
qed (use assms in \<open>simp add: refresh_tick_def\<close>)

lemma fleet_step_transactions: "fleet_step stamp L cfg h database s s' \<Longrightarrow> transactions (fleet_db s) (fleet_db s')"
proof (induction rule: fleet_step.induct)
  case (Schedule w s st ls)
  then show ?case using scheduler_transactions by (fastforce simp: app_db)
next
  case (Guard obs w s g st)
  then show ?case using guard_transactions by (fastforce simp: app_db)
next
  case (Refresh v s now ok flag d)
  then show ?case using refresh_tick_transactions by fastforce
next
  case (Publish failing now ok s d v)
  then show ?case using publisher_transactions [of "fleet_db s" stamp h cfg database failing now ok "fl_world s"] by simp
next
  case (Request a s r answer x)
  then show ?case using handle_transactions [of a "fl_api s" L cfg r] by (simp add: fleet_db_def)
next
  case (Restore s now load_ok en)
  show ?case
    using restore_transactions [of "as_rt (ax_app (fl_api s))" L cfg now load_ok en] by (simp add: app_rt_db)
next
  case (Shut_Down s now stops clear_ok vip_stop)
  show ?case
    using shutdown_transactions [of "as_rt (ax_app (fl_api s))" now stops clear_ok vip_stop]
    by (simp add: app_rt_db)
next
  case (Heartbeat s b)
  show ?case using heartbeat_transactions [of "ax_app (fl_api s)" cfg b] by (simp add: app_db)
qed (simp_all add: app_db vip_db refresh_transactions metadata_transactions)

text \<open>The services refine the transactions of the store.\<close>

lemma run_transactions:
  assumes "fleet_run stamp L cfg h database s s'"
  shows "transactions (fleet_db s) (fleet_db s')"
  using assms
proof (induction rule: rtranclp_induct)
  case (step y z)
  from rtranclp_trans [OF step.IH fleet_step_transactions [OF step.hyps(2)]] show ?case .
qed simp

section \<open>Properties\<close>

text \<open>C4. A client gets a proven node: when the interface answers a request for the best node with
  a node, that node is ACTIVE, structurally valid and has a runtime port, and a successful
  test of it less than twelve hours old is on record, whatever happened before.\<close>

theorem clients_get_proven_nodes:
  assumes "transactions empty_db (api_db s)" and "\<And>k cs. set (av_pick a k cs) \<subseteq> set cs"
    and "rp_status (fst (handle L a cfg (Best client) s)) = 200"
  shows "\<exists>n \<in> set (db_nodes (api_db s)).
    json_get ''node_id'' (rp_body (fst (handle L a cfg (Best client) s))) = Some (JStr (n_id n)) \<and>
    n_lifecycle_state n = ''ACTIVE'' \<and> n_structurally_valid n = 1 \<and> n_main_port n \<noteq> None \<and>
    (\<exists>v \<in> set (db_events (api_db s)). te_proxy_id v = n_id n \<and> te_result v = ''SUCCESS'' \<and>
       av_now a - hours 12 < te_occurred_at v)"
proof -
  let ?d = "api_db s" and ?client = "trim client"
  let ?cs = "filter (\<lambda>c. \<not> ca_circuit_open c)
      (candidates_for_client (av_now a) (cfg_assignment_ttl_seconds cfg) ?client ?d)"
  obtain b d' where b: "best (av_now a) (av_pick a) (av_uid a 0) (av_uid a 1) cfg ?client ?d = Inr (Some b, d')"
      "json_get ''node_id'' (rp_body (fst (handle L a cfg (Best client) s))) = Some (JStr (bd_node_id b))"
    using assms(3)
    by (auto simp: handle_def post_best_def Let_def ok_response_def json_get_obj
        split: if_splits option.splits sum.splits)
  then obtain k chosen where c: "max_by (score (av_now a) cfg) (av_pick a k ?cs) = Some chosen"
      "bd_node_id b = ca_id chosen"
    by (auto simp: best_def Let_def split: if_splits option.splits)
  have "chosen \<in> set ?cs" using max_by_Some [OF c(1)] assms(2) by blast
  then obtain n where n: "n \<in> set (db_nodes ?d)" "servable (av_now a) n" "n_id n = ca_id chosen"
    by (auto simp: candidates_set)
  then obtain t where t: "n_publication_lease_until n = Some t" "av_now a < t"
    by (cases "n_publication_lease_until n") (auto simp: servable_def)
  have "leased (set (db_events ?d)) n" using leases.from_empty [OF assms(1)] n(1) by blast
  then obtain v where "v \<in> set (db_events ?d)" "te_proxy_id v = n_id n" "te_result v = ''SUCCESS''"
      "t \<le> te_occurred_at v + hours 12"
    using t(1) by (auto simp: leased_def)
  with t(2) n b(2) c(2) show ?thesis by (intro bexI [of _ n]) (auto simp: servable_def)
qed

theorem clients_get_proven_nodes_witness:
  "\<exists>s. transactions empty_db (api_db s) \<and> (\<exists>v \<in> set (db_events (api_db s)). te_result v = ''SUCCESS'') \<and>
     rp_status (fst (handle sample_libs plain_env default_config (Best ''c'') s)) = 200"
proof -
  obtain d ts where d: "transactions empty_db d" "db_nodes d = [tested_row Download Success ts]"
    by (rule tested_store)
  let ?d = "(set_main_port 0 ''a'' 20000 d)\<lparr>db_clients := []\<rparr>"
  have "transactions (set_main_port 0 ''a'' 20000 d) ?d" by (rule others) (simp_all add: service_keys_def)
  then have "transactions d ?d" by (rule rtranclp_trans [OF single_transactions(5)])
  with d(1) have reach: "transactions empty_db (api_db (api_of ?d))" using rtranclp_trans by fastforce
  let ?n = "port_row 0 (Some (uint (20000 :: u16))) (tested_row Download Success ts)"
  have "n_id (tested_row Download Success ts) = ''a''"
    by (simp add: tested_row_def decided_row_def Let_def inserted_row_def new_node_def)
  then have nodes: "db_nodes ?d = [?n]" by (simp add: set_main_port_def d(2) update_where_def)
  have "servable 0 ?n"
    by (simp add: tested_row_def decided_row_def port_row_def Let_def servable_def inserted_row_def new_node_def
        sample_event_def health_input_def decide_def decide_lease_def decide_lifecycle_def prior_lifecycle_def
        state_of_str_def lease_until_def time_defs)
  then have one_candidate: "candidates_for_client 0 ttl client ?d = [candidate_of 0 ttl client ?d ?n]" for ttl client
    unfolding candidates_for_client_def nodes
    by (simp add: client_row_def find_row_def circuit_open_def)
  have open_circuit: "\<not> circuit_open 0 (client_row ''c'' (n_id ?n) ?d)"
    by (simp add: client_row_def find_row_def circuit_open_def)
  have trimmed: "trim ''c'' = ''c''" by code_simp
  have "n_main_port ?n = Some 20000" by (simp add: port_row_def)
  then have ok: "rp_status (fst (handle sample_libs plain_env default_config (Best ''c'') (api_of ?d))) = 200"
    using open_circuit
    by (simp add: handle_def post_best_def plain_env_def Let_def best_def one_candidate trimmed)
  have "set (av_pick plain_env k cs) \<subseteq> set cs" for k cs by (simp add: plain_env_def set_take_subset)
  from clients_get_proven_nodes [OF reach this ok] reach ok show ?thesis by blast
qed

end
