(* ===== verification/Startup.thy ===== *)
theory Startup
  imports Fleet Config Migration Xray
begin

text \<open>
  Start-up and shut-down (\<open>src/src/main.rs\<close>, \<open>AppConfig::load\<close>, \<open>AppState::new\<close>): the order in
  which a start reads its configuration, checks the Xray binary, migrates the store and
  restores the runtimes, where it refuses to go on, and what a restart makes of the store
  that an earlier life of the program left, however that life ended.
\<close>

section \<open>Arguments and configuration\<close>

datatype arguments = Config_At string | Show_Help | Bad_Arguments string

fun parse_config_path :: "string \<Rightarrow> string list \<Rightarrow> arguments" where
  "parse_config_path path [] = Config_At path"
| "parse_config_path path (arg # rest) =
     (if arg = ''--config'' then
        (case rest of
           [] \<Rightarrow> Bad_Arguments ''--config requires a path''
         | v # later \<Rightarrow> parse_config_path v later)
      else if arg \<in> {''--help'', ''-h''} then Show_Help
      else Bad_Arguments (''unknown argument: '' @ arg))"

definition default_config_path :: string where
  "default_config_path = ''/app/config/config.yml''"

text \<open>The YAML library: the value of a document, and the configuration its typed reader makes of
  it (the defaults of the sections filled in).\<close>

record yaml_lib =
  yl_value :: "string \<Rightarrow> string + yaml"
  yl_config :: "string \<Rightarrow> string + AppConfig"

definition load :: "yaml_lib \<Rightarrow> env \<Rightarrow> string \<Rightarrow> string + string \<Rightarrow> string + AppConfig" where
  "load Y env path file =
     (case file of
        Inl _ \<Rightarrow> Inl (''reading '' @ path)
      | Inr raw \<Rightarrow>
     (case yl_value Y raw of
        Inl _ \<Rightarrow> Inl ''parsing YAML configuration''
      | Inr v \<Rightarrow>
     (case snd (warn_unknown_keys v) of
        Some e \<Rightarrow> Inl e
      | None \<Rightarrow>
     (case yl_config Y raw of
        Inl _ \<Rightarrow> Inl ''parsing YAML configuration''
      | Inr c \<Rightarrow>
          bind_e (apply_environment env c) (\<lambda>c.
          bind_e (validate c) (\<lambda>_. Inr c))))))"

section \<open>One start\<close>

text \<open>What the start asks of its surroundings. A statement on the store that fails leaves the
  store as it was: every one of them is a transaction.\<close>

datatype boot_write = Migrating | Seeding | Recording_Binary | Recording_Schema | Clearing_Ports

record boot_env =
  be_args :: "string list"
  be_file :: "string \<Rightarrow> string + string"
  be_env :: env
  be_version :: "string \<Rightarrow> version_run"
  be_procs :: "string + proc_entry list"
  be_temp :: "string list"
  be_connect :: "string option"
  be_backup :: "string option"
  be_deadline :: instant
  be_lock :: "(instant \<times> lock_file) list"
  be_write :: "boot_write \<Rightarrow> string option"
  be_clock :: "nat \<Rightarrow> instant"
  be_load_ok :: bool
  be_ensure :: "nat \<Rightarrow> ensure_env"
  be_bind :: "string option"

datatype boot_end =
  Help_Shown
| Gave_Up string
| Waiting_For_Lock
| Serving AppConfig api_state

text \<open>What comes before the first statement that may change the store: the configuration, the
  version of the binary, the processes an earlier life left behind, the connection and the
  backup of a store that is not migrated yet.\<close>

definition prepare :: "yaml_lib \<Rightarrow> boot_env \<Rightarrow> boot_end + AppConfig \<times> nat \<times> string list" where
  "prepare Y b =
     (case parse_config_path default_config_path (be_args b) of
        Show_Help \<Rightarrow> Inl Help_Shown
      | Bad_Arguments e \<Rightarrow> Inl (Gave_Up e)
      | Config_At path \<Rightarrow>
     (case load Y (be_env b) path (be_file b path) of
        Inl _ \<Rightarrow> Inl (Gave_Up ''loading configuration'')
      | Inr cfg \<Rightarrow>
     (case detect_version (be_version b (cfg_xray_bin cfg)) of
        Inl _ \<Rightarrow> Inl (Gave_Up (''checking configured Xray binary '' @ cfg_xray_bin cfg))
      | Inr _ \<Rightarrow>
     (case be_procs b of
        Inl _ \<Rightarrow> Inl (Gave_Up ''cleaning scoped Xray leftovers'')
      | Inr procs \<Rightarrow>
     (if be_connect b \<noteq> None then Inl (Gave_Up ''opening SQLite database'')
      else case be_backup b of
        Some e \<Rightarrow> Inl (Gave_Up e)
      | None \<Rightarrow> Inr (cfg, cleanup_project_orphans procs (be_temp b)))))))"

text \<open>The statements that change the store, in their order, with the message of the one that
  fails.\<close>

definition service_version :: string where
  "service_version = ''0.1.0''"

definition store_stages ::
  "boot_env \<Rightarrow> AppConfig \<Rightarrow> (boot_write \<times> (string \<Rightarrow> string) \<times> (db \<Rightarrow> db)) list" where
  "store_stages b cfg =
     [(Migrating, \<lambda>_. ''migrating SQLite database'', migrate (be_clock b 0)),
      (Seeding, \<lambda>_. ''seeding legacy download leases'',
         \<lambda>d. snd (seed_legacy_download_leases (be_clock b 1)
                    (hc_recent_success_retention_hours (cfg_health cfg)) d)),
      (Recording_Binary, \<lambda>_. ''recording binary version'',
         set_service_state (be_clock b 2) ''binary_version'' (json_obj [(''version'', JStr service_version)])),
      (Recording_Schema, \<lambda>_. ''recording schema version'',
         set_service_state (be_clock b 3) ''schema_version'' (json_obj [(''version'', JStr ''rust-evidence-v1'')])),
      (Clearing_Ports, \<lambda>e. e, \<lambda>d. snd (clear_stale_runtime_ports (be_clock b 4) d))]"

lemma prepare_not_serving: "prepare Y b = Inl r \<Longrightarrow> r \<noteq> Serving cfg x"
  by (auto simp: prepare_def split: arguments.splits sum.splits if_splits option.splits)

fun run_stages ::
  "(boot_write \<Rightarrow> string option) \<Rightarrow> (boot_write \<times> (string \<Rightarrow> string) \<times> (db \<Rightarrow> db)) list \<Rightarrow> db \<Rightarrow>
   string option \<times> db" where
  "run_stages failed [] d = (None, d)"
| "run_stages failed ((k, msg, f) # stages) d =
     (case failed k of
        Some e \<Rightarrow> (Some (msg e), d)
      | None \<Rightarrow> run_stages failed stages (f d))"

definition new_app :: "instant \<Rightarrow> AppConfig \<Rightarrow> db \<Rightarrow> api_state" where
  "new_app now cfg d =
     \<lparr>ax_app = \<lparr>as_status = initial_status now cfg,
                as_rt = \<lparr>rs_mgr = empty_manager, rs_ports = {}, rs_db = d\<rparr>, as_samples = []\<rparr>,
      ax_refreshing = False\<rparr>"

definition listen_address :: "AppConfig \<Rightarrow> string" where
  "listen_address cfg = api_host (cfg_api cfg) @ '':'' @ show_nat (unat (api_port (cfg_api cfg)))"

definition restored :: "libs \<Rightarrow> AppConfig \<Rightarrow> boot_env \<Rightarrow> db \<Rightarrow> api_state" where
  "restored L cfg b d =
     (let x = new_app (be_clock b 5) cfg d
      in x\<lparr>ax_app := on_rt (\<lambda>q. snd (reconcile_active_runtimes L cfg (be_clock b 6) (be_load_ok b)
                                       (be_ensure b) q)) (ax_app x)\<rparr>)"

definition boot :: "yaml_lib \<Rightarrow> libs \<Rightarrow> boot_env \<Rightarrow> db \<Rightarrow> boot_end \<times> db" where
  "boot Y L b d =
     (case prepare Y b of
        Inl r \<Rightarrow> (r, d)
      | Inr (cfg, _) \<Rightarrow>
     (case acquire_migration_leader (be_deadline b) (be_lock b) of
        None \<Rightarrow> (Waiting_For_Lock, d)
      | Some (Inl _) \<Rightarrow> (Gave_Up ''migrating SQLite database'', d)
      | Some (Inr _) \<Rightarrow>
     (case run_stages (be_write b) (store_stages b cfg) d of
        (Some e, d1) \<Rightarrow> (Gave_Up e, d1)
      | (None, d1) \<Rightarrow>
          let x = restored L cfg b d1
          in (if be_bind b \<noteq> None then Gave_Up (''binding API on '' @ listen_address cfg)
              else Serving cfg x, api_db x))))"

section \<open>The background services and the end\<close>

datatype background = Heartbeat_Loop | Upstream_Loop | Guard_Loop | Scheduler_Loop | Vip_Loop | Publisher_Loop

definition spawn_background_services :: "background list" where
  "spawn_background_services =
     [Heartbeat_Loop, Upstream_Loop, Guard_Loop, Scheduler_Loop, Vip_Loop, Publisher_Loop]"

text \<open>What joining a service within its forty-five seconds gives; one that is overdue is
  aborted.\<close>

datatype joined = Completed | Join_Error string | Overdue

definition drain :: "(background \<Rightarrow> joined) \<Rightarrow> nat \<times> nat" where
  "drain j =
     (length (filter (\<lambda>s. j s = Completed) spawn_background_services),
      length (filter (\<lambda>s. j s = Overdue) spawn_background_services))"

record stop_report =
  sp_runtimes :: nat
  sp_vip :: nat
  sp_completed :: nat
  sp_aborted :: nat

definition stop_program ::
  "string option \<Rightarrow> (background \<Rightarrow> joined) \<Rightarrow> instant \<Rightarrow> (string \<Rightarrow> stop_obs) \<Rightarrow> (string \<Rightarrow> bool) \<Rightarrow>
   stop_obs \<Rightarrow> api_state \<Rightarrow> (string + unit) \<times> stop_report \<times> api_state" where
  "stop_program served j now stops clear_ok vip_stop x =
     (let (completed, aborted) = drain j;
          ((runtimes, vip), q, _) = shutdown now stops clear_ok vip_stop (as_rt (ax_app x))
      in (case served of None \<Rightarrow> Inr () | Some _ \<Rightarrow> Inl ''HTTP server failed'',
          \<lparr>sp_runtimes = runtimes, sp_vip = vip, sp_completed = completed, sp_aborted = aborted\<rparr>,
          x\<lparr>ax_app := on_rt (\<lambda>_. q) (ax_app x)\<rparr>))"

text \<open>
  The lives of a store: it is created empty, starts follow one another, and each that
  serves is ended by a shut-down or a crash after any of its steps.
\<close>

inductive lifetime ::
  "(instant \<Rightarrow> string) \<Rightarrow> yaml_lib \<Rightarrow> libs \<Rightarrow> 'g host \<Rightarrow> string \<Rightarrow> db \<Rightarrow> bool"
  for stamp Y L h database where
  Created: "lifetime stamp Y L h database empty_db"
| Started: "lifetime stamp Y L h database d \<Longrightarrow> lifetime stamp Y L h database (snd (boot Y L b d))"
| Ran: "lifetime stamp Y L h database d \<Longrightarrow> fst (boot Y L b d) = Serving cfg x \<Longrightarrow>
    fleet_run stamp L cfg h database
      \<lparr>fl_guard = \<lparr>gs_failures = 0, gs_recoveries = 0\<rparr>, fl_api = x, fl_world = v\<rparr> s \<Longrightarrow>
    lifetime stamp Y L h database (fleet_db s)"

section \<open>What a start changes\<close>

lemma migrated_frame [simp]:
  "db_events (migrate now d) = db_events d" "service_keys (migrate now d) = service_keys d"
  by (simp_all add: migrate_def service_keys_def on_nodes_def)

lemma seed_state: "service_state k d \<noteq> None \<longleftrightarrow> k \<in> service_keys d"
  by (auto simp: service_state_def kv_get_def find_row_None service_keys_def)

lemma seed_frame [simp]:
  "db_events (snd (seed_legacy_download_leases now h d)) = db_events d"
  "service_keys (snd (seed_legacy_download_leases now h d)) = insert seed_key (service_keys d)"
  using seed_state [of seed_key d]
  by (auto simp: seed_legacy_download_leases_def Let_def insert_or_ignore_def service_keys_def list_ex_iff
      on_nodes_def) (metis image_eqI)

lemma seed_nodes:
  "db_nodes (snd (seed_legacy_download_leases now h d)) =
     (if seed_key \<in> service_keys d then db_nodes d else update_where seedable (seed_row now h) (db_nodes d))"
  using seed_state [of seed_key d] by (auto simp: seed_legacy_download_leases_def Let_def)

lemma reconcile_ports:
  assumes "\<And>now p n. f (port_row now p n) = f n"
  shows "map f (db_nodes (rs_db (snd (reconcile_from L cfg k w i started failed cs s)))) = map f (db_nodes (rs_db s))"
proof (induction cs arbitrary: i started failed s)
  case (Cons c cs)
  obtain r s1 es where e: "ensure_runtime L cfg (w i) (rc_id c) (rc_raw_config c) s = (r, s1, es)"
    using prod_cases3 by blast
  have "map f (db_nodes (rs_db s1)) = map f (db_nodes (rs_db s))"
    using e by (cases rule: ensure_runtime_cases)
      (auto simp: set_main_port_def assms map_update_where split: option.splits)
  then show ?case using Cons.IH by (cases r) (simp_all add: e)
qed simp

text \<open>
  A column the statements of a start do not write, as long as the migration keeps it in the
  rows that satisfy \<open>ok\<close>, keeps its values through a whole start.
\<close>

locale start_column =
  fixes column :: "node \<Rightarrow> 'c" and ok :: "node \<Rightarrow> bool"
  assumes filled: "ok n \<Longrightarrow> column (backfill_row now n) = column n"
    and leased_by_seed: "column (seed_row now h n) = column n"
    and port_written: "column (port_row now p n) = column n"
begin

lemma stage_column:
  assumes "(k, msg, stage) \<in> set (store_stages b cfg)" and "k \<noteq> Migrating"
  shows "map column (db_nodes (stage d)) = map column (db_nodes d)"
  using assms
  by (auto simp: store_stages_def seed_nodes clear_stale_runtime_ports_def leased_by_seed port_written
      map_update_where)

lemma stages_column:
  "k \<notin> fst ` set stages \<Longrightarrow> set stages \<subseteq> set (store_stages b cfg) \<Longrightarrow> k = Migrating \<Longrightarrow>
     map column (db_nodes (snd (run_stages failed stages d))) = map column (db_nodes d)"
proof (induction failed stages d rule: run_stages.induct)
  case (2 failed k' msg f stages d)
  then have "map column (db_nodes (f d)) = map column (db_nodes d)" by (intro stage_column) auto
  with 2 show ?case by (auto split: option.split)
qed simp

lemma store_column:
  assumes "\<forall>n \<in> set (db_nodes d). ok n"
  shows "map column (db_nodes (snd (run_stages failed (store_stages b cfg) d))) = map column (db_nodes d)"
proof -
  have later: "map column (db_nodes (snd (run_stages failed (tl (store_stages b cfg)) d'))) = map column (db_nodes d')" for d'
    by (rule stages_column [where k = Migrating]) (auto simp: store_stages_def)
  have "map column (db_nodes (migrate (be_clock b 0) d)) = map column (db_nodes d)"
    using assms by (simp add: filled)
  then show ?thesis
    using later [of "migrate (be_clock b 0) d"] by (simp add: store_stages_def split: option.split)
qed

lemma restored_column: "map column (db_nodes (api_db (restored L cfg b d))) = map column (db_nodes d)"
  by (simp add: restored_def new_app_def api_db_def Let_def reconcile_active_runtimes_def
      reconcile_ports [of column, OF port_written])

lemma boot_column:
  assumes "\<forall>n \<in> set (db_nodes d). ok n"
  shows "map column (db_nodes (snd (boot Y L b d))) = map column (db_nodes d)"
  using store_column [OF assms, of "be_write b" b]
  by (auto simp: boot_def Let_def restored_column split: sum.split option.split prod.split) (metis snd_conv)+

end

interpretation identity: start_column "\<lambda>n. (n_id n, n_config_hash n, n_raw_config n)" "\<lambda>_. True"
  by unfold_locales (simp_all add: seed_row_def port_row_def)

interpretation life: start_column "\<lambda>n. (n_id n, n_lifecycle_state n)" "\<lambda>n. n_status n \<notin> {''DEAD'', ''REMOVED''}"
  by unfold_locales (auto simp: seed_row_def port_row_def legacy_state_def)

section \<open>A start is a sequence of transactions\<close>

text \<open>A store of this program never holds what the migration looks for: no row has a download
  time of the previous program, or a name or a value it would repair.\<close>

definition untested :: "test_event set \<Rightarrow> node \<Rightarrow> bool" where
  "untested E n \<longleftrightarrow> n_last_download_test_at n = None"

interpretation untested: row_invariant untested
proof
  fix E n m assume w: "row_write E n m" and n: "untested E n"
  from w show "untested E m"
    by (cases rule: row_write.cases) (use n in \<open>simp_all add: row_defs untested_def\<close>)
qed (simp_all add: untested_def inserted_row_def new_node_def)

lemma state_not_legacy: "s \<in> range state_str \<Longrightarrow> s \<notin> {''DEAD'', ''REMOVED''}"
  by (auto simp: state_words)

lemma reachable_settled:
  assumes "transactions empty_db d" and "n \<in> set (db_nodes d)"
  shows "settled now n"
proof -
  have "worded E n" "weighed E n" "untested E n" for E
    using words.from_empty [OF assms(1)] weights.from_empty [OF assms(1)] untested.from_empty [OF assms(1)]
      assms(2) by (simp_all add: worded_def weighed_def untested_def)
  note row = this
  have "n_status n \<in> range state_str" using row(1) by (simp add: worded_def)
  from state_not_legacy [OF this] row(2,3) show ?thesis
    by (simp add: settled_def weighed_def untested_def recent_download_def health_def clamp_def Let_def)
qed

text \<open>What a restart relies on: the seed of leases is over before there are nodes.\<close>

definition seeded_store :: "db \<Rightarrow> bool" where
  "seeded_store d \<longleftrightarrow> transactions empty_db d \<and> (db_nodes d = [] \<or> seed_key \<in> service_keys d)"

lemma migrate_seeded: "seeded_store d \<Longrightarrow> seeded_store (migrate now d) \<and> db_nodes (migrate now d) = db_nodes d"
proof -
  assume s: "seeded_store d"
  then have "db_nodes (migrate now d) = db_nodes d"
    using reachable_settled [of d] by (simp add: seeded_store_def settled_fixpoint map_idI)
  moreover from this have "transactions d (migrate now d)" by (intro others) simp_all
  ultimately show ?thesis using s rtranclp_trans by (fastforce simp: seeded_store_def)
qed

lemma seed_seeded:
  assumes "seeded_store d"
  shows "seeded_store (snd (seed_legacy_download_leases now h d)) \<and>
    seed_key \<in> service_keys (snd (seed_legacy_download_leases now h d))"
proof -
  let ?d = "snd (seed_legacy_download_leases now h d)"
  have "db_nodes ?d = db_nodes d" using assms by (auto simp: seed_nodes seeded_store_def)
  then have "transactions d ?d" by (rule others) auto
  with assms rtranclp_trans show ?thesis by (fastforce simp: seeded_store_def)
qed

lemma stage_seeded:
  assumes "(k, msg, stage) \<in> set (store_stages b cfg)" and "seeded_store d"
  shows "seeded_store (stage d)"
proof -
  have keep: "seeded_store d'" if "transactions d d'" "db_nodes d = [] \<Longrightarrow> db_nodes d' = []" for d'
    using assms(2) that rtranclp_trans [OF _ that(1)] transactions_service [OF that(1)]
    by (auto simp: seeded_store_def)
  have state: "seeded_store (set_service_state now key v d)" for now key v
    by (rule keep) (auto intro: others)
  have "seeded_store (snd (clear_stale_runtime_ports now d))" for now
    by (rule keep, simp) (simp add: clear_stale_runtime_ports_def)
  with assms migrate_seeded seed_seeded state show ?thesis by (auto simp: store_stages_def)
qed

lemma stages_seeded:
  "set stages \<subseteq> set (store_stages b cfg) \<Longrightarrow> seeded_store d \<Longrightarrow> seeded_store (snd (run_stages failed stages d))"
proof (induction failed stages d rule: run_stages.induct)
  case (2 failed k msg f stages d)
  then show ?case using stage_seeded [of k msg f b cfg d] by (auto split: option.split)
qed simp

lemma restored_transactions: "transactions d (api_db (restored L cfg b d))"
  using restore_transactions [of "\<lparr>rs_mgr = empty_manager, rs_ports = {}, rs_db = d\<rparr>"]
  by (simp add: restored_def new_app_def api_db_def Let_def)

text \<open>The key of the seed is set by every start that serves.\<close>

lemma stages_served:
  assumes "run_stages failed (store_stages b cfg) d = (None, d')" and "seeded_store d"
  shows "seed_key \<in> service_keys d'"
proof -
  let ?d = "snd (seed_legacy_download_leases (be_clock b 1) (hc_recent_success_retention_hours (cfg_health cfg))
      (migrate (be_clock b 0) d))"
  have "seeded_store ?d" using migrate_seeded [OF assms(2)] seed_seeded by blast
  moreover have "service_keys (snd (clear_stale_runtime_ports now d)) = service_keys d" for now d
    by (simp add: clear_stale_runtime_ports_def)
  ultimately show ?thesis using assms(1) by (auto simp: store_stages_def split: option.splits)
qed

lemma boot_cases [consumes 1, case_names stopped served]:
  assumes "boot Y L b d = (r, d')"
  obtains (stopped) "\<forall>cfg x. r \<noteq> Serving cfg x"
      "d' = d \<or> (\<exists>cfg. d' = snd (run_stages (be_write b) (store_stages b cfg) d) \<or>
         d' = api_db (restored L cfg b (snd (run_stages (be_write b) (store_stages b cfg) d))))"
    | (served) cfg x d1 left where "r = Serving cfg x" "prepare Y b = Inr (cfg, left)"
      "run_stages (be_write b) (store_stages b cfg) d = (None, d1)" "x = restored L cfg b d1" "d' = api_db x"
proof -
  consider "d' = d" "\<forall>cfg x. r \<noteq> Serving cfg x"
    | cfg e where "run_stages (be_write b) (store_stages b cfg) d = (Some e, d')" "r = Gave_Up e"
    | cfg d1 left where "run_stages (be_write b) (store_stages b cfg) d = (None, d1)" "prepare Y b = Inr (cfg, left)"
      "d' = api_db (restored L cfg b d1)" "r = Gave_Up (''binding API on '' @ listen_address cfg)"
    | cfg d1 left where "run_stages (be_write b) (store_stages b cfg) d = (None, d1)" "prepare Y b = Inr (cfg, left)"
      "d' = api_db (restored L cfg b d1)" "r = Serving cfg (restored L cfg b d1)"
    using assms prepare_not_serving [of Y b]
    by (auto simp: boot_def Let_def split: sum.splits option.splits prod.splits if_splits)
  then show thesis
  proof cases
    case 1
    then show ?thesis using stopped by blast
  next
    case (2 cfg e)
    then show ?thesis using stopped by (metis boot_end.distinct(9) snd_conv)
  next
    case (3 cfg d1 left)
    then show ?thesis using stopped by (metis boot_end.distinct(9) snd_conv)
  next
    case (4 cfg d1 left)
    then show ?thesis using served by blast
  qed
qed

lemma boot_seeded:
  assumes "boot Y L b d = (r, d')" and "seeded_store d"
  shows "seeded_store d'"
proof -
  have stages: "seeded_store (snd (run_stages (be_write b) (store_stages b cfg) d))" for cfg
    by (rule stages_seeded [OF subset_refl assms(2)])
  have restore: "seeded_store (api_db (restored L cfg b d1))" if "seeded_store d1" for cfg d1
  proof -
    have "map n_id (db_nodes (api_db (restored L cfg b d1))) = map n_id (db_nodes d1)"
      using arg_cong [OF identity.restored_column [of L cfg b d1], of "map fst"] by (simp add: comp_def)
    then show ?thesis
      using that rtranclp_trans [OF _ restored_transactions] transactions_service [OF restored_transactions]
      by (fastforce simp: seeded_store_def)
  qed
  from assms(1) show ?thesis
  proof (cases rule: boot_cases)
    case stopped
    with assms(2) stages restore show ?thesis by metis
  next
    case (served cfg x d1 left)
    with stages [of cfg] restore show ?thesis by simp
  qed
qed

lemma boot_served_key:
  assumes "boot Y L b d = (Serving cfg x, d')" and "seeded_store d"
  shows "seed_key \<in> service_keys d' \<and> api_db x = d'"
  using assms(1)
proof (cases rule: boot_cases)
  case (served cfg' x' d1 left)
  with stages_served [OF _ assms(2)] transactions_service [OF restored_transactions] show ?thesis by fastforce
qed simp

lemma reconcile_service:
  "db_service_state (rs_db (snd (reconcile_from L cfg k w i started failed cs s))) = db_service_state (rs_db s)"
proof (induction cs arbitrary: i started failed s)
  case (Cons c cs)
  obtain r s1 es where e: "ensure_runtime L cfg (w i) (rc_id c) (rc_raw_config c) s = (r, s1, es)"
    using prod_cases3 by blast
  then have "db_service_state (rs_db s1) = db_service_state (rs_db s)"
    by (cases rule: ensure_runtime_cases) (auto simp: set_main_port_def on_nodes_def split: option.splits)
  then show ?case using Cons.IH by (cases r) (simp_all add: e)
qed simp

lemma restored_service: "service_state key (api_db (restored L cfg b d)) = service_state key d"
  by (simp add: service_state_def restored_def new_app_def api_db_def Let_def reconcile_active_runtimes_def
      reconcile_service)

lemma restored_ports:
  assumes "\<forall>k n. node_of k d = Some n \<longrightarrow> n_main_port n = None"
  shows "ports_served (as_rt (ax_app (restored L cfg b d)))"
proof -
  let ?q = "\<lparr>rs_mgr = empty_manager, rs_ports = {}, rs_db = d\<rparr>"
  have "ports_served ?q" using assms by (auto simp: ports_served_def)
  then have "ports_served (snd (reconcile_active_runtimes L cfg (be_clock b 6) (be_load_ok b) (be_ensure b) ?q))"
    using reconcile_from_served [OF prod.collapse [symmetric]]
    by (simp add: reconcile_active_runtimes_def Let_def)
  then show ?thesis by (simp add: restored_def new_app_def Let_def on_rt_def)
qed

lemma prepared_validated: "prepare Y b = Inr (cfg, left) \<Longrightarrow> validate cfg = Inr ()"
  by (auto simp: prepare_def load_def bind_e_Inr split: arguments.splits sum.splits if_splits option.splits)

lemma stages_recorded:
  assumes "run_stages (be_write b) (store_stages b cfg) d = (None, d')"
  shows "service_state ''schema_version'' d' = Some (json_obj [(''version'', JStr ''rust-evidence-v1'')]) \<and>
    service_state ''binary_version'' d' = Some (json_obj [(''version'', JStr service_version)]) \<and>
    (\<forall>k n. node_of k d' = Some n \<longrightarrow> n_main_port n = None)"
proof -
  obtain d1 where d': "d' = snd (clear_stale_runtime_ports (be_clock b 4)
      (set_service_state (be_clock b 3) ''schema_version'' (json_obj [(''version'', JStr ''rust-evidence-v1'')])
        (set_service_state (be_clock b 2) ''binary_version'' (json_obj [(''version'', JStr service_version)]) d1)))"
    using assms by (auto simp: store_stages_def split: option.splits)
  have "service_state k (snd (clear_stale_runtime_ports now d)) = service_state k d" for k now d
    by (simp add: clear_stale_runtime_ports_def service_state_def on_nodes_def)
  moreover have "n_main_port n = None" if "node_of k d' = Some n" for k n
    using clear_stale_no_port that d' by (metis prod.collapse)
  ultimately show ?thesis by (simp add: d' service.get_put)
qed

lemma column_of:
  "map (\<lambda>n. (n_id n, f n)) ns = map (\<lambda>n. (n_id n, f n)) ms \<Longrightarrow>
     map_option f (find_row (\<lambda>n. n_id n = k) ns) = map_option f (find_row (\<lambda>n. n_id n = k) ms)"
proof (induction ns arbitrary: ms)
  case (Cons n ns)
  then obtain m ms' where "ms = m # ms'" by (cases ms) auto
  with Cons show ?case by (auto simp: find_row_def)
qed (simp add: find_row_def)

lemma testing_not_claimed:
  assumes u: "distinct (map n_id (db_nodes d))" and "node_of k d = Some n" "n_lifecycle_state n = ''TESTING''"
    and "claim_due e c d = (jobs, d')"
  shows "k \<notin> tj_id ` set jobs \<and> node_of k d' = Some n"
proof -
  obtain d1 where 1: "claim_inv e (max c 1) d (jobs, d1)" "db_nodes d' = db_nodes d1"
    using claim_due_passes [OF u assms(4) refl] by blast
  have n: "n \<in> set (db_nodes d)" "n_id n = k" using node_of_mem [OF assms(2)] by simp_all
  have free: "k \<notin> tj_id ` set jobs"
  proof
    assume "k \<in> tj_id ` set jobs"
    then obtain j where j: "j \<in> set jobs" "tj_id j = k" by blast
    then have "claim_of e (db_nodes d) j" using 1(1) by (simp add: claim_inv_def)
    from claim_of_iff [OF this] j(2) u n have "n_lifecycle_state n \<in> fst ` set queue_order \<or>
        n_lifecycle_state n = ''WAITING_FOR_PORT''"
      unfolding distinct_map inj_on_def by metis
    with assms(3) show False by (simp add: queue_words)
  qed
  have "db_nodes d' = claim_ids (ce_now e) (ce_lease e) (tj_id ` set jobs) (db_nodes d)"
    using 1 by (simp add: claim_inv_def)
  moreover have "find_row (\<lambda>n. n_id n = k) (claim_ids t l I ns) = find_row (\<lambda>n. n_id n = k) ns"
    if "k \<notin> I" for t l I ns
    using that by (induction ns) (auto simp: claim_ids_def find_row_def)
  ultimately show ?thesis using free assms(2) by (simp add: node_of_def)
qed

lemma one_row: "distinct (map n_id ns) \<Longrightarrow> n \<in> set ns \<Longrightarrow> filter (\<lambda>x. n_id x = n_id n) ns = [n]"
  by (induction ns) (auto simp: filter_empty_conv image_iff)

lemma testing_not_driven:
  assumes u: "distinct (map n_id (db_nodes d))" and k: "node_of k d = Some n" "n_lifecycle_state n = ''TESTING''"
  shows "revive_node now k d = (Inl ''node not found or cannot be revived'', d)"
    and "schedule_manual_test now k d = (Inr (), d)"
proof -
  have n: "n \<in> set (db_nodes d)" "n_id n = k" using node_of_mem [OF k(1)] by simp_all
  have "x = n" if "x \<in> set (db_nodes d)" "n_id x = k" for x
    using that n u by (auto simp: distinct_map inj_on_def)
  then have "rows_affected (revivable k) (db_nodes d) = 0" "rows_affected (schedulable k) (db_nodes d) = 0"
    using k(2) by (auto simp: rows_affected_zero schedulable_def revivable_def)
  moreover have "count_rows (\<lambda>n. n_id n = k) (db_nodes d) = 1"
    using one_row [OF u n(1)] n(2) by (simp add: count_rows_def)
  ultimately show "revive_node now k d = (Inl ''node not found or cannot be revived'', d)"
    and "schedule_manual_test now k d = (Inr (), d)"
    by (simp_all add: revive_node_def schedule_manual_test_def update_where_unaffected on_nodes_id Let_def)
qed

section \<open>Properties\<close>

text \<open>C1. The invariants survive restarts: whatever the program does from the creation of its
  store on, through any number of starts that serve or fail at any point, and ended
  by a shut-down or a crash after any step, the store has only seen transactions of the
  running program; on a store with nodes the migration changes no row and the seed of
  legacy leases does nothing, so no restart ever hands out a publication lease.\<close>

theorem restarts_refine_transactions:
  assumes "lifetime stamp Y L h database d"
  shows "transactions empty_db d \<and> db_nodes (migrate now d) = db_nodes d \<and>
    (db_nodes d \<noteq> [] \<longrightarrow> seed_legacy_download_leases now k d = (0, d))"
proof -
  have "seeded_store d"
    using assms
  proof (induction rule: lifetime.induct)
    case Created
    show ?case by (simp add: seeded_store_def empty_db_def)
  next
    case (Started d b)
    then show ?case using boot_seeded [of Y L b d] by (metis surj_pair snd_conv)
  next
    case (Ran d b cfg x v s)
    then have b: "boot Y L b d = (Serving cfg x, snd (boot Y L b d))" by (metis prod.collapse)
    have key: "seed_key \<in> service_keys (snd (boot Y L b d))" "api_db x = snd (boot Y L b d)"
      using boot_served_key [OF b Ran.IH] by simp_all
    have "rtranclp transaction (api_db x) (fleet_db s)"
      using run_transactions [OF Ran.hyps(3)] by (simp add: fleet_db_def)
    with key boot_seeded [OF b Ran.IH] transactions_service rtranclp_trans show ?case
      unfolding seeded_store_def by (metis subsetD)
  qed
  then show ?thesis
    using migrate_seeded [of d now] seed_state [of seed_key d]
    by (auto simp: seeded_store_def seed_legacy_download_leases_def)
qed

definition sample_yaml :: yaml_lib where
  "sample_yaml = \<lparr>yl_value = (\<lambda>_. Inr (YMapping [])), yl_config = (\<lambda>_. Inr sample_config)\<rparr>"

definition sample_boot :: boot_env where
  "sample_boot = \<lparr>be_args = [''--config'', ''c.yml''], be_file = (\<lambda>_. Inr ''''), be_env = (\<lambda>_. None),
     be_version = (\<lambda>_. VersionExit True ''0'' ''Xray'' ''''), be_procs = Inr [], be_temp = [],
     be_connect = None, be_backup = None, be_deadline = seconds 90, be_lock = [(1, NoLock)],
     be_write = (\<lambda>_. None), be_clock = int, be_load_ok = True, be_ensure = (\<lambda>_. alone_env None),
     be_bind = None\<rparr>"

lemma sample_prepared: "prepare sample_yaml sample_boot = Inr (sample_config, 0, [])"
proof -
  have "validate sample_config = Inr ()"
    by (simp add: validate_def sample_config_def default_defs port_range_valid_def)
  moreover have "apply_environment (\<lambda>_. None) sample_config = Inr sample_config"
    by (simp add: apply_environment_def env_number_u16_def env_bool_def)
  moreover have "snd (warn_unknown_keys (YMapping [])) = None" by code_simp
  ultimately have "load sample_yaml (\<lambda>_. None) ''c.yml'' (Inr '''') = Inr sample_config"
    by (simp add: load_def sample_yaml_def)
  moreover have "detect_version (VersionExit True ''0'' ''Xray'' '''') = Inr ''Xray''" by code_simp
  ultimately show ?thesis
    by (simp add: prepare_def sample_boot_def cleanup_project_orphans_def)
qed

lemma sample_serves: "\<exists>x. boot sample_yaml sample_libs sample_boot d = (Serving sample_config x, api_db x)"
proof -
  have "be_write sample_boot k = None" "be_bind sample_boot = None" for k by (simp_all add: sample_boot_def)
  moreover have "acquire_migration_leader (be_deadline sample_boot) (be_lock sample_boot) = Some (Inr 1)"
    by (simp add: sample_boot_def)
  ultimately show ?thesis
    by (simp add: boot_def sample_prepared store_stages_def Let_def)
qed

theorem restarts_refine_transactions_witness:
  "\<exists>d. lifetime (\<lambda>_. ''t'') sample_yaml sample_libs (sample_host ''1'' False) ''data/fleet.db'' d \<and>
     service_state ''schema_version'' d \<noteq> None \<and> transactions empty_db d"
proof -
  let ?life = "lifetime (\<lambda>_. ''t'') sample_yaml sample_libs (sample_host ''1'' False) ''data/fleet.db''"
  obtain x where b: "boot sample_yaml sample_libs sample_boot empty_db = (Serving sample_config x, api_db x)"
    using sample_serves by blast
  let ?s = "\<lparr>fl_guard = \<lparr>gs_failures = 0, gs_recoveries = 0\<rparr>, fl_api = x, fl_world = sample_world False\<rparr>"
  have "?life (fleet_db ?s)"
    by (rule lifetime.Ran [OF lifetime.Created _ rtranclp.rtrancl_refl, where b = sample_boot and cfg = sample_config])
      (use b in simp)
  moreover have "''schema_version'' \<in> service_keys (api_db x)"
    using b
  proof (cases rule: boot_cases)
    case (served cfg x' d1 left)
    have "''schema_version'' \<in> service_keys d1" using stages_recorded [OF served(3)] seed_state by force
    with transactions_service [OF restored_transactions] show ?thesis unfolding served(5,4) by blast
  qed blast
  ultimately show ?thesis
    using restarts_refine_transactions [of _ _ _ _ _ "fleet_db ?s"] seed_state
    by (metis fleet_db_def fleet.select_convs(2))
qed

text \<open>C7. A start is all or nothing to the clients and never loses a node: whether it serves,
  fails or waits, the nodes, their configurations and their identifiers are those from
  before, and the store is untouched unless the configuration, the binary and the migration
  lock were all in order. A start that serves has a configuration that passed validation,
  has recorded the versions of the program and of the schema, and every port its store
  names is one a runtime of this process listens on.\<close>

theorem start_keeps_nodes:
  assumes "boot Y L b d = (r, d')"
  shows "map (\<lambda>n. (n_id n, n_config_hash n, n_raw_config n)) (db_nodes d') =
      map (\<lambda>n. (n_id n, n_config_hash n, n_raw_config n)) (db_nodes d) \<and>
    (d' \<noteq> d \<longrightarrow> (\<exists>cfg left t. prepare Y b = Inr (cfg, left) \<and> validate cfg = Inr () \<and>
       acquire_migration_leader (be_deadline b) (be_lock b) = Some (Inr t) \<and> (t, NoLock) \<in> set (be_lock b))) \<and>
    (\<forall>cfg x. r = Serving cfg x \<longrightarrow> validate cfg = Inr () \<and> api_db x = d' \<and>
       service_state ''schema_version'' d' = Some (json_obj [(''version'', JStr ''rust-evidence-v1'')]) \<and>
       service_state ''binary_version'' d' = Some (json_obj [(''version'', JStr service_version)]) \<and>
       (\<forall>k n p. node_of k d' = Some n \<and> n_main_port n = Some p \<longrightarrow>
          (\<exists>q. port_for k (rs_mgr (as_rt (ax_app x))) = Some q \<and> p = uint q)))"
proof (intro conjI)
  show "map (\<lambda>n. (n_id n, n_config_hash n, n_raw_config n)) (db_nodes d') =
      map (\<lambda>n. (n_id n, n_config_hash n, n_raw_config n)) (db_nodes d)"
    using identity.boot_column [of d Y L b] assms by simp
  show "d' \<noteq> d \<longrightarrow> (\<exists>cfg left t. prepare Y b = Inr (cfg, left) \<and> validate cfg = Inr () \<and>
       acquire_migration_leader (be_deadline b) (be_lock b) = Some (Inr t) \<and> (t, NoLock) \<in> set (be_lock b))"
    using assms prepared_validated acquired_without_lock
    by (auto simp: boot_def split: sum.splits option.splits)
  show "\<forall>cfg x. r = Serving cfg x \<longrightarrow> validate cfg = Inr () \<and> api_db x = d' \<and>
       service_state ''schema_version'' d' = Some (json_obj [(''version'', JStr ''rust-evidence-v1'')]) \<and>
       service_state ''binary_version'' d' = Some (json_obj [(''version'', JStr service_version)]) \<and>
       (\<forall>k n p. node_of k d' = Some n \<and> n_main_port n = Some p \<longrightarrow>
          (\<exists>q. port_for k (rs_mgr (as_rt (ax_app x))) = Some q \<and> p = uint q))"
    using assms
  proof (cases rule: boot_cases)
    case (served cfg x d1 left)
    have "ports_served (as_rt (ax_app x))"
      using stages_recorded [OF served(3)] served(4) restored_ports by blast
    moreover have "rs_db (as_rt (ax_app x)) = d'" by (simp add: served(5) api_db_def db_of_def)
    moreover have "service_state key d' = service_state key d1" for key
      by (simp add: served(4,5) restored_service)
    ultimately show ?thesis
      using served(1,5) prepared_validated [OF served(2)] stages_recorded [OF served(3)]
      by (auto simp: ports_served_def)
  qed blast
qed

theorem start_keeps_nodes_witness:
  "\<exists>cfg x d. boot sample_yaml sample_libs sample_boot born_store = (Serving cfg x, d) \<and> map n_raw_config (db_nodes d) =
     [''trojan://pw@h:443''] \<and> service_state ''schema_version'' d \<noteq> None"
proof -
  obtain x where b: "boot sample_yaml sample_libs sample_boot born_store = (Serving sample_config x, api_db x)"
    using sample_serves by blast
  from start_keeps_nodes [OF b]
  have "map (\<lambda>n. (n_id n, n_config_hash n, n_raw_config n)) (db_nodes (api_db x)) =
      map (\<lambda>n. (n_id n, n_config_hash n, n_raw_config n)) (db_nodes born_store)"
    and "service_state ''schema_version'' (api_db x) \<noteq> None" by simp_all
  moreover from this(1) have "map n_raw_config (db_nodes (api_db x)) = map n_raw_config (db_nodes born_store)"
    by (metis (no_types, lifting) map_map comp_def snd_conv list.map_cong0)
  ultimately show ?thesis using b by (auto simp: born_store_nodes inserted_row_def sample_proxy_def)
qed

text \<open>C8. An interrupted test is stuck: when the program ends while a node is in TESTING, no
  later start brings the node back: it is TESTING after every start, whatever the age of
  its test lease; no scheduler tick claims it, a revival of all dormant nodes passes it by,
  its own revival is refused, and a manual test is acknowledged without any effect. Until a
  refresh retires it, it serves no client.\<close>

theorem interrupted_test_is_stuck:
  assumes "transactions empty_db d" and "node_of k d = Some n" and "n_lifecycle_state n = ''TESTING''"
    and "boot Y L b d = (r, d')"
  shows "\<exists>m. node_of k d' = Some m \<and> n_lifecycle_state m = ''TESTING'' \<and> (\<forall>now. \<not> servable now m) \<and>
    (\<forall>e c. k \<notin> tj_id ` set (fst (claim_due e c d')) \<and> node_of k (snd (claim_due e c d')) = Some m) \<and>
    (\<forall>now. node_of k (snd (revive_dormant now d')) = Some m \<and>
       revive_node now k d' = (Inl ''node not found or cannot be revived'', d') \<and>
       schedule_manual_test now k d' = (Inr (), d'))"
proof -
  have status: "\<forall>n \<in> set (db_nodes d). n_status n \<notin> {''DEAD'', ''REMOVED''}"
    using words.from_empty [OF assms(1)] state_not_legacy by (auto simp: worded_def)
  have "map_option n_lifecycle_state (node_of k d') = map_option n_lifecycle_state (node_of k d)"
    using life.boot_column [OF status, of Y L b] assms(4) column_of [of n_lifecycle_state]
    by (simp add: node_of_def)
  then obtain m where m: "node_of k d' = Some m" "n_lifecycle_state m = ''TESTING''"
    using assms(2,3) by auto
  have "map n_id (db_nodes d') = map n_id (db_nodes d)"
    using arg_cong [OF identity.boot_column [of d Y L b], of "map fst"] assms(4) by (simp add: comp_def)
  then have u: "distinct (map n_id (db_nodes d'))"
    using store_keys_simps(2) [OF reachable_keys [OF assms(1)]] by simp
  moreover have "node_of k (snd (revive_dormant now d')) = Some m" for now
    using m by (simp add: revive_dormant_def revive_all.node_of_upd dormant_valid_def)
  moreover have "k \<notin> tj_id ` set (fst (claim_due e c d')) \<and> node_of k (snd (claim_due e c d')) = Some m" for e c
    using testing_not_claimed [OF u m] by (metis prod.collapse)
  ultimately show ?thesis
    using m testing_not_driven [OF u m] by (intro exI [of _ m]) (simp add: servable_def)
qed

text \<open>The store of one node while the node is tested.\<close>

lemma tested_now:
  obtains d n where "transactions empty_db d" "node_of ''a'' d = Some n" "n_lifecycle_state n = ''TESTING''"
proof -
  let ?row = "inserted_row 0 1 ''a'' sample_proxy" and ?queue = "(''CANDIDATE'', ''new'')"
  let ?claimed = "append_claims 1 (claim_params sample_env ?queue 1) ([], born_store)"
  have "fresh_for (\<lambda>_. ''a'') (length [sample_proxy]) empty_db"
    by (simp add: fresh_for_def ids_def empty_db_def inj_on_def)
  then have born: "transaction empty_db born_store"
    unfolding born_store_def by (rule transaction.Ingest)
  have "?queue \<in> set queue_order" by (simp add: queue_order_def)
  then have claim: "transaction born_store (snd ?claimed)" by (rule transaction.Claim)
  have row: "n_id ?row = ''a''" "n_next_test_at ?row = Some 0" "n_test_lease_until ?row = None"
    by (simp_all add: inserted_row_def new_node_def)
  have "eligible ''CANDIDATE'' (seconds 10) [?row] = [(?row, ''CANDIDATE'')]"
    by (simp add: eligible_def test_due_def row time_defs)
  then have "db_nodes (snd ?claimed) = [claimed_row (seconds 10) (seconds 60) ?row]"
    by (simp add: append_claims_def claim_params_def sample_env_def selected_def born_store_nodes claim_row_def
        lease_free_def row Let_def update_where_def)
  then have "node_of ''a'' (snd ?claimed) = Some (claimed_row (seconds 10) (seconds 60) ?row)"
    by (simp add: node_of_def find_row_def claimed_row_def row)
  moreover have "n_lifecycle_state (claimed_row (seconds 10) (seconds 60) ?row) = ''TESTING''"
    by (simp add: claimed_row_def)
  moreover have "transactions empty_db (snd ?claimed)"
    using born claim by (meson rtranclp.rtrancl_into_rtrancl r_into_rtranclp)
  ultimately show thesis using that by blast
qed

theorem interrupted_test_is_stuck_witness:
  "\<exists>d d' x m. transactions empty_db d \<and> boot sample_yaml sample_libs sample_boot d = (Serving sample_config x, d') \<and>
     node_of ''a'' d' = Some m \<and> n_lifecycle_state m = ''TESTING'' \<and>
     ''a'' \<notin> tj_id ` set (fst (claim_due sample_env 5 d'))"
proof -
  obtain d n where d: "transactions empty_db d" "node_of ''a'' d = Some n" "n_lifecycle_state n = ''TESTING''"
    by (rule tested_now)
  obtain x where b: "boot sample_yaml sample_libs sample_boot d = (Serving sample_config x, api_db x)"
    using sample_serves by blast
  from interrupted_test_is_stuck [OF d b] d(1) b show ?thesis by blast
qed

end
