(* ===== verification/Spec2Isabelle.thy ===== *)
theory Spec2Isabelle
  imports Health Startup
begin

text \<open>
  A model of proxy-fleet, a service that collects public proxy configurations, tests them
  through Xray child processes, keeps a bounded set of them running, hands them to clients
  and publishes the proven ones to a Git repository. The code is the Rust crate under
  \<open>src/src\<close>; paths below are relative to its source directory \<open>src/src/src\<close>.

  \<^bold>\<open>How the parts interact.\<close> One process keeps its state in one SQLite database and in a few
  shared structures (runtime status, running Xray processes, reserved ports, a refresh flag).
  The upstream refresh downloads the subscriptions and ingests the parsed configurations under
  a generation number. The scheduler claims due nodes under a lease, runs them through the
  probe, and records each result: evidence with a half life, a score, a lifecycle state, a
  publication lease. ACTIVE nodes get a persistent Xray runtime; one of them serves the VIP
  port. The network guard suspends the scheduler during incidents. The HTTP interface serves
  nodes to clients and takes their feedback. The publisher commits the nodes whose lease is
  still good.

  \<^bold>\<open>The theories, in the order of their imports.\<close>
  \<^item> \<open>Prelude\<close>, \<open>Ordered_Map\<close>, \<open>Rust_Str\<close>, \<open>Json\<close>: the time line (integers in nanoseconds),
    results as sums with \<open>bind_e\<close> as the question mark, saturating integers, SQL updates of row
    lists, \<open>BTreeMap\<close>, the text operations of the standard library on UTF-8 byte strings, JSON.
  \<^item> \<open>Domain\<close> (\<open>domain/\<close>): failure classes, lifecycle states, test stages, evidence deltas,
    decay, score, lease and retry delay. \<open>Health\<close> (\<open>health/mod.rs\<close>): the decision after one test.
  \<^item> \<open>Config\<close> (\<open>config.rs\<close>): sections with their defaults, environment overrides, validation,
    unknown keys.
  \<^item> \<open>Tables\<close>, \<open>Ledger\<close>, \<open>Generations\<close>, \<open>Migration\<close>, \<open>Leases\<close>, \<open>Clients\<close>, \<open>Views\<close>
    (\<open>storage/mod.rs\<close>, \<open>selection/mod.rs\<close>): the tables as lists of records, and the store's
    operations as functions on the record \<open>db\<close>: the transaction of a test result, ingestion and
    retirement, schema migration and leader lock, leases and operator actions, client selection
    and feedback, listings, snapshots and counters.
  \<^item> \<open>Parser\<close> (\<open>parser/mod.rs\<close>): share links, canonical identity, Xray outbounds.
  \<^item> \<open>Xray\<close>, \<open>Runtime\<close> (\<open>xray/mod.rs\<close>, \<open>xray/runtime.rs\<close>): child processes, port reservations,
    sessions; the runtime manager with its cap and the VIP.
  \<^item> \<open>Probe\<close> (\<open>probe/mod.rs\<close>), \<open>Scheduler\<close> (\<open>scheduler/mod.rs\<close>): the test of a cohort of proxies;
    quotas, claims, pressure, shared incidents.
  \<^item> \<open>App\<close> (\<open>app.rs\<close>): scheduler tick, network guard, heartbeat, restart of runtimes, VIP
    maintenance. \<open>Upstream\<close> (\<open>upstream/mod.rs\<close>, \<open>service.rs\<close>, \<open>metadata.rs\<close>): refresh, manual
    import, exit metadata. \<open>Publisher\<close> (\<open>publisher/mod.rs\<close>): the Git protocol. \<open>Api\<close>
    (\<open>api/mod.rs\<close>): every request handler.
  \<^item> \<open>Evolution\<close>: the transactions of the store as one relation \<open>transaction\<close>, what each may do to
    a row (\<open>row_write\<close>), and the invariants of the rows. \<open>Fleet\<close>: every service as a step of the
    running program (\<open>fleet_step\<close>), each a sequence of transactions. \<open>Startup\<close> (\<open>main.rs\<close>):
    one start (\<open>boot\<close>), the shut-down, and the lives of a store through restarts (\<open>lifetime\<close>).

  \<^bold>\<open>How state and operations correspond.\<close> A table is a list of records with the columns of the
  SQL table, a statement a \<open>map\<close> or \<open>filter\<close> over it, and an operation of \<open>Store\<close> one definition
  of the same name from the store to an answer and a store; a transaction of the code is one
  definition. Fields of \<open>db\<close> start with \<open>db_\<close>, columns of a node with \<open>n_\<close>. What a loop of
  \<open>app.rs\<close> does in one turn is one definition (\<open>scheduler_tick\<close>, \<open>guard_tick\<close>, \<open>heartbeat\<close>,
  \<open>vip_tick\<close>, \<open>refresh_tick\<close>, \<open>publisher_tick\<close>). Everything the code asks its surroundings
  (clock, random draws, answers of servers, of child processes and of the database, fresh
  identifiers) is a field of a record the operation takes; an error is a value. Library code
  that is not part of the repository (URL parsing, base64, SHA-256, the YAML reader, Git) is a
  parameter: \<open>libs\<close>, \<open>yaml_lib\<close>, \<open>host\<close>.

  \<^bold>\<open>Interfaces as locales.\<close> \<open>ordered_map\<close> (the map of the standard library), \<open>node_update\<close> (an
  UPDATE of the node table that keeps identities; interpreted for fourteen statements),
  \<open>kv_store\<close> (the two state tables), \<open>port_pool\<close> (port allocation), \<open>row_invariant\<close> (what is
  kept by every write to a row holds of every reachable store; interpreted for leases, state
  columns, health columns and the download column), \<open>start_column\<close> (a column no start writes).

  \<^bold>\<open>What the groups of lemmas show.\<close>
  \<^item> The whole program: everything from the creation of the store on, through starts, crashes
    and shut-downs, is a sequence of transactions; so what is published and what clients get
    rests on a recorded success of the last twelve hours, a proven node stays published until
    the lease of its success ends, keys are unique, the state columns agree, and INVALID is final. A start never loses a node; a test interrupted by a crash is
    never resumed.
  \<^item> Evidence and lifecycle: recording twice changes nothing, the log is append-only, evidence
    and score are bounded, an ACTIVE node is not demoted without evidence or during an incident.
  \<^item> Generations: refreshes retire only what complete generations missed; a failing source
    retires nothing.
  \<^item> Scheduler and probe: claims are sound and complete (and small ticks pass over ACTIVE nodes), every job gets a verdict and its ports
    back, an unfit proxy does not spoil its cohort.
  \<^item> Runtimes, guard, VIP: exclusive ports within the cap, bounded concurrency, hysteresis.
  \<^item> Parser and sessions: identity ignores remarks, a batch pins each port to one proxy, every
    child is recognised after a crash.
  \<^item> Publisher and interface: the Git protocol, quiet when nothing changed, stuck after a failed
    commit; requests that fail change nothing, refreshes never overlap.

  \<^bold>\<open>Bounds.\<close> Recursion is structural or has a measure; there is no fuel. The bounds are the
  code's: 30 readiness attempts of a session, two pushes of one publication, 512 events per
  evidence sum, 901 attempts for the migration lock. Ports are 16-bit words, counters saturate
  at their width, \<open>f64\<close> values are real numbers, so rounding and NaN are outside the model.

  \<^bold>\<open>Not modelled.\<close> The SQL text, indexes, table creation, pool and backup copy of the database;
  the text of log lines (\<open>tracing\<close>, the migration report of the configuration); the HTTP layers,
  routing and decoding of the web framework; the timers of the loops and the select on shut-down
  (a step may fall at any time); the texts that \<open>procfs\<close> holds are taken as read lines or
  numbers. Tasks interleave between transactions, not inside one; the claim of a row selected
  before another task changed it is a transaction of its own (\<open>Claim_Late\<close>).
\<close>

end
